(* ===== verification/Prelude.thy ===== *)
theory Prelude
  imports Main "HOL-Library.Word"
begin

text \<open>
  Shared vocabulary of the development: the compilation target (pointer width, byte order,
  debug assertions), \<open>usize\<close> arithmetic with its limits written out, the byte encodings of a
  machine word in little, big and native order, and the list operation \<open>overwrite\<close> that every
  memory write of the model comes down to.
\<close>

unbundle bit_operations_syntax

section \<open>The compilation target\<close>

text \<open>
  The crate is compiled per target with \<^verbatim>\<open>cfg(target_pointer_width = ...)\<close>,
  \<^verbatim>\<open>cfg(target_endian = ...)\<close> and \<^verbatim>\<open>cfg(debug_assertions)\<close>. The
  model keeps the three as a record, so that every theorem holds for each combination.
\<close>

datatype pointer_width = P32 | P64

datatype endian = LittleEndian | BigEndian

record target =
  pointer_width :: pointer_width
  target_endian :: endian
  debug_assertions :: bool

type_synonym byte = "8 word"

fun width_bytes :: "pointer_width \<Rightarrow> nat" where
  "width_bytes P32 = 4"
| "width_bytes P64 = 8"

definition USIZE_SIZE :: "target \<Rightarrow> nat" where
  "USIZE_SIZE t = width_bytes (pointer_width t)"

definition USIZE_BITS :: "target \<Rightarrow> nat" where
  "USIZE_BITS t = 8 * USIZE_SIZE t"

definition USIZE_MAX :: "target \<Rightarrow> nat" where
  "USIZE_MAX t = 2 ^ USIZE_BITS t - 1"

definition ISIZE_MAX :: "target \<Rightarrow> nat" where
  "ISIZE_MAX t = 2 ^ (USIZE_BITS t - 1) - 1"

lemma USIZE_SIZE_cases: "USIZE_SIZE t = 4 \<or> USIZE_SIZE t = 8"
  by (cases "pointer_width t") (simp_all add: USIZE_SIZE_def)

lemma USIZE_SIZE_pos [simp]: "0 < USIZE_SIZE t"
  using USIZE_SIZE_cases [of t] by auto

lemma USIZE_SIZE_ge_4 [simp]: "4 \<le> USIZE_SIZE t"
  using USIZE_SIZE_cases [of t] by auto

lemma USIZE_SIZE_le_8: "USIZE_SIZE t \<le> 8"
  using USIZE_SIZE_cases [of t] by auto

text \<open>The numbers behind the two pointer widths, for arithmetic on concrete bounds.\<close>

lemma target_numbers_64:
  assumes "pointer_width t = P64"
  shows "USIZE_SIZE t = 8" "USIZE_BITS t = 64"
    "USIZE_MAX t = 18446744073709551615" "ISIZE_MAX t = 9223372036854775807"
  using assms by (simp_all add: USIZE_SIZE_def USIZE_BITS_def USIZE_MAX_def ISIZE_MAX_def)

lemma target_numbers_32:
  assumes "pointer_width t = P32"
  shows "USIZE_SIZE t = 4" "USIZE_BITS t = 32"
    "USIZE_MAX t = 4294967295" "ISIZE_MAX t = 2147483647"
  using assms by (simp_all add: USIZE_SIZE_def USIZE_BITS_def USIZE_MAX_def ISIZE_MAX_def)

lemma ISIZE_MAX_USIZE_MAX: "2 * ISIZE_MAX t + 1 = USIZE_MAX t"
  by (cases "pointer_width t") (simp_all add: target_numbers_32 target_numbers_64)

lemma ISIZE_MAX_less_power: "ISIZE_MAX t + 1 < 2 ^ USIZE_BITS t"
  by (cases "pointer_width t") (simp_all add: target_numbers_32 target_numbers_64)

lemma USIZE_MAX_less_power: "n \<le> USIZE_MAX t \<longleftrightarrow> n < 2 ^ USIZE_BITS t"
  by (cases "pointer_width t") (auto simp: target_numbers_32 target_numbers_64)

lemma power_USIZE_BITS: "(2::nat) ^ USIZE_BITS t = 256 ^ USIZE_SIZE t"
  by (cases "pointer_width t") (simp_all add: target_numbers_32 target_numbers_64)

section \<open>Checked, saturating and wrapping \<open>usize\<close> arithmetic\<close>

text \<open>A \<open>usize\<close> is a natural number; the operations of the standard library that the code
  calls by name write their behaviour at the limit out.\<close>

definition checked_add :: "target \<Rightarrow> nat \<Rightarrow> nat \<Rightarrow> nat option" where
  "checked_add t a b = (if a + b \<le> USIZE_MAX t then Some (a + b) else None)"

definition checked_mul :: "target \<Rightarrow> nat \<Rightarrow> nat \<Rightarrow> nat option" where
  "checked_mul t a b = (if a * b \<le> USIZE_MAX t then Some (a * b) else None)"

definition saturating_add :: "target \<Rightarrow> nat \<Rightarrow> nat \<Rightarrow> nat" where
  "saturating_add t a b = (if a + b \<le> USIZE_MAX t then a + b else USIZE_MAX t)"

definition saturating_sub :: "nat \<Rightarrow> nat \<Rightarrow> nat" where
  "saturating_sub a b = (if b \<le> a then a - b else 0)"

definition wrapping_add :: "target \<Rightarrow> nat \<Rightarrow> nat \<Rightarrow> nat" where
  "wrapping_add t a b = (a + b) mod 2 ^ USIZE_BITS t"

definition wrapping_sub :: "target \<Rightarrow> nat \<Rightarrow> nat \<Rightarrow> nat" where
  "wrapping_sub t a b = (a + 2 ^ USIZE_BITS t - b) mod 2 ^ USIZE_BITS t"

section \<open>Byte order\<close>

text \<open>\<open>byte_of\<close> is the cast \<^verbatim>\<open>as u8\<close>: it keeps the low eight bits.\<close>

definition byte_of :: "nat \<Rightarrow> byte" where
  "byte_of x = word_of_nat x"

lemma unat_byte_of: "unat (byte_of x) = x mod 256"
  by (simp add: byte_of_def unat_of_nat)

lemma unat_byte_less [simp]: "unat (b :: byte) < 256"
  using unsigned_less [of b] by simp

lemma byte_of_eqI: "unat b = x mod 256 \<Longrightarrow> byte_of x = b"
  by (simp only: word_unat_eq_iff unat_byte_of)

lemma byte_of_unat [simp]: "byte_of (unat b) = b"
  by (rule byte_of_eqI) (rule mod_less [OF unat_byte_less, symmetric])

lemma byte_of_or: "byte_of (x OR y) = byte_of x OR byte_of y"
  by (simp add: byte_of_def of_nat_or_eq)

lemma byte_of_xor: "byte_of (x XOR y) = byte_of x XOR byte_of y"
  by (simp add: byte_of_def of_nat_xor_eq)

text \<open>\<open>le_bytes n x\<close> is the \<open>n\<close>-byte little-endian encoding of \<open>x\<close> (higher bytes dropped),
  \<open>of_le_bytes\<close> its inverse.\<close>

fun le_bytes :: "nat \<Rightarrow> nat \<Rightarrow> byte list" where
  "le_bytes 0 x = []"
| "le_bytes (Suc n) x = byte_of x # le_bytes n (x div 256)"

fun of_le_bytes :: "byte list \<Rightarrow> nat" where
  "of_le_bytes [] = 0"
| "of_le_bytes (b # bs) = unat b + 256 * of_le_bytes bs"

lemma length_le_bytes [simp]: "length (le_bytes n x) = n"
  by (induction n arbitrary: x) simp_all

lemma of_le_bytes_le_bytes: "of_le_bytes (le_bytes n x) = x mod 256 ^ n"
proof (induction n arbitrary: x)
  case 0
  then show ?case by simp
next
  case (Suc n)
  have "x mod (256 * 256 ^ n) = 256 * (x div 256 mod 256 ^ n) + x mod 256"
    by (rule mod_mult2_eq)
  then show ?case by (simp add: Suc unat_byte_of)
qed

lemma le_bytes_of_le_bytes: "length bs = n \<Longrightarrow> le_bytes n (of_le_bytes bs) = bs"
proof (induction bs arbitrary: n)
  case Nil
  then show ?case by simp
next
  case (Cons b bs)
  have "byte_of (unat b + 256 * of_le_bytes bs) = b"
    by (rule byte_of_eqI) simp
  with Cons show ?case by auto
qed

lemma of_le_bytes_less: "of_le_bytes bs < 256 ^ length bs"
proof (induction bs)
  case Nil
  then show ?case by simp
next
  case (Cons b bs)
  have "unat b + 256 * of_le_bytes bs < 256 + 256 * of_le_bytes bs" by simp
  also have "\<dots> \<le> 256 * 256 ^ length bs" using Cons by simp
  finally show ?case by simp
qed

lemma of_le_bytes_append:
  "of_le_bytes (xs @ ys) = of_le_bytes xs + 256 ^ length xs * of_le_bytes ys"
  by (induction xs) (simp_all add: algebra_simps)

lemma of_le_bytes_zeros [simp]: "of_le_bytes (replicate n 0) = 0"
  by (induction n) simp_all

lemma nat_or_div_256: "((x::nat) OR y) div 256 = (x div 256) OR (y div 256)"
  using drop_bit_or [of 8 x y] by (simp add: drop_bit_eq_div)

lemma nat_xor_div_256: "((x::nat) XOR y) div 256 = (x div 256) XOR (y div 256)"
  using drop_bit_xor [of 8 x y] by (simp add: drop_bit_eq_div)

lemma le_bytes_or: "le_bytes n (x OR y) = map2 (OR) (le_bytes n x) (le_bytes n y)"
  by (induction n arbitrary: x y) (simp_all add: nat_or_div_256 byte_of_or)

lemma le_bytes_xor: "le_bytes n (x XOR y) = map2 (XOR) (le_bytes n x) (le_bytes n y)"
  by (induction n arbitrary: x y) (simp_all add: nat_xor_div_256 byte_of_xor)

text \<open>Native order, and the two conversions \<^verbatim>\<open>to_le\<close> and \<^verbatim>\<open>from_le\<close>: the
  identity on a little-endian target and a byte swap on a big-endian one.\<close>

definition to_ne_bytes :: "target \<Rightarrow> nat \<Rightarrow> byte list" where
  "to_ne_bytes t x = (case target_endian t of
     LittleEndian \<Rightarrow> le_bytes (USIZE_SIZE t) x
   | BigEndian \<Rightarrow> rev (le_bytes (USIZE_SIZE t) x))"

definition from_ne_bytes :: "target \<Rightarrow> byte list \<Rightarrow> nat" where
  "from_ne_bytes t bs = (case target_endian t of
     LittleEndian \<Rightarrow> of_le_bytes bs
   | BigEndian \<Rightarrow> of_le_bytes (rev bs))"

definition swap_bytes :: "target \<Rightarrow> nat \<Rightarrow> nat" where
  "swap_bytes t x = of_le_bytes (rev (le_bytes (USIZE_SIZE t) x))"

definition to_le :: "target \<Rightarrow> nat \<Rightarrow> nat" where
  "to_le t x = (case target_endian t of LittleEndian \<Rightarrow> x | BigEndian \<Rightarrow> swap_bytes t x)"

definition from_le :: "target \<Rightarrow> nat \<Rightarrow> nat" where
  "from_le t x = (case target_endian t of LittleEndian \<Rightarrow> x | BigEndian \<Rightarrow> swap_bytes t x)"

lemma length_to_ne_bytes [simp]: "length (to_ne_bytes t x) = USIZE_SIZE t"
  by (simp add: to_ne_bytes_def split: endian.split)

lemma from_to_ne_bytes: "x < 2 ^ USIZE_BITS t \<Longrightarrow> from_ne_bytes t (to_ne_bytes t x) = x"
  by (simp add: from_ne_bytes_def to_ne_bytes_def of_le_bytes_le_bytes power_USIZE_BITS
      split: endian.split)

lemma to_from_ne_bytes: "length bs = USIZE_SIZE t \<Longrightarrow> to_ne_bytes t (from_ne_bytes t bs) = bs"
  by (simp add: from_ne_bytes_def to_ne_bytes_def le_bytes_of_le_bytes split: endian.split)

lemma from_ne_bytes_less: "length bs = USIZE_SIZE t \<Longrightarrow> from_ne_bytes t bs < 2 ^ USIZE_BITS t"
  using of_le_bytes_less [of bs] of_le_bytes_less [of "rev bs"]
  by (simp add: from_ne_bytes_def power_USIZE_BITS split: endian.split)

lemma to_ne_bytes_or:
  "to_ne_bytes t (x OR y) = map2 (OR) (to_ne_bytes t x) (to_ne_bytes t y)"
  by (simp add: to_ne_bytes_def le_bytes_or rev_map zip_rev split: endian.split)

lemma to_ne_bytes_xor:
  "to_ne_bytes t (x XOR y) = map2 (XOR) (to_ne_bytes t x) (to_ne_bytes t y)"
  by (simp add: to_ne_bytes_def le_bytes_xor rev_map zip_rev split: endian.split)

text \<open>The bytes that a value converted with \<open>to_le\<close> has in memory are its little-endian bytes,
  whatever the byte order of the target.\<close>

lemma to_ne_bytes_to_le: "to_ne_bytes t (to_le t x) = le_bytes (USIZE_SIZE t) x"
  by (simp add: to_ne_bytes_def to_le_def swap_bytes_def le_bytes_of_le_bytes split: endian.split)

lemma from_le_from_ne_bytes:
  "length bs = USIZE_SIZE t \<Longrightarrow> from_le t (from_ne_bytes t bs) = of_le_bytes bs"
  by (simp add: from_le_def from_ne_bytes_def swap_bytes_def le_bytes_of_le_bytes
      split: endian.split)

section \<open>Overwriting part of a list\<close>

definition overwrite :: "'a list \<Rightarrow> nat \<Rightarrow> 'a list \<Rightarrow> 'a list" where
  "overwrite xs off ys = take off xs @ ys @ drop (off + length ys) xs"

definition window :: "'a list \<Rightarrow> nat \<Rightarrow> nat \<Rightarrow> 'a list" where
  "window xs off n = take n (drop off xs)"

lemma length_overwrite [simp]:
  "off + length ys \<le> length xs \<Longrightarrow> length (overwrite xs off ys) = length xs"
  by (simp add: overwrite_def)

lemma length_window [simp]: "off + n \<le> length xs \<Longrightarrow> length (window xs off n) = n"
  by (simp add: window_def)

lemma nth_overwrite:
  assumes "off + length ys \<le> length xs" "i < length xs"
  shows "overwrite xs off ys ! i =
    (if off \<le> i \<and> i < off + length ys then ys ! (i - off) else xs ! i)"
  using assms by (auto simp: overwrite_def nth_append)

lemma nth_window: "off + n \<le> length xs \<Longrightarrow> i < n \<Longrightarrow> window xs off n ! i = xs ! (off + i)"
  by (simp add: window_def)

lemma overwrite_Nil [simp]: "overwrite xs off [] = xs"
  by (simp add: overwrite_def)

lemma overwrite_append_right:
  "length xs \<le> off \<Longrightarrow> overwrite (xs @ ys) off zs = xs @ overwrite ys (off - length xs) zs"
  by (simp add: overwrite_def)

lemma overwrite_append_left:
  "off + length zs \<le> length xs \<Longrightarrow> overwrite (xs @ ys) off zs = overwrite xs off zs @ ys"
  by (simp add: overwrite_def)

lemma overwrite_all: "length ys = length xs \<Longrightarrow> overwrite xs 0 ys = ys"
  by (simp add: overwrite_def)

lemma window_append_right:
  "length xs \<le> off \<Longrightarrow> window (xs @ ys) off n = window ys (off - length xs) n"
  by (simp add: window_def)

lemma window_append_left: "off + n \<le> length xs \<Longrightarrow> window (xs @ ys) off n = window xs off n"
  by (simp add: window_def)

lemma window_all: "window xs 0 (length xs) = xs"
  by (simp add: window_def)

lemma window_0: "window xs 0 n = take n xs"
  by (simp add: window_def)

lemma window_zero_length [simp]: "window xs off 0 = []"
  by (simp add: window_def)

lemma take_overwrite:
  "off + length ys \<le> length xs \<Longrightarrow>
    take (off + length ys) (overwrite xs off ys) = take off xs @ ys"
  by (simp add: overwrite_def)

end
