(* ===== verification/Effects.thy ===== *)
theory Effects
  imports Prelude
begin

text \<open>
  How a piece of the Rust code runs. A program takes a state and ends in one of four ways: it
  returns a value, it returns \<^verbatim>\<open>Err(ReserveError)\<close>, it panics, or it does something
  the language leaves undefined (a dangling access, an \<^verbatim>\<open>unreachable_unchecked\<close> that is
  reached, a deallocation with the wrong layout). \<open>bind\<close> sequences programs and is what
  \<^verbatim>\<open>;\<close> and \<^verbatim>\<open>?\<close> do. \<open>wp\<close> is the total-correctness predicate of the
  development: one postcondition per way to end, and none for undefined behaviour, so every
  \<open>wp\<close> theorem is also a memory-safety theorem.
\<close>

section \<open>Programs\<close>

datatype ('s, 'a) outcome =
    Ret 'a 's
  | Fail 's
  | Panic 's
  | Undef

type_synonym ('s, 'a) prog = "'s \<Rightarrow> ('s, 'a) outcome"

text \<open>\<^verbatim>\<open>Result<T, ReserveError>\<close> as a value.\<close>

datatype reserve_error = ReserveError

definition ret :: "'a \<Rightarrow> ('s, 'a) prog" where
  "ret x = (\<lambda>s. Ret x s)"

definition bind :: "('s, 'a) prog \<Rightarrow> ('a \<Rightarrow> ('s, 'b) prog) \<Rightarrow> ('s, 'b) prog" where
  "bind m f = (\<lambda>s. case m s of
     Ret x s' \<Rightarrow> f x s' | Fail s' \<Rightarrow> Fail s' | Panic s' \<Rightarrow> Panic s' | Undef \<Rightarrow> Undef)"

definition fail :: "('s, 'a) prog" where
  "fail = (\<lambda>s. Fail s)"

definition panic :: "('s, 'a) prog" where
  "panic = (\<lambda>s. Panic s)"

definition undef :: "('s, 'a) prog" where
  "undef = (\<lambda>s. Undef)"

definition gets :: "('s \<Rightarrow> 'a) \<Rightarrow> ('s, 'a) prog" where
  "gets f = (\<lambda>s. Ret (f s) s)"

definition modify :: "('s \<Rightarrow> 's) \<Rightarrow> ('s, unit) prog" where
  "modify f = (\<lambda>s. Ret () (f s))"

text \<open>The operator \<^verbatim>\<open>?\<close> on a \<^verbatim>\<open>Result<_, ReserveError>\<close> value.\<close>

definition propagate :: "reserve_error + 'a \<Rightarrow> ('s, 'a) prog" where
  "propagate r = (case r of Inl _ \<Rightarrow> fail | Inr x \<Rightarrow> ret x)"

text \<open>\<^verbatim>\<open>Option::ok_or(ReserveError)?\<close>.\<close>

definition ok_or :: "'a option \<Rightarrow> ('s, 'a) prog" where
  "ok_or r = (case r of None \<Rightarrow> fail | Some x \<Rightarrow> ret x)"

text \<open>Running a program and looking at its \<^verbatim>\<open>Result\<close> instead of propagating it.\<close>

definition attempt :: "('s, 'a) prog \<Rightarrow> ('s, 'a option) prog" where
  "attempt m = (\<lambda>s. case m s of
     Ret x s' \<Rightarrow> Ret (Some x) s' | Fail s' \<Rightarrow> Ret None s' | Panic s' \<Rightarrow> Panic s' | Undef \<Rightarrow> Undef)"

text \<open>A destructor that runs on every way out of \<open>m\<close>, unwinding included.\<close>

definition finally_do :: "('s, 'a) prog \<Rightarrow> ('s, unit) prog \<Rightarrow> ('s, 'a) prog" where
  "finally_do m d = (\<lambda>s. case m s of
     Ret x s' \<Rightarrow> bind d (\<lambda>_. ret x) s'
   | Fail s' \<Rightarrow> bind d (\<lambda>_. fail) s'
   | Panic s' \<Rightarrow> bind d (\<lambda>_. panic) s'
   | Undef \<Rightarrow> Undef)"

text \<open>\<^verbatim>\<open>assert!\<close> panics in every build, \<^verbatim>\<open>debug_assert!\<close> in builds with debug
  assertions only, and a condition the code promises to the compiler
  (\<^verbatim>\<open>hint::assert_unchecked\<close>, a safety contract) is undefined behaviour when it is
  false.\<close>

definition assert_that :: "bool \<Rightarrow> ('s, unit) prog" where
  "assert_that b = (if b then ret () else panic)"

definition debug_assert :: "target \<Rightarrow> bool \<Rightarrow> ('s, unit) prog" where
  "debug_assert t b = (if debug_assertions t \<and> \<not> b then panic else ret ())"

definition assert_unchecked :: "bool \<Rightarrow> ('s, unit) prog" where
  "assert_unchecked b = (if b then ret () else undef)"

text \<open>A \<^verbatim>\<open>debug_assert!\<close> whose condition runs code; it is not evaluated in a release
  build.\<close>

definition debug_assert_run :: "target \<Rightarrow> ('s, bool) prog \<Rightarrow> ('s, unit) prog" where
  "debug_assert_run t m = (if debug_assertions t then bind m assert_that else ret ())"

text \<open>Plain \<open>+\<close>, \<open>-\<close> and \<open>*\<close> on \<open>usize\<close>: an overflow panics with debug assertions and wraps
  without.\<close>

definition usize_result :: "target \<Rightarrow> bool \<Rightarrow> nat \<Rightarrow> nat \<Rightarrow> ('s, nat) prog" where
  "usize_result t in_range exact wrapped =
    (if in_range then ret exact else if debug_assertions t then panic else ret wrapped)"

definition usize_add :: "target \<Rightarrow> nat \<Rightarrow> nat \<Rightarrow> ('s, nat) prog" where
  "usize_add t a b = usize_result t (a + b \<le> USIZE_MAX t) (a + b) (wrapping_add t a b)"

definition usize_sub :: "target \<Rightarrow> nat \<Rightarrow> nat \<Rightarrow> ('s, nat) prog" where
  "usize_sub t a b = usize_result t (b \<le> a) (a - b) (wrapping_sub t a b)"

text \<open>A \<^verbatim>\<open>for\<close> loop over the items of an iterator.\<close>

primrec for_each :: "'a list \<Rightarrow> ('a \<Rightarrow> ('s, unit) prog) \<Rightarrow> ('s, unit) prog" where
  "for_each [] body = ret ()"
| "for_each (x # xs) body = bind (body x) (\<lambda>_. for_each xs body)"

section \<open>Total correctness\<close>

definition wp :: "('s, 'a) prog \<Rightarrow> ('a \<Rightarrow> 's \<Rightarrow> bool) \<Rightarrow> ('s \<Rightarrow> bool) \<Rightarrow> ('s \<Rightarrow> bool) \<Rightarrow> 's \<Rightarrow> bool" where
  "wp m Q E P s = (case m s of
     Ret x s' \<Rightarrow> Q x s' | Fail s' \<Rightarrow> E s' | Panic s' \<Rightarrow> P s' | Undef \<Rightarrow> False)"

lemma wp_bind [simp]: "wp (bind m f) Q E P s = wp m (\<lambda>x s'. wp (f x) Q E P s') E P s"
  by (simp add: wp_def bind_def split: outcome.split)

lemma wp_ret [simp]: "wp (ret x) Q E P s = Q x s"
  by (simp add: wp_def ret_def)

lemma wp_fail [simp]: "wp fail Q E P s = E s"
  by (simp add: wp_def fail_def)

lemma wp_panic [simp]: "wp panic Q E P s = P s"
  by (simp add: wp_def panic_def)

lemma wp_undef [simp]: "wp undef Q E P s = False"
  by (simp add: wp_def undef_def)

lemma wp_gets [simp]: "wp (gets f) Q E P s = Q (f s) s"
  by (simp add: wp_def gets_def)

lemma wp_modify [simp]: "wp (modify f) Q E P s = Q () (f s)"
  by (simp add: wp_def modify_def)

lemma wp_propagate [simp]:
  "wp (propagate (Inl e)) Q E P s = E s" "wp (propagate (Inr x)) Q E P s = Q x s"
  by (simp_all add: propagate_def)

lemma wp_ok_or [simp]:
  "wp (ok_or None) Q E P s = E s" "wp (ok_or (Some x)) Q E P s = Q x s"
  by (simp_all add: ok_or_def)

lemma wp_attempt [simp]:
  "wp (attempt m) Q E P s = wp m (\<lambda>x. Q (Some x)) (Q None) P s"
  by (simp add: wp_def attempt_def split: outcome.split)

lemma wp_finally_do [simp]:
  "wp (finally_do m d) Q E P s =
    wp m (\<lambda>x. wp d (\<lambda>_. Q x) E P) (wp d (\<lambda>_. E) E P) (wp d (\<lambda>_. P) E P) s"
  by (cases "m s") (auto simp: finally_do_def wp_def bind_def ret_def fail_def panic_def
      split: outcome.split)

lemma wp_assert_that [simp]:
  "wp (assert_that b) Q E P s = (if b then Q () s else P s)"
  by (simp add: assert_that_def)

lemma wp_debug_assert [simp]: "b \<Longrightarrow> wp (debug_assert t b) Q E P s = Q () s"
  by (simp add: debug_assert_def)

lemma wp_assert_unchecked [simp]: "wp (assert_unchecked b) Q E P s = (b \<and> Q () s)"
  by (simp add: assert_unchecked_def)

lemma wp_debug_assert_run:
  "(debug_assertions t \<Longrightarrow> wp m (\<lambda>b s'. b \<and> s' = s) E P s) \<Longrightarrow> Q () s \<Longrightarrow>
    wp (debug_assert_run t m) Q E P s"
  by (auto simp: debug_assert_run_def wp_def bind_def assert_that_def ret_def panic_def
      split: outcome.splits)

lemma wp_usize_add [simp]: "a + b \<le> USIZE_MAX t \<Longrightarrow> wp (usize_add t a b) Q E P s = Q (a + b) s"
  by (simp add: usize_add_def usize_result_def)

lemma wp_usize_sub [simp]: "b \<le> a \<Longrightarrow> wp (usize_sub t a b) Q E P s = Q (a - b) s"
  by (simp add: usize_sub_def usize_result_def)

lemma wp_if [simp]:
  "wp (if b then m else m') Q E P s = (if b then wp m Q E P s else wp m' Q E P s)"
  by simp

text \<open>Consequence, and the same rule in the form that uses a known specification \<open>m\<close> of a
  called operation.\<close>

lemma wp_mono:
  assumes "wp m Q E P s"
    and "\<And>x s'. Q x s' \<Longrightarrow> Q' x s'" "\<And>s'. E s' \<Longrightarrow> E' s'" "\<And>s'. P s' \<Longrightarrow> P' s'"
  shows "wp m Q' E' P' s"
  using assms by (auto simp: wp_def split: outcome.splits)

lemma wp_conj:
  "wp m Q E P s \<Longrightarrow> wp m Q' E' P' s \<Longrightarrow>
    wp m (\<lambda>x s'. Q x s' \<and> Q' x s') (\<lambda>s'. E s' \<and> E' s') (\<lambda>s'. P s' \<and> P' s') s"
  by (auto simp: wp_def split: outcome.splits)

lemma wp_Ret: "m s = Ret x s' \<Longrightarrow> wp m Q E P s = Q x s'"
  by (simp add: wp_def)

lemma wp_not_Undef: "wp m Q E P s \<Longrightarrow> m s \<noteq> Undef"
  by (auto simp: wp_def)

text \<open>Running an operation whose result is known.\<close>

lemma ret_bind [simp]: "bind (ret x) f = f x"
  by (simp add: bind_def ret_def)

lemma debug_assert_True [simp]: "b \<Longrightarrow> debug_assert t b = ret ()"
  by (simp add: debug_assert_def)

lemma bind_Ret: "m s = Ret x s' \<Longrightarrow> bind m f s = f x s'"
  by (simp add: bind_def)

lemma run_simps:
  "ret x s = Ret x s" "fail s = Fail s" "panic s = Panic s" "undef s = Undef"
  "gets f s = Ret (f s) s" "modify g s = Ret () (g s)"
  by (simp_all add: ret_def fail_def panic_def undef_def gets_def modify_def)

text \<open>A loop keeps an invariant that speaks of the items done and those still to come.\<close>

lemma wp_for_each:
  assumes "I [] xs s"
    and "\<And>ds x xs' s. I ds (x # xs') s \<Longrightarrow> wp (body x) (\<lambda>_ s'. I (ds @ [x]) xs' s') E P s"
  shows "wp (for_each xs body) (\<lambda>_ s'. I xs [] s') E P s"
proof -
  have "I ds xs s \<Longrightarrow> wp (for_each xs body) (\<lambda>_ s'. I (ds @ xs) [] s') E P s" for ds
  proof (induction xs arbitrary: ds s)
    case Nil
    then show ?case by simp
  next
    case (Cons x xs)
    show ?case
      using assms(2) [OF Cons.prems] Cons.IH [of "ds @ [x]"] by (auto elim!: wp_mono)
  qed
  from this [of "[]"] assms(1) show ?thesis by simp
qed

end
