(* ===== verification/TextLen.thy ===== *)
theory TextLen
  imports Effects
begin

text \<open>
  \<open>src/src/repr/last_byte.rs\<close> and the module \<open>internal\<close> of \<open>src/src/repr/heap_buffer.rs\<close>: the
  values the last byte of a \<open>Repr\<close> can take, the length word \<open>TextLen\<close> of a heap buffer (a
  little-endian length of \<open>USIZE_SIZE - 1\<close> bytes followed by a marker byte), and \<open>Capacity\<close>.
  The lemmas give the bytes a length word has in memory on every target, its round trip, and the
  bounds the two constants have in numbers.
\<close>

section \<open>LastByte\<close>

text \<open>The enum is \<^verbatim>\<open>repr(u8)\<close> with the discriminants \<open>0x00\<close> to \<open>0xD1\<close>; any other byte
  is no value of the type, which is the niche \<^verbatim>\<open>Option<LeanString>\<close> uses.\<close>

definition MASK_1100_0000 :: byte where
  "MASK_1100_0000 = 0xC0"

definition HeapMarker :: byte where
  "HeapMarker = 0xD0"

definition StaticMarker :: byte where
  "StaticMarker = 0xD1"

definition Length00 :: byte where
  "Length00 = 0xC0"

text \<open>The groups of the enum: the last byte of a text that fills the inline buffer, a character of one
  byte or the end of a longer one, and the lengths, which cannot end a text.\<close>

definition is_single_byte_char :: "byte \<Rightarrow> bool" where
  "is_single_byte_char b \<longleftrightarrow> unat b \<le> 0x7F"

definition is_trailing_byte :: "byte \<Rightarrow> bool" where
  "is_trailing_byte b \<longleftrightarrow> 0x80 \<le> unat b \<and> unat b \<le> 0xBF"

definition is_length_byte :: "byte \<Rightarrow> bool" where
  "is_length_byte b \<longleftrightarrow> unat Length00 \<le> unat b \<and> unat b \<le> unat Length00 + 15"

definition is_LastByte :: "byte \<Rightarrow> bool" where
  "is_LastByte b \<longleftrightarrow>
    is_single_byte_char b \<or> is_trailing_byte b \<or> is_length_byte b \<or> b = HeapMarker \<or> b = StaticMarker"

lemma marker_values [simp]:
  "unat HeapMarker = 0xD0" "unat StaticMarker = 0xD1" "unat MASK_1100_0000 = 0xC0"
  "unat Length00 = 0xC0"
  by (simp_all add: HeapMarker_def StaticMarker_def MASK_1100_0000_def Length00_def)

lemma is_LastByte_markers [simp]: "is_LastByte HeapMarker" "is_LastByte StaticMarker"
  by (simp_all add: is_LastByte_def)

text \<open>The bytes above the last discriminant are the niche.\<close>

lemma is_LastByte_iff: "is_LastByte b \<longleftrightarrow> unat b \<le> 0xD1"
  by (auto simp: is_LastByte_def is_single_byte_char_def is_trailing_byte_def is_length_byte_def word_unat_eq_iff)

text \<open>The inline length \<open>n\<close> is stored as \<open>n | 0b1100_0000\<close>.\<close>

definition inline_tag :: "nat \<Rightarrow> byte" where
  "inline_tag n = byte_of n OR MASK_1100_0000"

lemma inline_tag_table:
  "\<forall>n \<in> set [0..<16]. unat (inline_tag n) = 0xC0 + n"
  by (simp add: inline_tag_def MASK_1100_0000_def byte_of_def upt_rec)

lemma unat_inline_tag: "n < 16 \<Longrightarrow> unat (inline_tag n) = 0xC0 + n"
  using inline_tag_table by simp

text \<open>\<^verbatim>\<open>MAX_INLINE_SIZE\<close> of \<open>src/src/repr.rs\<close>: the two words of a \<open>Repr\<close>.\<close>

definition MAX_INLINE_SIZE :: "target \<Rightarrow> nat" where
  "MAX_INLINE_SIZE t = 2 * USIZE_SIZE t"

lemma MAX_INLINE_SIZE_cases:
  "pointer_width t = P64 \<Longrightarrow> MAX_INLINE_SIZE t = 16" "pointer_width t = P32 \<Longrightarrow> MAX_INLINE_SIZE t = 8"
  by (simp_all add: MAX_INLINE_SIZE_def target_numbers_32 target_numbers_64)

lemma MAX_INLINE_SIZE_le: "MAX_INLINE_SIZE t \<le> 16"
  by (cases "pointer_width t") (simp_all add: MAX_INLINE_SIZE_cases)

section \<open>Length words with a marker in the last byte\<close>

text \<open>The number of bytes that hold the length itself.\<close>

definition len_bytes :: "target \<Rightarrow> nat" where
  "len_bytes t = USIZE_SIZE t - 1"

lemma USIZE_SIZE_len_bytes: "USIZE_SIZE t = Suc (len_bytes t)"
  using USIZE_SIZE_pos [of t] by (simp add: len_bytes_def)

lemma len_bytes_numeral:
  "pointer_width t = P64 \<Longrightarrow> len_bytes t = 7" "pointer_width t = P32 \<Longrightarrow> len_bytes t = 3"
  by (simp_all add: len_bytes_def target_numbers_32 target_numbers_64)

definition marker_word :: "target \<Rightarrow> byte \<Rightarrow> nat" where
  "marker_word t m = from_ne_bytes t ((replicate (USIZE_SIZE t) 0)[USIZE_SIZE t - 1 := m])"

lemma replicate_update_last:
  "(replicate (USIZE_SIZE t) x)[USIZE_SIZE t - 1 := y] = replicate (len_bytes t) x @ [y]"
  by (simp add: USIZE_SIZE_len_bytes replicate_append_same [symmetric] list_update_append)

lemma to_ne_bytes_marker: "to_ne_bytes t (marker_word t m) = replicate (len_bytes t) 0 @ [m]"
  by (simp only: marker_word_def replicate_update_last)
    (rule to_from_ne_bytes, simp add: USIZE_SIZE_len_bytes)

lemma marker_word_less: "marker_word t m < 2 ^ USIZE_BITS t"
  by (simp add: marker_word_def from_ne_bytes_less)

lemma le_bytes_split: "le_bytes (m + n) x = le_bytes m x @ le_bytes n (x div 256 ^ m)"
  by (induction m arbitrary: x) (simp_all add: div_mult2_eq)

lemma le_bytes_short:
  assumes "n < 256 ^ len_bytes t"
  shows "le_bytes (USIZE_SIZE t) n = le_bytes (len_bytes t) n @ [0]"
proof -
  have "le_bytes (len_bytes t + 1) n = le_bytes (len_bytes t) n @ le_bytes 1 0"
    using assms by (subst le_bytes_split) simp
  then show ?thesis by (simp add: byte_of_def USIZE_SIZE_len_bytes)
qed

lemma map2_or_zeros: "length xs = n \<Longrightarrow> map2 (OR) xs (replicate n 0) = (xs :: byte list)"
  by (induction xs arbitrary: n) auto

lemma map2_xor_zeros: "length xs = n \<Longrightarrow> map2 (XOR) xs (replicate n 0) = (xs :: byte list)"
  by (induction xs arbitrary: n) auto

text \<open>The bytes in memory of a tagged length, and reading the length back.\<close>

lemma tagged_bytes:
  assumes "n < 256 ^ len_bytes t"
  shows "to_ne_bytes t (to_le t n OR marker_word t m) = le_bytes (len_bytes t) n @ [m]"
  using assms
  by (simp add: to_ne_bytes_or to_ne_bytes_to_le to_ne_bytes_marker le_bytes_short map2_or_zeros)

lemma untagged_length:
  assumes "n < 256 ^ len_bytes t"
  shows "of_le_bytes (to_ne_bytes t ((to_le t n OR marker_word t m) XOR marker_word t m)) = n"
proof -
  have "to_ne_bytes t ((to_le t n OR marker_word t m) XOR marker_word t m) =
      le_bytes (len_bytes t) n @ [0]"
    using assms by (simp add: to_ne_bytes_xor tagged_bytes to_ne_bytes_marker map2_xor_zeros)
  with assms show ?thesis by (simp add: of_le_bytes_append of_le_bytes_le_bytes)
qed

lemma nat_or_less: "(a :: nat) < 2 ^ k \<Longrightarrow> b < 2 ^ k \<Longrightarrow> a OR b < 2 ^ k"
  by (simp flip: take_bit_nat_eq_self_iff)

lemma to_le_less:
  assumes "n < 2 ^ USIZE_BITS t"
  shows "to_le t n < 2 ^ USIZE_BITS t"
  using assms of_le_bytes_less [of "rev (le_bytes (USIZE_SIZE t) n)"]
  by (simp add: to_le_def swap_bytes_def power_USIZE_BITS split: endian.split)

lemma short_less_usize: "(n :: nat) < 256 ^ len_bytes t \<Longrightarrow> n < 2 ^ USIZE_BITS t"
  by (simp add: power_USIZE_BITS USIZE_SIZE_len_bytes)

lemma tagged_less:
  "n < 256 ^ len_bytes t \<Longrightarrow> to_le t n OR marker_word t m < 2 ^ USIZE_BITS t"
  by (simp add: nat_or_less to_le_less short_less_usize marker_word_less)

section \<open>TextLen and Capacity\<close>

definition MAX_LEN :: "target \<Rightarrow> nat" where
  "MAX_LEN t = of_le_bytes ((replicate (USIZE_SIZE t) 255)[USIZE_SIZE t - 1 := 0])
     - (if pointer_width t = P32 then 1 else 0)"

definition TextLen_TAG :: "target \<Rightarrow> nat" where
  "TextLen_TAG t = marker_word t HeapMarker"

definition ON_THE_HEAP :: "target \<Rightarrow> nat" where
  "ON_THE_HEAP t = from_ne_bytes t ((replicate (USIZE_SIZE t) 255)[USIZE_SIZE t - 1 := HeapMarker])"

definition TextLen_new :: "target \<Rightarrow> nat \<Rightarrow> reserve_error + nat" where
  "TextLen_new t n =
    (if MAX_LEN t < n
     then (case pointer_width t of P64 \<Rightarrow> Inl ReserveError | P32 \<Rightarrow> Inr (ON_THE_HEAP t))
     else Inr (to_le t n OR TextLen_TAG t))"

definition TextLen_is_heap :: "target \<Rightarrow> nat \<Rightarrow> bool" where
  "TextLen_is_heap t len = (case pointer_width t of P64 \<Rightarrow> False | P32 \<Rightarrow> len = ON_THE_HEAP t)"

definition TextLen_as_usize :: "target \<Rightarrow> nat \<Rightarrow> nat" where
  "TextLen_as_usize t len = of_le_bytes (to_ne_bytes t (len XOR TextLen_TAG t))"

definition Capacity_MAX :: "target \<Rightarrow> nat" where
  "Capacity_MAX t = (case pointer_width t of P64 \<Rightarrow> MAX_LEN t | P32 \<Rightarrow> ISIZE_MAX t)"

definition is_len_heap_layout :: "target \<Rightarrow> nat \<Rightarrow> bool" where
  "is_len_heap_layout t capacity =
    (case pointer_width t of P64 \<Rightarrow> False | P32 \<Rightarrow> MAX_LEN t < capacity)"

definition Capacity_new_unchecked :: "target \<Rightarrow> nat \<Rightarrow> ('s, nat) prog" where
  "Capacity_new_unchecked t capacity =
    bind (debug_assert t (capacity \<le> Capacity_MAX t)) (\<lambda>_.
    bind (assert_unchecked (capacity \<le> Capacity_MAX t)) (\<lambda>_.
    ret capacity))"

definition Capacity_new :: "target \<Rightarrow> nat \<Rightarrow> ('s, nat) prog" where
  "Capacity_new t capacity =
    (if Capacity_MAX t < capacity then fail else Capacity_new_unchecked t capacity)"

lemma of_le_bytes_replicate_255: "of_le_bytes (replicate n 255) = 256 ^ n - 1"
proof -
  have u: "unat (255 :: byte) = 255" by simp
  have "of_le_bytes (replicate n 255) + 1 = 256 ^ n"
  proof (induction n)
    case 0
    then show ?case by simp
  next
    case (Suc n)
    then have "256 * of_le_bytes (replicate n 255) + 256 = 256 * 256 ^ n" by linarith
    then show ?case by (simp only: replicate_Suc of_le_bytes.simps u power_Suc)
  qed
  then show ?thesis by simp
qed

lemma MAX_LEN_power: "MAX_LEN t = 256 ^ len_bytes t - 1 - (if pointer_width t = P32 then 1 else 0)"
  by (simp only: MAX_LEN_def replicate_update_last)
    (simp add: of_le_bytes_append of_le_bytes_replicate_255)

lemma MAX_LEN_64: "pointer_width t = P64 \<Longrightarrow> MAX_LEN t = 2 ^ 56 - 1"
  by (simp add: MAX_LEN_power len_bytes_numeral)

lemma MAX_LEN_32: "pointer_width t = P32 \<Longrightarrow> MAX_LEN t = 2 ^ 24 - 2"
  by (simp add: MAX_LEN_power len_bytes_numeral)

lemma MAX_LEN_numeral:
  "pointer_width t = P64 \<Longrightarrow> MAX_LEN t = 72057594037927935"
  "pointer_width t = P32 \<Longrightarrow> MAX_LEN t = 16777214"
  by (simp_all add: MAX_LEN_64 MAX_LEN_32)

lemma Capacity_MAX_numeral:
  "pointer_width t = P64 \<Longrightarrow> Capacity_MAX t = 72057594037927935"
  "pointer_width t = P32 \<Longrightarrow> Capacity_MAX t = 2147483647"
  by (simp_all add: Capacity_MAX_def MAX_LEN_numeral target_numbers_32)

lemma MAX_LEN_short: "n \<le> MAX_LEN t \<Longrightarrow> n < 256 ^ len_bytes t"
  by (cases "pointer_width t") (auto simp: MAX_LEN_numeral len_bytes_numeral)

lemma Capacity_MAX_ISIZE_MAX: "Capacity_MAX t \<le> ISIZE_MAX t"
  by (cases "pointer_width t") (auto simp: Capacity_MAX_numeral target_numbers_32 target_numbers_64)

lemma MAX_LEN_Capacity_MAX: "MAX_LEN t \<le> Capacity_MAX t"
  by (cases "pointer_width t") (auto simp: Capacity_MAX_numeral MAX_LEN_numeral)

lemma TextLen_bytes:
  "n \<le> MAX_LEN t \<Longrightarrow>
    to_ne_bytes t (to_le t n OR TextLen_TAG t) = le_bytes (len_bytes t) n @ [HeapMarker]"
  by (simp add: TextLen_TAG_def tagged_bytes MAX_LEN_short)

lemma ON_THE_HEAP_bytes:
  "to_ne_bytes t (ON_THE_HEAP t) = replicate (len_bytes t) 255 @ [HeapMarker]"
  by (simp only: ON_THE_HEAP_def replicate_update_last)
    (rule to_from_ne_bytes, simp add: USIZE_SIZE_len_bytes)

lemma TextLen_as_usize_new:
  "n \<le> MAX_LEN t \<Longrightarrow> TextLen_as_usize t (to_le t n OR TextLen_TAG t) = n"
  by (simp add: TextLen_as_usize_def TextLen_TAG_def untagged_length MAX_LEN_short)

lemma TextLen_inline_not_heap:
  assumes "n \<le> MAX_LEN t"
  shows "\<not> TextLen_is_heap t (to_le t n OR TextLen_TAG t)"
proof (cases "pointer_width t")
  case P32
  show ?thesis
  proof
    assume "TextLen_is_heap t (to_le t n OR TextLen_TAG t)"
    with P32 have "to_ne_bytes t (to_le t n OR TextLen_TAG t) = to_ne_bytes t (ON_THE_HEAP t)"
      by (simp add: TextLen_is_heap_def)
    then have "le_bytes (len_bytes t) n = replicate (len_bytes t) 255"
      using assms by (simp add: TextLen_bytes ON_THE_HEAP_bytes)
    from arg_cong [OF this, of of_le_bytes]
    have "n mod 256 ^ len_bytes t = 256 ^ len_bytes t - 1"
      by (simp add: of_le_bytes_le_bytes of_le_bytes_replicate_255)
    with assms P32 show False by (simp add: MAX_LEN_numeral len_bytes_numeral)
  qed
qed (simp add: TextLen_is_heap_def)

text \<open>A length is kept in the word itself up to \<open>MAX_LEN\<close>. Above it a 64-bit target refuses and a
  32-bit target moves the length to the heap.\<close>

definition text_len :: "target \<Rightarrow> nat \<Rightarrow> nat" where
  "text_len t n = (if n \<le> MAX_LEN t then to_le t n OR TextLen_TAG t else ON_THE_HEAP t)"

lemma TextLen_new_ok:
  "n \<le> Capacity_MAX t \<Longrightarrow> TextLen_new t n = Inr (text_len t n)"
  by (cases "pointer_width t")
    (auto simp: TextLen_new_def text_len_def Capacity_MAX_numeral MAX_LEN_numeral)

lemma TextLen_new_fails: "TextLen_new t n = Inl e \<Longrightarrow> Capacity_MAX t < n"
  by (cases "pointer_width t")
    (auto simp: TextLen_new_def Capacity_MAX_numeral MAX_LEN_numeral split: if_splits)

lemma TextLen_is_heap_text_len:
  "n \<le> Capacity_MAX t \<Longrightarrow> TextLen_is_heap t (text_len t n) \<longleftrightarrow> MAX_LEN t < n"
  by (cases "pointer_width t")
    (auto simp: text_len_def TextLen_inline_not_heap Capacity_MAX_numeral MAX_LEN_numeral,
     auto simp: TextLen_is_heap_def)

lemma TextLen_as_usize_text_len: "n \<le> MAX_LEN t \<Longrightarrow> TextLen_as_usize t (text_len t n) = n"
  by (simp add: text_len_def TextLen_as_usize_new)

lemma is_len_heap_layout_iff:
  "n \<le> Capacity_MAX t \<Longrightarrow> is_len_heap_layout t n \<longleftrightarrow> MAX_LEN t < n"
  by (cases "pointer_width t") (auto simp: is_len_heap_layout_def Capacity_MAX_numeral MAX_LEN_numeral)

lemma text_len_last_byte: "last (to_ne_bytes t (text_len t n)) = HeapMarker"
  by (simp add: text_len_def TextLen_bytes ON_THE_HEAP_bytes)

lemma text_len_less: "text_len t n < 2 ^ USIZE_BITS t"
  by (auto simp: text_len_def TextLen_TAG_def ON_THE_HEAP_def from_ne_bytes_less
      intro: tagged_less MAX_LEN_short)

lemma wp_Capacity_new_unchecked [simp]:
  "n \<le> Capacity_MAX t \<Longrightarrow> wp (Capacity_new_unchecked t n) Q E P s = Q n s"
  by (simp add: Capacity_new_unchecked_def)

lemma wp_Capacity_new [simp]:
  "wp (Capacity_new t n) Q E P s = (if Capacity_MAX t < n then E s else Q n s)"
  by (simp add: Capacity_new_def)

end
