(* ===== verification/Utf8.thy ===== *)
theory Utf8
  imports Prelude
begin

text \<open>
  Rust's \<^verbatim>\<open>char\<close> and \<^verbatim>\<open>str\<close> as the crate uses them: a \<open>char\<close> is a
  Unicode scalar value, a \<open>str\<close> a byte list that is the UTF-8 encoding of a list of scalar
  values. The encoder, the decoder of the first and of the last character, the boundary test,
  and the facts that every operation of the crate needs: concatenation, splitting at a boundary,
  and the last byte of a non-empty string never being \<open>11xxxxxx\<close>.
\<close>

section \<open>Scalar values and their encoding\<close>

type_synonym uchar = nat

definition scalar :: "uchar \<Rightarrow> bool" where
  "scalar c \<longleftrightarrow> c < 0xD800 \<or> (0xE000 \<le> c \<and> c < 0x110000)"

definition len_utf8 :: "uchar \<Rightarrow> nat" where
  "len_utf8 c = (if c < 0x80 then 1 else if c < 0x800 then 2 else if c < 0x10000 then 3 else 4)"

definition encode_utf8 :: "uchar \<Rightarrow> byte list" where
  "encode_utf8 c =
    (if c < 0x80 then [byte_of c]
     else if c < 0x800 then [byte_of (0xC0 + c div 64), byte_of (0x80 + c mod 64)]
     else if c < 0x10000 then
       [byte_of (0xE0 + c div 4096), byte_of (0x80 + c div 64 mod 64),
        byte_of (0x80 + c mod 64)]
     else
       [byte_of (0xF0 + c div 262144), byte_of (0x80 + c div 4096 mod 64),
        byte_of (0x80 + c div 64 mod 64), byte_of (0x80 + c mod 64)])"

text \<open>A continuation byte is \<open>10xxxxxx\<close>.\<close>

definition is_cont :: "byte \<Rightarrow> bool" where
  "is_cont b \<longleftrightarrow> 0x80 \<le> unat b \<and> unat b < 0xC0"

definition cont_bits :: "byte \<Rightarrow> nat" where
  "cont_bits b = unat b - 0x80"

text \<open>\<open>decode_char bs\<close> reads the first character of \<open>bs\<close> and the number of bytes it takes; it
  refuses overlong forms, surrogates and values above \<open>0x10FFFF\<close>.\<close>

fun decode_char :: "byte list \<Rightarrow> (uchar \<times> nat) option" where
  "decode_char [] = None"
| "decode_char (b # bs) =
    (let x = unat b in
     if x < 0x80 then Some (x, 1)
     else if x < 0xC0 then None
     else if x < 0xE0 then
       (case bs of b1 # _ \<Rightarrow>
          let c = (x - 0xC0) * 64 + cont_bits b1 in
          if is_cont b1 \<and> 0x80 \<le> c then Some (c, 2) else None
        | _ \<Rightarrow> None)
     else if x < 0xF0 then
       (case bs of b1 # b2 # _ \<Rightarrow>
          let c = (x - 0xE0) * 4096 + cont_bits b1 * 64 + cont_bits b2 in
          if is_cont b1 \<and> is_cont b2 \<and> 0x800 \<le> c \<and> scalar c then Some (c, 3) else None
        | _ \<Rightarrow> None)
     else
       (case bs of b1 # b2 # b3 # _ \<Rightarrow>
          let c = (x - 0xF0) * 262144 + cont_bits b1 * 4096 + cont_bits b2 * 64 + cont_bits b3 in
          if is_cont b1 \<and> is_cont b2 \<and> is_cont b3 \<and> 0x10000 \<le> c \<and> scalar c
          then Some (c, 4) else None
        | _ \<Rightarrow> None))"

lemma scalar_less: "scalar c \<Longrightarrow> c < 0x110000"
  by (auto simp: scalar_def)

lemma length_encode_utf8 [simp]: "length (encode_utf8 c) = len_utf8 c"
  by (simp add: encode_utf8_def len_utf8_def)

lemma len_utf8_pos [simp]: "0 < len_utf8 c"
  by (simp add: len_utf8_def)

lemma len_utf8_le_4 [simp]: "len_utf8 c \<le> 4"
  by (simp add: len_utf8_def)

lemma encode_utf8_neq_Nil [simp]: "encode_utf8 c \<noteq> []"
  by (simp add: encode_utf8_def)

lemma decode_char_2:
  "0xC0 \<le> unat b \<Longrightarrow> unat b < 0xE0 \<Longrightarrow> is_cont b1 \<Longrightarrow>
    c = (unat b - 0xC0) * 64 + cont_bits b1 \<Longrightarrow> 0x80 \<le> c \<Longrightarrow>
    decode_char (b # b1 # r) = Some (c, 2)"
  by (simp add: Let_def)

lemma decode_char_3:
  "0xE0 \<le> unat b \<Longrightarrow> unat b < 0xF0 \<Longrightarrow> is_cont b1 \<Longrightarrow> is_cont b2 \<Longrightarrow>
    c = (unat b - 0xE0) * 4096 + cont_bits b1 * 64 + cont_bits b2 \<Longrightarrow>
    0x800 \<le> c \<Longrightarrow> scalar c \<Longrightarrow> decode_char (b # b1 # b2 # r) = Some (c, 3)"
  by (simp add: Let_def)

lemma decode_char_4:
  "0xF0 \<le> unat b \<Longrightarrow> is_cont b1 \<Longrightarrow> is_cont b2 \<Longrightarrow> is_cont b3 \<Longrightarrow>
    c = (unat b - 0xF0) * 262144 + cont_bits b1 * 4096 + cont_bits b2 * 64 + cont_bits b3 \<Longrightarrow>
    0x10000 \<le> c \<Longrightarrow> scalar c \<Longrightarrow> decode_char (b # b1 # b2 # b3 # r) = Some (c, 4)"
  by (simp add: Let_def)

lemma cont_byte [simp]:
  "is_cont (byte_of (0x80 + x mod 64))" "cont_bits (byte_of (0x80 + x mod 64)) = x mod 64"
proof -
  have "x mod 64 < 64" by simp
  then show "is_cont (byte_of (0x80 + x mod 64))" "cont_bits (byte_of (0x80 + x mod 64)) = x mod 64"
    by (simp_all add: is_cont_def cont_bits_def unat_byte_of)
qed

lemma split_64:
  fixes c :: nat
  shows "c = c div 64 * 64 + c mod 64"
    and "c = c div 4096 * 4096 + c div 64 mod 64 * 64 + c mod 64"
    and "c = c div 262144 * 262144 + c div 4096 mod 64 * 4096 + c div 64 mod 64 * 64 + c mod 64"
proof -
  have 1: "c = c div 64 * 64 + c mod 64" by simp
  have "c div 64 = c div 64 div 64 * 64 + c div 64 mod 64" by simp
  moreover have q1: "c div 64 div 64 = c div 4096" by (simp add: div_mult2_eq [symmetric])
  ultimately have "c div 64 * 64 = c div 4096 * 4096 + c div 64 mod 64 * 64" by linarith
  with 1 show 2: "c = c div 4096 * 4096 + c div 64 mod 64 * 64 + c mod 64" by linarith
  have "c div 4096 = c div 4096 div 64 * 64 + c div 4096 mod 64" by simp
  moreover have "c div 4096 div 64 = c div 262144" by (simp add: div_mult2_eq [symmetric])
  ultimately have "c div 4096 * 4096 = c div 262144 * 262144 + c div 4096 mod 64 * 4096" by linarith
  with 2 show "c = c div 262144 * 262144 + c div 4096 mod 64 * 4096 + c div 64 mod 64 * 64 + c mod 64"
    by linarith
  show "c = c div 64 * 64 + c mod 64" by (rule 1)
qed

lemma join_64:
  fixes r :: nat
  assumes "r < 64"
  shows "(a * 64 + r) div 64 = a" "(a * 64 + r) mod 64 = r"
  using assms by simp_all

lemma decode_encode_1: "c < 0x80 \<Longrightarrow> decode_char (encode_utf8 c @ rest) = Some (c, len_utf8 c)"
  by (simp add: encode_utf8_def len_utf8_def unat_byte_of)

lemma decode_encode_2:
  assumes "0x80 \<le> c" "c < 0x800"
  shows "decode_char (encode_utf8 c @ rest) = Some (c, len_utf8 c)"
proof -
  have "c div 64 < 32" using assms by auto
  then have "decode_char (byte_of (0xC0 + c div 64) # byte_of (0x80 + c mod 64) # rest) = Some (c, 2)"
    using assms split_64(1) [of c] by (intro decode_char_2) (simp_all add: unat_byte_of)
  then show ?thesis using assms by (simp add: encode_utf8_def len_utf8_def)
qed

lemma decode_encode_3:
  assumes "0x800 \<le> c" "c < 0x10000" "scalar c"
  shows "decode_char (encode_utf8 c @ rest) = Some (c, len_utf8 c)"
proof -
  have "c div 4096 < 16" using assms by auto
  then have "decode_char (byte_of (0xE0 + c div 4096) # byte_of (0x80 + c div 64 mod 64) #
      byte_of (0x80 + c mod 64) # rest) = Some (c, 3)"
    using assms split_64(2) [of c] by (intro decode_char_3) (simp_all add: unat_byte_of)
  then show ?thesis using assms by (simp add: encode_utf8_def len_utf8_def)
qed

lemma decode_encode_4:
  assumes "0x10000 \<le> c" "scalar c"
  shows "decode_char (encode_utf8 c @ rest) = Some (c, len_utf8 c)"
proof -
  have "c div 262144 < 5" using assms scalar_less [of c] by auto
  then have "decode_char (byte_of (0xF0 + c div 262144) # byte_of (0x80 + c div 4096 mod 64) #
      byte_of (0x80 + c div 64 mod 64) # byte_of (0x80 + c mod 64) # rest) = Some (c, 4)"
    using assms split_64(3) [of c] by (intro decode_char_4) (simp_all add: unat_byte_of)
  then show ?thesis using assms by (simp add: encode_utf8_def len_utf8_def)
qed

lemma decode_char_encode [simp]:
  "scalar c \<Longrightarrow> decode_char (encode_utf8 c @ rest) = Some (c, len_utf8 c)"
  using decode_encode_1 decode_encode_2 decode_encode_3 decode_encode_4 by (meson not_less)

text \<open>Conversely the decoder accepts nothing but encodings of scalar values.\<close>

lemma decode_char_Some:
  assumes "decode_char bs = Some (c, n)"
  shows "scalar c" "n = len_utf8 c" "bs = encode_utf8 c @ drop n bs"
proof -
  obtain b bs' where bs: "bs = b # bs'" using assms by (cases bs) auto
  define x where "x = unat b"
  have x: "x < 256" by (simp add: x_def)
  consider "x < 0x80" | "0x80 \<le> x" "x < 0xC0" | "0xC0 \<le> x" "x < 0xE0" | "0xE0 \<le> x" "x < 0xF0" | "0xF0 \<le> x"
    by linarith
  then have "scalar c \<and> n = len_utf8 c \<and> bs = encode_utf8 c @ drop n bs"
  proof cases
    case 1
    then show ?thesis using assms bs
      by (auto simp: x_def scalar_def len_utf8_def encode_utf8_def)
  next
    case 2
    then show ?thesis using assms bs by (simp add: x_def)
  next
    case 3
    then obtain b1 r where r: "bs' = b1 # r" "is_cont b1" "c = (x - 0xC0) * 64 + cont_bits b1"
      "0x80 \<le> c" "n = 2"
      using assms bs by (auto simp: x_def Let_def split: list.splits if_splits)
    moreover have "cont_bits b1 < 64" "unat b1 = 0x80 + cont_bits b1"
      using r(2) by (auto simp: is_cont_def cont_bits_def)
    moreover have "c < 0x800" using r 3 \<open>cont_bits b1 < 64\<close> by linarith
    ultimately show ?thesis using 3 bs
      by (auto simp: scalar_def len_utf8_def encode_utf8_def x_def intro!: byte_of_eqI [symmetric])
  next
    case 4
    then obtain b1 b2 r where r: "bs' = b1 # b2 # r" "is_cont b1" "is_cont b2"
      "c = (x - 0xE0) * 4096 + cont_bits b1 * 64 + cont_bits b2" "0x800 \<le> c" "scalar c" "n = 3"
      using assms bs by (auto simp: x_def Let_def split: list.splits if_splits)
    moreover have cb: "cont_bits b1 < 64" "unat b1 = 0x80 + cont_bits b1"
      "cont_bits b2 < 64" "unat b2 = 0x80 + cont_bits b2"
      using r(2,3) by (auto simp: is_cont_def cont_bits_def)
    moreover have "c < 0x10000" using r 4 cb(1,3) by linarith
    moreover have "c div 64 = (x - 0xE0) * 64 + cont_bits b1" "c mod 64 = cont_bits b2"
      using join_64 [OF cb(3), of "(x - 0xE0) * 64 + cont_bits b1"] r(4) by (simp_all add: algebra_simps)
    moreover from this have "c div 4096 = x - 0xE0" "c div 64 mod 64 = cont_bits b1"
      using join_64 [OF cb(1), of "x - 0xE0"] div_mult2_eq [of c 64 64] by simp_all
    ultimately show ?thesis using 4 bs
      by (auto simp: len_utf8_def encode_utf8_def x_def intro!: byte_of_eqI [symmetric])
  next
    case 5
    then obtain b1 b2 b3 r where r: "bs' = b1 # b2 # b3 # r" "is_cont b1" "is_cont b2" "is_cont b3"
      "c = (x - 0xF0) * 262144 + cont_bits b1 * 4096 + cont_bits b2 * 64 + cont_bits b3"
      "0x10000 \<le> c" "scalar c" "n = 4"
      using assms bs by (auto simp: x_def Let_def split: list.splits if_splits)
    moreover have cb: "cont_bits b1 < 64" "unat b1 = 0x80 + cont_bits b1"
      "cont_bits b2 < 64" "unat b2 = 0x80 + cont_bits b2"
      "cont_bits b3 < 64" "unat b3 = 0x80 + cont_bits b3"
      using r(2-4) by (auto simp: is_cont_def cont_bits_def)
    moreover have c1: "c div 64 = ((x - 0xF0) * 64 + cont_bits b1) * 64 + cont_bits b2"
      "c mod 64 = cont_bits b3"
      using join_64 [OF cb(5), of "((x - 0xF0) * 64 + cont_bits b1) * 64 + cont_bits b2"] r(5)
      by (simp_all add: algebra_simps)
    moreover from c1 have c2: "c div 4096 = (x - 0xF0) * 64 + cont_bits b1"
      "c div 64 mod 64 = cont_bits b2"
      using join_64 [OF cb(3), of "(x - 0xF0) * 64 + cont_bits b1"] div_mult2_eq [of c 64 64]
      by simp_all
    moreover from c2 have "c div 262144 = x - 0xF0" "c div 4096 mod 64 = cont_bits b1"
      using join_64 [OF cb(1), of "x - 0xF0"] div_mult2_eq [of c 4096 64] by simp_all
    ultimately show ?thesis using 5 bs x
      by (auto simp: len_utf8_def encode_utf8_def x_def intro!: byte_of_eqI [symmetric])
  qed
  then show "scalar c" "n = len_utf8 c" "bs = encode_utf8 c @ drop n bs" by blast+
qed

lemma decode_char_len:
  assumes "decode_char bs = Some (c, n)"
  shows "0 < n" "n \<le> length bs"
proof -
  from decode_char_Some [OF assms] show "0 < n" by simp
  have "length bs = len_utf8 c + (length bs - n)"
    using arg_cong [OF decode_char_Some(3) [OF assms], of length] by simp
  with decode_char_Some(2) [OF assms] show "n \<le> length bs" by linarith
qed

section \<open>Strings\<close>

definition str_of :: "uchar list \<Rightarrow> byte list" where
  "str_of cs = concat (map encode_utf8 cs)"

lemma str_of_simps [simp]:
  "str_of [] = []" "str_of (c # cs) = encode_utf8 c @ str_of cs"
  "str_of (cs @ ds) = str_of cs @ str_of ds"
  by (simp_all add: str_of_def)

function utf8_decode :: "byte list \<Rightarrow> uchar list option" where
  "utf8_decode bs =
    (if bs = [] then Some []
     else case decode_char bs of
       None \<Rightarrow> None
     | Some (c, n) \<Rightarrow> map_option (Cons c) (utf8_decode (drop n bs)))"
  by pat_completeness auto
termination
  by (relation "measure length") (auto dest: decode_char_len)

declare utf8_decode.simps [simp del]

definition valid_utf8 :: "byte list \<Rightarrow> bool" where
  "valid_utf8 bs \<longleftrightarrow> utf8_decode bs \<noteq> None"

text \<open>\<^verbatim>\<open>str::chars\<close>, for a byte list that is valid UTF-8.\<close>

definition chars :: "byte list \<Rightarrow> uchar list" where
  "chars bs = (case utf8_decode bs of None \<Rightarrow> [] | Some cs \<Rightarrow> cs)"

lemma utf8_decode_Nil [simp]: "utf8_decode [] = Some []"
  by (simp add: utf8_decode.simps)

lemma utf8_decode_encode:
  "scalar c \<Longrightarrow> utf8_decode (encode_utf8 c @ bs) = map_option (Cons c) (utf8_decode bs)"
  by (subst utf8_decode.simps) simp

lemma utf8_decode_str_of: "(\<forall>c \<in> set cs. scalar c) \<Longrightarrow> utf8_decode (str_of cs) = Some cs"
  by (induction cs) (simp_all add: utf8_decode_encode)

lemma utf8_decode_SomeD:
  "utf8_decode bs = Some cs \<Longrightarrow> (\<forall>c \<in> set cs. scalar c) \<and> bs = str_of cs"
proof (induction bs arbitrary: cs rule: utf8_decode.induct)
  case (1 bs)
  show ?case
  proof (cases "bs = []")
    case True
    with "1.prems" show ?thesis by simp
  next
    case False
    with "1.prems" obtain c n ds where d: "decode_char bs = Some (c, n)"
      "utf8_decode (drop n bs) = Some ds" "cs = c # ds"
      by (subst (asm) utf8_decode.simps) (auto split: option.splits)
    with "1.IH" [OF False d(1) refl] have "\<forall>c \<in> set ds. scalar c" "drop n bs = str_of ds" by blast+
    then show ?thesis using decode_char_Some [OF d(1)] d(3) by auto
  qed
qed

lemma utf8_decode_iff:
  "utf8_decode bs = Some cs \<longleftrightarrow> (\<forall>c \<in> set cs. scalar c) \<and> bs = str_of cs"
  using utf8_decode_SomeD utf8_decode_str_of by blast

lemma valid_utf8_iff: "valid_utf8 bs \<longleftrightarrow> (\<exists>cs. (\<forall>c \<in> set cs. scalar c) \<and> bs = str_of cs)"
  by (auto simp: valid_utf8_def utf8_decode_iff)

lemma valid_utf8E:
  assumes "valid_utf8 bs"
  obtains cs where "\<forall>c \<in> set cs. scalar c" "bs = str_of cs" "chars bs = cs"
  using assms by (auto simp: valid_utf8_iff chars_def utf8_decode_str_of)

lemma chars_str_of [simp]: "(\<forall>c \<in> set cs. scalar c) \<Longrightarrow> chars (str_of cs) = cs"
  by (simp add: chars_def utf8_decode_str_of)

lemma str_of_chars [simp]: "valid_utf8 bs \<Longrightarrow> str_of (chars bs) = bs"
  by (elim valid_utf8E) simp

lemma chars_encode [simp]: "scalar c \<Longrightarrow> chars (encode_utf8 c) = [c]"
  using chars_str_of [of "[c]"] by simp

lemma chars_encode_append [simp]:
  "scalar c \<Longrightarrow> valid_utf8 ys \<Longrightarrow> chars (encode_utf8 c @ ys) = c # chars ys"
  by (auto simp: chars_def utf8_decode_encode valid_utf8_def)

lemma chars_scalar: "valid_utf8 bs \<Longrightarrow> c \<in> set (chars bs) \<Longrightarrow> scalar c"
  by (elim valid_utf8E) simp

lemma valid_utf8_Nil [simp, intro!]: "valid_utf8 []"
  by (simp add: valid_utf8_def)

lemma valid_utf8_encode [simp]: "scalar c \<Longrightarrow> valid_utf8 (encode_utf8 c)"
  by (auto simp: valid_utf8_iff intro!: exI [of _ "[c]"])

lemma valid_utf8_str_of [simp]: "(\<forall>c \<in> set cs. scalar c) \<Longrightarrow> valid_utf8 (str_of cs)"
  by (auto simp: valid_utf8_iff)

lemma valid_utf8_append [simp, intro]:
  "valid_utf8 xs \<Longrightarrow> valid_utf8 ys \<Longrightarrow> valid_utf8 (xs @ ys)"
  by (elim valid_utf8E) (simp flip: str_of_simps(3) add: ball_Un)

lemma utf8_decode_append:
  assumes "valid_utf8 xs"
  shows "utf8_decode (xs @ ys) = map_option (append (chars xs)) (utf8_decode ys)"
proof -
  obtain cs where cs: "\<forall>c \<in> set cs. scalar c" "xs = str_of cs" "chars xs = cs"
    using assms by (rule valid_utf8E)
  have "utf8_decode (str_of cs @ ys) = map_option (append (chars (str_of cs))) (utf8_decode ys)"
    using cs(1)
  proof (induction cs)
    case Nil
    then show ?case by (cases "utf8_decode ys") (simp_all add: chars_def)
  next
    case (Cons c cs)
    then show ?case by (cases "utf8_decode ys") (simp_all add: utf8_decode_encode)
  qed
  with cs show ?thesis by simp
qed

lemma valid_utf8_append_cancel: "valid_utf8 xs \<Longrightarrow> valid_utf8 (xs @ ys) \<longleftrightarrow> valid_utf8 ys"
  by (simp add: valid_utf8_def utf8_decode_append [unfolded valid_utf8_def])

lemma chars_append [simp]:
  "valid_utf8 xs \<Longrightarrow> valid_utf8 ys \<Longrightarrow> chars (xs @ ys) = chars xs @ chars ys"
  by (cases "utf8_decode ys") (simp_all add: chars_def utf8_decode_append valid_utf8_def)

section \<open>Character boundaries\<close>

text \<open>\<^verbatim>\<open>str::is_char_boundary\<close>: the two ends, or a byte that is no continuation
  byte.\<close>

definition is_char_boundary :: "byte list \<Rightarrow> nat \<Rightarrow> bool" where
  "is_char_boundary xs i \<longleftrightarrow> i = 0 \<or> i = length xs \<or> (i < length xs \<and> \<not> is_cont (xs ! i))"

lemma is_char_boundary_le: "is_char_boundary xs i \<Longrightarrow> i \<le> length xs"
  by (auto simp: is_char_boundary_def)

lemma encode_utf8_lead: "scalar c \<Longrightarrow> \<not> is_cont (encode_utf8 c ! 0)"
  using scalar_less [of c] by (auto simp: encode_utf8_def is_cont_def unat_byte_of)

lemma encode_utf8_tail:
  assumes "scalar c" "0 < i" "i < len_utf8 c"
  shows "is_cont (encode_utf8 c ! i)"
proof -
  have "i = 1 \<or> i = 2 \<or> i = 3" using assms by (auto simp: len_utf8_def split: if_splits)
  then show ?thesis using assms
    by (auto simp: encode_utf8_def is_cont_def unat_byte_of len_utf8_def split: if_splits)
qed

lemma valid_utf8_first: "valid_utf8 xs \<Longrightarrow> xs \<noteq> [] \<Longrightarrow> \<not> is_cont (xs ! 0)"
proof (elim valid_utf8E)
  fix cs
  assume "\<forall>c \<in> set cs. scalar c" "xs = str_of cs" "xs \<noteq> []"
  then show ?thesis by (cases cs) (auto simp: nth_append encode_utf8_lead)
qed

lemma boundary_of_split:
  "i \<le> length xs \<Longrightarrow> valid_utf8 (drop i xs) \<Longrightarrow> is_char_boundary xs i"
  using valid_utf8_first [of "drop i xs"] by (cases "i = length xs") (auto simp: is_char_boundary_def)

lemma boundary_split_str_of:
  "(\<forall>c \<in> set cs. scalar c) \<Longrightarrow> is_char_boundary (str_of cs) i \<Longrightarrow>
    \<exists>n \<le> length cs. i = length (str_of (take n cs))"
proof (induction cs arbitrary: i)
  case Nil
  then show ?case by (simp add: is_char_boundary_def)
next
  case (Cons c cs)
  show ?case
  proof (cases "i = 0")
    case True
    then show ?thesis by (intro exI [of _ 0]) simp
  next
    case False
    have c: "scalar c" using Cons.prems by simp
    have ge: "len_utf8 c \<le> i"
    proof (rule ccontr)
      assume "\<not> len_utf8 c \<le> i"
      then have "is_cont (str_of (c # cs) ! i)" "i < length (str_of (c # cs))"
        using encode_utf8_tail [OF c] False by (simp_all add: nth_append)
      with Cons.prems(2) False show False by (simp add: is_char_boundary_def)
    qed
    then have "is_char_boundary (str_of cs) (i - len_utf8 c)"
      using Cons.prems(2) False by (auto simp: is_char_boundary_def nth_append)
    with Cons obtain n where "n \<le> length cs" "i - len_utf8 c = length (str_of (take n cs))" by auto
    with ge show ?thesis by (intro exI [of _ "Suc n"]) simp
  qed
qed

lemma boundary_splitE:
  assumes "valid_utf8 xs" "is_char_boundary xs i"
  obtains cs ds where "\<forall>c \<in> set cs. scalar c" "\<forall>c \<in> set ds. scalar c"
    "take i xs = str_of cs" "drop i xs = str_of ds" "chars xs = cs @ ds"
proof -
  from assms(1) obtain as where as: "\<forall>c \<in> set as. scalar c" "xs = str_of as" "chars xs = as"
    by (rule valid_utf8E)
  with assms(2) obtain n where n: "i = length (str_of (take n as))"
    using boundary_split_str_of by blast
  have "xs = str_of (take n as) @ str_of (drop n as)"
    using as(2) by (simp flip: str_of_simps(3))
  with n have "take i xs = str_of (take n as)" "drop i xs = str_of (drop n as)" by simp_all
  with as show ?thesis
    by (intro that [of "take n as" "drop n as"]) (auto dest: in_set_takeD in_set_dropD)
qed

lemma valid_utf8_take: "valid_utf8 xs \<Longrightarrow> is_char_boundary xs i \<Longrightarrow> valid_utf8 (take i xs)"
  by (metis boundary_splitE valid_utf8_str_of)

lemma valid_utf8_drop: "valid_utf8 xs \<Longrightarrow> is_char_boundary xs i \<Longrightarrow> valid_utf8 (drop i xs)"
  by (metis boundary_splitE valid_utf8_str_of)

lemma is_char_boundary_iff:
  "valid_utf8 xs \<Longrightarrow>
    is_char_boundary xs i \<longleftrightarrow> i \<le> length xs \<and> valid_utf8 (take i xs) \<and> valid_utf8 (drop i xs)"
  by (metis valid_utf8_take valid_utf8_drop is_char_boundary_le boundary_of_split)

lemma is_char_boundary_ends [simp]: "is_char_boundary xs 0" "is_char_boundary xs (length xs)"
  by (simp_all add: is_char_boundary_def)

lemma valid_utf8_between:
  assumes "valid_utf8 xs" "is_char_boundary xs i" "is_char_boundary xs j" "i \<le> j"
  shows "valid_utf8 (take (j - i) (drop i xs))"
proof -
  have "valid_utf8 (take i (take j xs))" "valid_utf8 (take j xs)"
    using assms valid_utf8_take by (simp_all add: min_absorb1)
  moreover have "take j xs = take i (take j xs) @ take (j - i) (drop i xs)"
    using assms(4) by (metis append_take_drop_id drop_take)
  ultimately show ?thesis by (metis valid_utf8_append_cancel)
qed

section \<open>The last character\<close>

text \<open>\<^verbatim>\<open>chars().next_back()\<close> scans back over the continuation bytes.\<close>

definition last_start :: "byte list \<Rightarrow> nat" where
  "last_start xs = length xs - Suc (length (takeWhile is_cont (rev xs)))"

definition next_back :: "byte list \<Rightarrow> uchar option" where
  "next_back xs = (if xs = [] then None else map_option fst (decode_char (drop (last_start xs) xs)))"

lemma takeWhile_rev_encode:
  assumes "scalar c"
  shows "length (takeWhile is_cont (rev (xs @ encode_utf8 c))) = len_utf8 c - 1"
proof -
  obtain b bs where e: "encode_utf8 c = b # bs" by (cases "encode_utf8 c") auto
  have "\<not> is_cont b" using encode_utf8_lead [OF assms] e by simp
  moreover have "\<forall>x \<in> set bs. is_cont x"
  proof
    fix x assume "x \<in> set bs"
    then obtain i where "i < length bs" "x = bs ! i" by (auto simp: in_set_conv_nth)
    then show "is_cont x"
      using encode_utf8_tail [OF assms, of "Suc i"] length_encode_utf8 [of c] e by simp
  qed
  moreover have "length bs = len_utf8 c - 1" using length_encode_utf8 [of c] e by simp
  moreover have "takeWhile is_cont (rev bs @ b # rev xs) = rev bs"
    using calculation(1,2) takeWhile_append2 [of "rev bs" is_cont "b # rev xs"] by simp
  ultimately show ?thesis using e by simp
qed

lemma last_start_encode: "scalar c \<Longrightarrow> last_start (xs @ encode_utf8 c) = length xs"
  using len_utf8_pos [of c] by (simp only: last_start_def takeWhile_rev_encode) simp

lemma next_back_Nil [simp]: "next_back [] = None"
  by (simp add: next_back_def)

lemma next_back_encode: "scalar c \<Longrightarrow> next_back (xs @ encode_utf8 c) = Some c"
  using decode_char_encode [of c "[]"] by (simp add: next_back_def last_start_encode)

lemma valid_utf8_lastE:
  assumes "valid_utf8 xs" "xs \<noteq> []"
  obtains ys c where "valid_utf8 ys" "scalar c" "xs = ys @ encode_utf8 c" "next_back xs = Some c"
    "chars xs = chars ys @ [c]"
proof -
  from assms(1) obtain cs where "\<forall>c \<in> set cs. scalar c" "xs = str_of cs" by (rule valid_utf8E)
  with assms(2) have cs: "\<forall>c \<in> set cs. scalar c" "xs = str_of cs" "cs \<noteq> []" by auto
  then obtain ds c where "cs = ds @ [c]" by (cases cs rule: rev_cases) auto
  with cs show ?thesis
    by (intro that [of "str_of ds" c]) (simp_all add: next_back_encode)
qed

text \<open>The last byte of a non-empty string is no lead byte of a longer sequence. This is what
  lets a full inline buffer keep its text in the byte that otherwise holds the length.\<close>

lemma encode_utf8_last: "scalar c \<Longrightarrow> unat (last (encode_utf8 c)) < 0xC0"
  by (auto simp: encode_utf8_def unat_byte_of)

lemma valid_utf8_last:
  assumes "valid_utf8 xs" "xs \<noteq> []"
  shows "unat (last xs) < 0xC0"
proof -
  obtain ys c where "scalar c" "xs = ys @ encode_utf8 c" using assms by (rule valid_utf8_lastE)
  then show ?thesis by (simp add: encode_utf8_last)
qed

text \<open>ASCII strings.\<close>

lemma encode_utf8_ascii: "unat b < 0x80 \<Longrightarrow> encode_utf8 (unat b) = [b]"
  by (simp add: encode_utf8_def)

lemma scalar_ascii: "c < 0x80 \<Longrightarrow> scalar c"
  by (simp add: scalar_def)

lemma valid_utf8_ascii:
  assumes "\<forall>b \<in> set xs. unat b < 0x80"
  shows "valid_utf8 xs"
proof -
  have "xs = str_of (map unat xs)" using assms by (induction xs) (simp_all add: encode_utf8_ascii)
  moreover have "\<forall>c \<in> set (map unat xs). scalar c" using assms by (auto intro: scalar_ascii)
  ultimately show ?thesis by (metis valid_utf8_str_of)
qed

end
