(* ===== verification/Memory.thy ===== *)
theory Memory
  imports Effects
begin

text \<open>
  The memory the crate's unsafe code works on: the blocks of the global allocator, each a list
  of bytes that may be uninitialised, and read-only static memory. A pointer names a block and
  an offset. Everything the language leaves undefined about these operations is \<open>Undef\<close>: an
  access outside its block or to a freed block, a read of an uninitialised byte as an integer, a
  misaligned word, overlapping \<^verbatim>\<open>copy_nonoverlapping\<close>, and a deallocation or
  reallocation whose pointer or layout is not the one of the allocation. The allocator may fail:
  \<open>oom\<close> says which of its calls do. A reallocation always moves the block, so a pointer kept
  across one dangles.
\<close>

section \<open>State\<close>

datatype pointer =
    HeapPtr nat nat
  | StaticPtr "byte list"

record layout =
  layout_size :: nat
  layout_align :: nat

record block =
  contents :: "byte option list"
  alignment :: nat

text \<open>\<open>self\<close> is the variable behind the \<^verbatim>\<open>&mut self\<close> of the method that runs.\<close>

record 'r st =
  blocks :: "nat \<Rightarrow> block option"
  next_id :: nat
  oom :: "nat \<Rightarrow> bool"
  calls :: nat
  self :: 'r

text \<open>\<^verbatim>\<open>Layout::from_size_align\<close>: a power of two, and a size that does not exceed
  \<^verbatim>\<open>isize::MAX\<close> when rounded up to it.\<close>

definition is_power_of_two :: "nat \<Rightarrow> bool" where
  "is_power_of_two a \<longleftrightarrow> a \<in> set (map (\<lambda>k. 2 ^ k) [0..<64])"

definition Layout_from_size_align :: "target \<Rightarrow> nat \<Rightarrow> nat \<Rightarrow> reserve_error + layout" where
  "Layout_from_size_align t sz al =
    (if is_power_of_two al \<and> sz \<le> ISIZE_MAX t + 1 - al
     then Inr \<lparr>layout_size = sz, layout_align = al\<rparr> else Inl ReserveError)"

section \<open>The global allocator\<close>

definition alloc :: "layout \<Rightarrow> ('r st, pointer option) prog" where
  "alloc l = (\<lambda>s.
    if layout_size l = 0 then Undef
    else if oom s (calls s) then Ret None (s\<lparr>calls := Suc (calls s)\<rparr>)
    else Ret (Some (HeapPtr (next_id s) 0))
      (s\<lparr>blocks := (blocks s)(next_id s \<mapsto>
           \<lparr>contents = replicate (layout_size l) None, alignment = layout_align l\<rparr>),
         next_id := Suc (next_id s), calls := Suc (calls s)\<rparr>))"

text \<open>The allocation a pointer stands for, with the layout the caller claims for it.\<close>

definition owned_block :: "pointer \<Rightarrow> layout \<Rightarrow> 'r st \<Rightarrow> (nat \<times> block) option" where
  "owned_block p l s = (case p of
     HeapPtr b off \<Rightarrow> (case blocks s b of
       None \<Rightarrow> None
     | Some blk \<Rightarrow>
         if off = 0 \<and> length (contents blk) = layout_size l \<and> alignment blk = layout_align l
         then Some (b, blk) else None)
   | StaticPtr _ \<Rightarrow> None)"

definition dealloc :: "pointer \<Rightarrow> layout \<Rightarrow> ('r st, unit) prog" where
  "dealloc p l = (\<lambda>s. case owned_block p l s of
     None \<Rightarrow> Undef
   | Some (b, _) \<Rightarrow> Ret () (s\<lparr>blocks := (blocks s)(b := None)\<rparr>))"

definition realloc :: "target \<Rightarrow> pointer \<Rightarrow> layout \<Rightarrow> nat \<Rightarrow> ('r st, pointer option) prog" where
  "realloc t p l n = (\<lambda>s. case owned_block p l s of
     None \<Rightarrow> Undef
   | Some (b, blk) \<Rightarrow>
       if n = 0 \<or> ISIZE_MAX t + 1 - layout_align l < n then Undef
       else if oom s (calls s) then Ret None (s\<lparr>calls := Suc (calls s)\<rparr>)
       else Ret (Some (HeapPtr (next_id s) 0))
         (s\<lparr>blocks := (blocks s)(b := None, next_id s \<mapsto>
              blk\<lparr>contents := take n (contents blk) @ replicate (n - length (contents blk)) None\<rparr>),
            next_id := Suc (next_id s), calls := Suc (calls s)\<rparr>))"

section \<open>Pointer arithmetic and access\<close>

definition with_range :: "pointer \<Rightarrow> nat \<Rightarrow> (block \<Rightarrow> nat \<Rightarrow> nat \<Rightarrow> ('r st, 'a) prog) \<Rightarrow> ('r st, 'a) prog" where
  "with_range p n f = (case p of
     HeapPtr b off \<Rightarrow> (\<lambda>s. case blocks s b of
       None \<Rightarrow> Undef
     | Some blk \<Rightarrow> if off + n \<le> length (contents blk) then f blk b off s else Undef)
   | StaticPtr _ \<Rightarrow> undef)"

definition ptr_add :: "pointer \<Rightarrow> nat \<Rightarrow> ('r st, pointer) prog" where
  "ptr_add p n = with_range p n (\<lambda>_ b off. ret (HeapPtr b (off + n)))"

definition ptr_sub :: "pointer \<Rightarrow> nat \<Rightarrow> ('r st, pointer) prog" where
  "ptr_sub p n = with_range p 0 (\<lambda>_ b off. if n \<le> off then ret (HeapPtr b (off - n)) else undef)"

definition read_raw :: "pointer \<Rightarrow> nat \<Rightarrow> ('r st, byte option list) prog" where
  "read_raw p n = with_range p n (\<lambda>blk _ off. ret (window (contents blk) off n))"

definition write_raw :: "pointer \<Rightarrow> byte option list \<Rightarrow> ('r st, unit) prog" where
  "write_raw p bs = with_range p (length bs) (\<lambda>blk b off.
     modify (\<lambda>s. s\<lparr>blocks := (blocks s)(b \<mapsto> blk\<lparr>contents := overwrite (contents blk) off bs\<rparr>)\<rparr>))"

definition read_bytes :: "pointer \<Rightarrow> nat \<Rightarrow> ('r st, byte list) prog" where
  "read_bytes p n = (case p of
     HeapPtr _ _ \<Rightarrow> bind (read_raw p n) (\<lambda>bs. if None \<in> set bs then undef else ret (map the bs))
   | StaticPtr xs \<Rightarrow> if n \<le> length xs then ret (take n xs) else undef)"

definition write_bytes :: "pointer \<Rightarrow> byte list \<Rightarrow> ('r st, unit) prog" where
  "write_bytes p bs = write_raw p (map Some bs)"

definition is_aligned :: "target \<Rightarrow> pointer \<Rightarrow> ('r st, unit) prog" where
  "is_aligned t p = with_range p 0 (\<lambda>blk _ off.
     assert_unchecked (USIZE_SIZE t dvd off \<and> USIZE_SIZE t dvd alignment blk))"

definition read_usize :: "target \<Rightarrow> pointer \<Rightarrow> ('r st, nat) prog" where
  "read_usize t p =
    bind (is_aligned t p) (\<lambda>_.
    bind (read_bytes p (USIZE_SIZE t)) (\<lambda>bs.
    ret (from_ne_bytes t bs)))"

definition write_usize :: "target \<Rightarrow> pointer \<Rightarrow> nat \<Rightarrow> ('r st, unit) prog" where
  "write_usize t p x =
    bind (is_aligned t p) (\<lambda>_. write_bytes p (to_ne_bytes t x))"

text \<open>\<^verbatim>\<open>ptr::copy\<close> within the heap.\<close>

definition ptr_copy :: "pointer \<Rightarrow> pointer \<Rightarrow> nat \<Rightarrow> ('r st, unit) prog" where
  "ptr_copy src dst n = bind (read_raw src n) (\<lambda>bs. write_raw dst bs)"

section \<open>Rules\<close>

lemma wp_with_range [simp]:
  "wp (with_range (HeapPtr b off) n f) Q E P s =
    (case blocks s b of None \<Rightarrow> False
     | Some blk \<Rightarrow> off + n \<le> length (contents blk) \<and> wp (f blk b off) Q E P s)"
  by (simp add: with_range_def wp_def split: option.split)

lemma wp_ptr_add [simp]:
  "wp (ptr_add (HeapPtr b off) n) Q E P s =
    (case blocks s b of None \<Rightarrow> False
     | Some blk \<Rightarrow> off + n \<le> length (contents blk) \<and> Q (HeapPtr b (off + n)) s)"
  by (simp add: ptr_add_def split: option.split)

lemma wp_ptr_sub [simp]:
  "wp (ptr_sub (HeapPtr b off) n) Q E P s =
    (case blocks s b of None \<Rightarrow> False
     | Some blk \<Rightarrow> off \<le> length (contents blk) \<and> n \<le> off \<and> Q (HeapPtr b (off - n)) s)"
  by (simp add: ptr_sub_def split: option.split)

lemma wp_read_raw [simp]:
  "wp (read_raw (HeapPtr b off) n) Q E P s =
    (case blocks s b of None \<Rightarrow> False
     | Some blk \<Rightarrow> off + n \<le> length (contents blk) \<and> Q (window (contents blk) off n) s)"
  by (simp add: read_raw_def split: option.split)

lemma wp_write_raw [simp]:
  "wp (write_raw (HeapPtr b off) bs) Q E P s =
    (case blocks s b of None \<Rightarrow> False
     | Some blk \<Rightarrow> off + length bs \<le> length (contents blk) \<and>
         Q () (s\<lparr>blocks := (blocks s)(b \<mapsto> blk\<lparr>contents := overwrite (contents blk) off bs\<rparr>)\<rparr>))"
  by (simp add: write_raw_def split: option.split)

lemma wp_read_bytes [simp]:
  "wp (read_bytes (HeapPtr b off) n) Q E P s =
    (case blocks s b of None \<Rightarrow> False
     | Some blk \<Rightarrow> off + n \<le> length (contents blk) \<and> None \<notin> set (window (contents blk) off n) \<and>
         Q (map the (window (contents blk) off n)) s)"
  by (auto simp: read_bytes_def split: option.split)

lemma wp_read_bytes_static [simp]:
  "wp (read_bytes (StaticPtr xs) n) Q E P s = (n \<le> length xs \<and> Q (take n xs) s)"
  by (simp add: read_bytes_def)

lemma wp_write_bytes [simp]:
  "wp (write_bytes (HeapPtr b off) bs) Q E P s =
    (case blocks s b of None \<Rightarrow> False
     | Some blk \<Rightarrow> off + length bs \<le> length (contents blk) \<and>
         Q () (s\<lparr>blocks := (blocks s)(b \<mapsto>
           blk\<lparr>contents := overwrite (contents blk) off (map Some bs)\<rparr>)\<rparr>))"
  by (simp add: write_bytes_def split: option.split)

lemma wp_is_aligned [simp]:
  "wp (is_aligned t (HeapPtr b off)) Q E P s =
    (case blocks s b of None \<Rightarrow> False
     | Some blk \<Rightarrow> off \<le> length (contents blk) \<and> USIZE_SIZE t dvd off \<and>
         USIZE_SIZE t dvd alignment blk \<and> Q () s)"
  by (simp add: is_aligned_def split: option.split)

lemma map_the_map_Some [simp]: "map the (map Some xs) = xs"
  by (induction xs) simp_all

lemma wp_alloc [simp]:
  "wp (alloc l) Q E P s =
    (layout_size l \<noteq> 0 \<and>
     (if oom s (calls s) then Q None (s\<lparr>calls := Suc (calls s)\<rparr>)
      else Q (Some (HeapPtr (next_id s) 0))
        (s\<lparr>blocks := (blocks s)(next_id s \<mapsto>
             \<lparr>contents = replicate (layout_size l) None, alignment = layout_align l\<rparr>),
           next_id := Suc (next_id s), calls := Suc (calls s)\<rparr>)))"
  by (simp add: alloc_def wp_def)

lemma wp_dealloc [simp]:
  "wp (dealloc (HeapPtr b 0) l) Q E P s =
    (case blocks s b of None \<Rightarrow> False
     | Some blk \<Rightarrow> length (contents blk) = layout_size l \<and> alignment blk = layout_align l \<and>
         Q () (s\<lparr>blocks := (blocks s)(b := None)\<rparr>))"
  by (auto simp: dealloc_def owned_block_def wp_def split: option.split)

lemma wp_realloc [simp]:
  "wp (realloc t (HeapPtr b 0) l n) Q E P s =
    (case blocks s b of None \<Rightarrow> False
     | Some blk \<Rightarrow> length (contents blk) = layout_size l \<and> alignment blk = layout_align l \<and>
         n \<noteq> 0 \<and> n \<le> ISIZE_MAX t + 1 - layout_align l \<and>
         (if oom s (calls s) then Q None (s\<lparr>calls := Suc (calls s)\<rparr>)
          else Q (Some (HeapPtr (next_id s) 0))
            (s\<lparr>blocks := (blocks s)(b := None, next_id s \<mapsto>
                 blk\<lparr>contents := take n (contents blk) @ replicate (n - length (contents blk)) None\<rparr>),
               next_id := Suc (next_id s), calls := Suc (calls s)\<rparr>)))"
  by (auto simp: realloc_def owned_block_def wp_def not_le split: option.split)

text \<open>Two layouts the crate asks for.\<close>

lemma is_power_of_two_usize [simp]: "is_power_of_two (USIZE_SIZE t)"
proof -
  have "is_power_of_two (2 ^ 2)" "is_power_of_two (2 ^ 3)"
    unfolding is_power_of_two_def by (simp_all only: set_map set_upt) (rule imageI, simp)+
  then show ?thesis using USIZE_SIZE_cases [of t] by auto
qed

end
