(* ===== verification/HeapBuffer.thy ===== *)
theory HeapBuffer
  imports TextLen Utf8 Memory
begin

text \<open>
  \<open>src/src/repr/heap_buffer.rs\<close>: the reference-counted heap buffer. An allocation is
  \<^verbatim>\<open>[length] header data\<close>, where the length word is there only on a 32-bit target
  for a buffer too long for \<open>TextLen\<close>, and the header is a reference count, followed by a
  capacity in a growable buffer. A \<open>heap_buffer\<close> value points at the data. The definitions are
  the functions of the file, in its order; the proofs are in the theories that follow.
\<close>

section \<open>Headers and layout\<close>

datatype header = GrowableHeader | ExactHeader

record heap_buffer =
  hptr :: pointer
  hlen :: nat

definition from_utf8_unchecked :: "byte list \<Rightarrow> ('s, byte list) prog" where
  "from_utf8_unchecked bs = bind (assert_unchecked (valid_utf8 bs)) (\<lambda>_. ret bs)"

fun header_SIZE :: "target \<Rightarrow> header \<Rightarrow> nat" where
  "header_SIZE t GrowableHeader = 2 * USIZE_SIZE t"
| "header_SIZE t ExactHeader = USIZE_SIZE t"

text \<open>The bytes of \<^verbatim>\<open>H::new(capacity)\<close>: a count of 1, then the capacity.\<close>

fun header_new :: "target \<Rightarrow> header \<Rightarrow> nat \<Rightarrow> byte list" where
  "header_new t GrowableHeader capacity = to_ne_bytes t 1 @ to_ne_bytes t capacity"
| "header_new t ExactHeader capacity = to_ne_bytes t 1"

definition const_max :: "nat \<Rightarrow> nat \<Rightarrow> nat" where
  "const_max x y = (if y < x then x else y)"

definition buffer_align :: "target \<Rightarrow> nat" where
  "buffer_align t = USIZE_SIZE t"

definition header_offset :: "target \<Rightarrow> header \<Rightarrow> nat" where
  "header_offset t h = const_max (header_SIZE t h) (buffer_align t)"

definition layout_for :: "target \<Rightarrow> header \<Rightarrow> nat \<Rightarrow> reserve_error + layout" where
  "layout_for t h capacity =
    (case (case checked_add t (header_offset t h) capacity of
             None \<Rightarrow> None
           | Some sz \<Rightarrow>
               if is_len_heap_layout t capacity then checked_add t sz (USIZE_SIZE t) else Some sz) of
       None \<Rightarrow> Inl ReserveError
     | Some alloc_size \<Rightarrow> Layout_from_size_align t alloc_size (buffer_align t))"

definition write_header :: "target \<Rightarrow> header \<Rightarrow> pointer \<Rightarrow> nat \<Rightarrow> ('r st, unit) prog" where
  "write_header t h p capacity =
    bind (is_aligned t p) (\<lambda>_. write_bytes p (header_new t h capacity))"

definition allocate_ptr :: "target \<Rightarrow> header \<Rightarrow> nat \<Rightarrow> ('r st, pointer) prog" where
  "allocate_ptr t h sz =
    bind (Capacity_new t sz) (\<lambda>capacity.
    bind (propagate (layout_for t h capacity)) (\<lambda>layout.
    bind (alloc layout) (\<lambda>a. case a of
      None \<Rightarrow> fail
    | Some allocation \<Rightarrow>
        bind (if is_len_heap_layout t capacity then ptr_add allocation (USIZE_SIZE t)
              else ret allocation) (\<lambda>allocation.
        bind (write_header t h allocation capacity) (\<lambda>_.
        ptr_add allocation (header_offset t h))))))"

section \<open>Reading the header\<close>

definition header_ptr :: "target \<Rightarrow> header \<Rightarrow> heap_buffer \<Rightarrow> ('r st, pointer) prog" where
  "header_ptr t h hb = ptr_sub (hptr hb) (header_offset t h)"

definition len_ptr :: "target \<Rightarrow> header \<Rightarrow> pointer \<Rightarrow> ('r st, pointer) prog" where
  "len_ptr t h p = bind (ptr_sub p (header_offset t h)) (\<lambda>p. ptr_sub p (USIZE_SIZE t))"

definition header_capacity :: "target \<Rightarrow> heap_buffer \<Rightarrow> ('r st, nat) prog" where
  "header_capacity t hb =
    bind (header_ptr t GrowableHeader hb) (\<lambda>p.
    bind (ptr_add p (USIZE_SIZE t)) (\<lambda>p.
    read_usize t p))"

text \<open>The atomic operations on the reference count, which is the first word of the header.\<close>

definition count_load :: "target \<Rightarrow> header \<Rightarrow> heap_buffer \<Rightarrow> ('r st, nat) prog" where
  "count_load t h hb = bind (header_ptr t h hb) (\<lambda>p. read_usize t p)"

definition count_fetch_add :: "target \<Rightarrow> header \<Rightarrow> heap_buffer \<Rightarrow> ('r st, nat) prog" where
  "count_fetch_add t h hb =
    bind (header_ptr t h hb) (\<lambda>p.
    bind (read_usize t p) (\<lambda>old.
    bind (write_usize t p (wrapping_add t old 1)) (\<lambda>_. ret old)))"

definition count_fetch_sub :: "target \<Rightarrow> header \<Rightarrow> heap_buffer \<Rightarrow> ('r st, nat) prog" where
  "count_fetch_sub t h hb =
    bind (header_ptr t h hb) (\<lambda>p.
    bind (read_usize t p) (\<lambda>old.
    bind (write_usize t p (wrapping_sub t old 1)) (\<lambda>_. ret old)))"

definition heap_is_unique :: "target \<Rightarrow> header \<Rightarrow> heap_buffer \<Rightarrow> ('r st, bool) prog" where
  "heap_is_unique t h hb = bind (count_load t h hb) (\<lambda>c. ret (c = 1))"

definition heap_is_len_on_heap :: "target \<Rightarrow> heap_buffer \<Rightarrow> bool" where
  "heap_is_len_on_heap t hb = TextLen_is_heap t (hlen hb)"

definition heap_len :: "target \<Rightarrow> header \<Rightarrow> heap_buffer \<Rightarrow> ('r st, nat) prog" where
  "heap_len t h hb =
    (if TextLen_is_heap t (hlen hb)
     then bind (len_ptr t h (hptr hb)) (\<lambda>p. read_usize t p)
     else ret (TextLen_as_usize t (hlen hb)))"

definition heap_as_str :: "target \<Rightarrow> header \<Rightarrow> heap_buffer \<Rightarrow> ('r st, byte list) prog" where
  "heap_as_str t h hb =
    bind (heap_len t h hb) (\<lambda>n.
    bind (read_bytes (hptr hb) n) (\<lambda>bs.
    from_utf8_unchecked bs))"

definition heap_capacity :: "target \<Rightarrow> heap_buffer \<Rightarrow> ('r st, nat) prog" where
  "heap_capacity t hb = header_capacity t hb"

fun header_layout :: "target \<Rightarrow> header \<Rightarrow> heap_buffer \<Rightarrow> ('r st, reserve_error + layout) prog" where
  "header_layout t GrowableHeader hb =
    bind (header_capacity t hb) (\<lambda>capacity. ret (layout_for t GrowableHeader capacity))"
| "header_layout t ExactHeader hb =
    bind (heap_len t ExactHeader hb) (\<lambda>n.
    bind (Capacity_new_unchecked t n) (\<lambda>capacity.
    ret (layout_for t ExactHeader capacity)))"

fun has_len_prefix :: "target \<Rightarrow> header \<Rightarrow> heap_buffer \<Rightarrow> ('r st, bool) prog" where
  "has_len_prefix t GrowableHeader hb =
    bind (header_capacity t hb) (\<lambda>capacity. ret (is_len_heap_layout t capacity))"
| "has_len_prefix t ExactHeader hb = ret (TextLen_is_heap t (hlen hb))"

definition alloc_layout :: "target \<Rightarrow> header \<Rightarrow> heap_buffer \<Rightarrow> ('r st, layout) prog" where
  "alloc_layout t h hb =
    bind (header_layout t h hb) (\<lambda>r. case r of
      Inr layout \<Rightarrow> ret layout
    | Inl _ \<Rightarrow> bind (debug_assert t False) (\<lambda>_. undef))"

definition allocation :: "target \<Rightarrow> header \<Rightarrow> heap_buffer \<Rightarrow> ('r st, pointer) prog" where
  "allocation t h hb =
    bind (has_len_prefix t h hb) (\<lambda>prefix.
    if prefix then len_ptr t h (hptr hb) else ptr_sub (hptr hb) (header_offset t h))"

section \<open>Construction\<close>

text \<open>\<^verbatim>\<open>copy_nonoverlapping(text.add(i), p.add(j), n)\<close> from a string outside the
  allocation.\<close>

definition copy_from :: "byte list \<Rightarrow> nat \<Rightarrow> pointer \<Rightarrow> nat \<Rightarrow> nat \<Rightarrow> ('r st, unit) prog" where
  "copy_from text i p j n =
    bind (assert_unchecked (i + n \<le> length text)) (\<lambda>_.
    bind (ptr_add p j) (\<lambda>q. write_bytes q (window text i n)))"

definition new_uninit :: "target \<Rightarrow> header \<Rightarrow> nat \<Rightarrow> ('r st, heap_buffer) prog" where
  "new_uninit t h n =
    bind (propagate (TextLen_new t n)) (\<lambda>text_len.
    bind (allocate_ptr t h n) (\<lambda>ptr.
    bind (if TextLen_is_heap t text_len
          then bind (len_ptr t h ptr) (\<lambda>p. write_usize t p n) else ret ()) (\<lambda>_.
    ret \<lparr>hptr = ptr, hlen = text_len\<rparr>)))"

definition heap_new :: "target \<Rightarrow> header \<Rightarrow> byte list \<Rightarrow> ('r st, heap_buffer) prog" where
  "heap_new t h text =
    (let n = length text; N = MAX_INLINE_SIZE t in
     bind (new_uninit t h n) (\<lambda>buffer.
     bind (if \<not> (N \<le> n \<and> n \<le> 4 * N) then copy_from text 0 (hptr buffer) 0 n
           else if 2 * N \<le> n then
             bind (copy_from text 0 (hptr buffer) 0 (2 * N)) (\<lambda>_.
             copy_from text (n - 2 * N) (hptr buffer) (n - 2 * N) (2 * N))
           else
             bind (copy_from text 0 (hptr buffer) 0 N) (\<lambda>_.
             copy_from text (n - N) (hptr buffer) (n - N) N)) (\<lambda>_.
     ret buffer)))"

definition heap_with_capacity :: "target \<Rightarrow> nat \<Rightarrow> ('r st, heap_buffer) prog" where
  "heap_with_capacity t capacity =
    bind (propagate (TextLen_new t 0)) (\<lambda>text_len.
    bind (allocate_ptr t GrowableHeader capacity) (\<lambda>ptr.
    ret \<lparr>hptr = ptr, hlen = text_len\<rparr>))"

definition heap_set_len :: "target \<Rightarrow> heap_buffer \<Rightarrow> nat \<Rightarrow> ('r st, heap_buffer) prog" where
  "heap_set_len t hb n =
    bind (debug_assert_run t (bind (heap_capacity t hb) (\<lambda>c. ret (n \<le> c)))) (\<lambda>_.
    case TextLen_new t n of
      Inl _ \<Rightarrow> bind (debug_assert t False) (\<lambda>_. undef)
    | Inr new_len \<Rightarrow>
        bind (debug_assert_run t
               (if TextLen_is_heap t new_len then heap_is_unique t GrowableHeader hb
                else ret True)) (\<lambda>_.
        bind (if TextLen_is_heap t new_len
              then bind (len_ptr t GrowableHeader (hptr hb)) (\<lambda>p. write_usize t p n)
              else ret ()) (\<lambda>_.
        ret (hb\<lparr>hlen := new_len\<rparr>))))"

definition from_str_with_capacity :: "target \<Rightarrow> byte list \<Rightarrow> nat \<Rightarrow> ('r st, heap_buffer) prog" where
  "from_str_with_capacity t text capacity =
    bind (debug_assert t (length text \<le> capacity)) (\<lambda>_.
    bind (heap_with_capacity t capacity) (\<lambda>buffer.
    bind (copy_from text 0 (hptr buffer) 0 (length text)) (\<lambda>_.
    heap_set_len t buffer (length text))))"

section \<open>Release\<close>

definition heap_dealloc :: "target \<Rightarrow> header \<Rightarrow> heap_buffer \<Rightarrow> ('r st, unit) prog" where
  "heap_dealloc t h hb =
    bind (allocation t h hb) (\<lambda>p.
    bind (alloc_layout t h hb) (\<lambda>layout.
    dealloc p layout))"

definition release :: "target \<Rightarrow> header \<Rightarrow> heap_buffer \<Rightarrow> ('r st, unit) prog" where
  "release t h hb =
    bind (count_fetch_sub t h hb) (\<lambda>old.
    if old = 1 then heap_dealloc t h hb else ret ())"

section \<open>Changing the capacity\<close>

definition ALLOC_LIMIT :: "target \<Rightarrow> nat" where
  "ALLOC_LIMIT t = (ISIZE_MAX t + 1) - buffer_align t"

definition new_alloc_size :: "target \<Rightarrow> bool \<Rightarrow> nat \<Rightarrow> ('r st, nat) prog" where
  "new_alloc_size t len_heap new_capacity = (case pointer_width t of
     P64 \<Rightarrow> ret (wrapping_add t (header_offset t GrowableHeader) new_capacity)
   | P32 \<Rightarrow>
       let alloc_size = saturating_add t (header_offset t GrowableHeader) new_capacity;
           alloc_size = (if len_heap then saturating_add t alloc_size (USIZE_SIZE t) else alloc_size)
       in if ALLOC_LIMIT t < alloc_size then fail else ret alloc_size)"

definition heap_realloc :: "target \<Rightarrow> heap_buffer \<Rightarrow> nat \<Rightarrow> ('r st, heap_buffer) prog" where
  "heap_realloc t hb new_cap =
    bind (debug_assert_run t (heap_is_unique t GrowableHeader hb)) (\<lambda>_.
    bind (debug_assert_run t (bind (heap_len t GrowableHeader hb) (\<lambda>n. ret (n \<le> new_cap)))) (\<lambda>_.
    bind (Capacity_new t new_cap) (\<lambda>new_capacity.
    bind (header_capacity t hb) (\<lambda>cur_capacity.
    bind (alloc_layout t GrowableHeader hb) (\<lambda>cur_layout.
    if is_len_heap_layout t cur_capacity \<noteq> is_len_heap_layout t new_capacity then
      bind (heap_as_str t GrowableHeader hb) (\<lambda>text.
      bind (from_str_with_capacity t text new_capacity) (\<lambda>new_buf.
      bind (heap_dealloc t GrowableHeader hb) (\<lambda>_. ret new_buf)))
    else
      let len_heap = is_len_heap_layout t new_capacity in
      bind (new_alloc_size t len_heap new_capacity) (\<lambda>alloc_size.
      bind (allocation t GrowableHeader hb) (\<lambda>old.
      bind (realloc t old cur_layout alloc_size) (\<lambda>a. case a of
        None \<Rightarrow> fail
      | Some p \<Rightarrow>
          bind (if len_heap then ptr_add p (USIZE_SIZE t) else ret p) (\<lambda>p.
          bind (write_header t GrowableHeader p new_capacity) (\<lambda>_.
          bind (ptr_add p (header_offset t GrowableHeader)) (\<lambda>ptr.
          ret (hb\<lparr>hptr := ptr\<rparr>))))))))))))"

section \<open>Growable to exact and back\<close>

text \<open>Both conversions return the buffer unchanged on failure, \<open>Inl\<close> here.\<close>

definition into_exact :: "target \<Rightarrow> heap_buffer \<Rightarrow> ('r st, heap_buffer + heap_buffer) prog" where
  "into_exact t hb =
    bind (debug_assert_run t (heap_is_unique t GrowableHeader hb)) (\<lambda>_.
    bind (heap_len t GrowableHeader hb) (\<lambda>n.
    bind (header_capacity t hb) (\<lambda>old_capacity.
    bind (alloc_layout t GrowableHeader hb) (\<lambda>old_layout.
    bind (Capacity_new_unchecked t n) (\<lambda>new_capacity.
    case layout_for t ExactHeader new_capacity of
      Inl _ \<Rightarrow> ret (Inl hb)
    | Inr new_layout \<Rightarrow>
        let old_len_prefix = (if is_len_heap_layout t old_capacity then USIZE_SIZE t else 0);
            new_len_prefix = (if TextLen_is_heap t (hlen hb) then USIZE_SIZE t else 0) in
        bind (allocation t GrowableHeader hb) (\<lambda>base.
        bind (ptr_add base (new_len_prefix + header_offset t ExactHeader)) (\<lambda>new_data.
        bind (ptr_copy (hptr hb) new_data n) (\<lambda>_.
        bind (realloc t base old_layout (layout_size new_layout)) (\<lambda>a. case a of
          None \<Rightarrow>
            bind (ptr_copy new_data (hptr hb) n) (\<lambda>_.
            bind (if old_len_prefix \<noteq> 0 then write_usize t base n else ret ()) (\<lambda>_.
            bind (ptr_add base old_len_prefix) (\<lambda>p.
            bind (write_header t GrowableHeader p old_capacity) (\<lambda>_.
            ret (Inl hb)))))
        | Some new_base \<Rightarrow>
            bind (if new_len_prefix \<noteq> 0 then write_usize t new_base n else ret ()) (\<lambda>_.
            bind (ptr_add new_base new_len_prefix) (\<lambda>p.
            bind (write_header t ExactHeader p n) (\<lambda>_.
            bind (ptr_add new_base (new_len_prefix + header_offset t ExactHeader)) (\<lambda>ptr.
            ret (Inr \<lparr>hptr = ptr, hlen = hlen hb\<rparr>))))))))))))))"

definition into_growable :: "target \<Rightarrow> heap_buffer \<Rightarrow> ('r st, heap_buffer + heap_buffer) prog" where
  "into_growable t hb =
    bind (debug_assert_run t (heap_is_unique t ExactHeader hb)) (\<lambda>_.
    bind (heap_len t ExactHeader hb) (\<lambda>n.
    bind (Capacity_new_unchecked t n) (\<lambda>capacity.
    bind (alloc_layout t ExactHeader hb) (\<lambda>old_layout.
    case layout_for t GrowableHeader capacity of
      Inl _ \<Rightarrow> ret (Inl hb)
    | Inr new_layout \<Rightarrow>
        let len_prefix = (if TextLen_is_heap t (hlen hb) then USIZE_SIZE t else 0) in
        bind (allocation t ExactHeader hb) (\<lambda>base.
        bind (realloc t base old_layout (layout_size new_layout)) (\<lambda>a. case a of
          None \<Rightarrow> ret (Inl hb)
        | Some new_base \<Rightarrow>
            bind (ptr_add new_base (len_prefix + header_offset t ExactHeader)) (\<lambda>old_data.
            bind (ptr_add new_base (len_prefix + header_offset t GrowableHeader)) (\<lambda>new_data.
            bind (ptr_copy old_data new_data n) (\<lambda>_.
            bind (if len_prefix \<noteq> 0 then write_usize t new_base n else ret ()) (\<lambda>_.
            bind (ptr_add new_base len_prefix) (\<lambda>p.
            bind (write_header t GrowableHeader p capacity) (\<lambda>_.
            ret (Inr \<lparr>hptr = new_data, hlen = hlen hb\<rparr>)))))))))))))"

end
