(* ===== verification/HeapView.thy ===== *)
theory HeapView
  imports HeapBuffer
begin

text \<open>
  The abstract view of the heap. A \<open>view\<close> is what one allocation means: its kind, the optional
  length word, the reference count, the capacity and the data bytes. \<open>heap_rep\<close> says that the
  raw blocks of a state are exactly the encodings of a heap of views. Every primitive of
  \<open>HeapBuffer\<close> is shown to act on a view the way its name says, so that the theories above never
  look at a raw block again.
\<close>

section \<open>Views\<close>

record view =
  vkind :: header
  vprefix :: "byte option list"
  vcount :: nat
  vcap :: nat
  vdata :: "byte option list"

definition prefix_len :: "target \<Rightarrow> nat \<Rightarrow> nat" where
  "prefix_len t capacity = (if is_len_heap_layout t capacity then USIZE_SIZE t else 0)"

definition cap_bytes :: "target \<Rightarrow> view \<Rightarrow> byte option list" where
  "cap_bytes t v = (if vkind v = GrowableHeader then map Some (to_ne_bytes t (vcap v)) else [])"

definition view_bytes :: "target \<Rightarrow> view \<Rightarrow> byte option list" where
  "view_bytes t v =
    vprefix v @ map Some (to_ne_bytes t (vcount v)) @ cap_bytes t v @ vdata v"

definition view_block :: "target \<Rightarrow> view \<Rightarrow> block" where
  "view_block t v = \<lparr>contents = view_bytes t v, alignment = USIZE_SIZE t\<rparr>"

definition buffer_size :: "target \<Rightarrow> header \<Rightarrow> nat \<Rightarrow> nat" where
  "buffer_size t h capacity = prefix_len t capacity + header_offset t h + capacity"

text \<open>The capacities for which an allocation can exist.\<close>

definition fits :: "target \<Rightarrow> header \<Rightarrow> nat \<Rightarrow> bool" where
  "fits t h capacity \<longleftrightarrow>
    capacity \<le> Capacity_MAX t \<and> buffer_size t h capacity \<le> ISIZE_MAX t + 1 - USIZE_SIZE t"

definition data_off :: "target \<Rightarrow> view \<Rightarrow> nat" where
  "data_off t v = prefix_len t (vcap v) + header_offset t (vkind v)"

definition view_ok :: "target \<Rightarrow> view \<Rightarrow> bool" where
  "view_ok t v \<longleftrightarrow>
    vcount v < 2 ^ USIZE_BITS t \<and> length (vprefix v) = prefix_len t (vcap v) \<and>
    length (vdata v) = vcap v \<and> fits t (vkind v) (vcap v)"

definition heap_rep :: "target \<Rightarrow> (nat \<Rightarrow> view option) \<Rightarrow> 'r st \<Rightarrow> bool" where
  "heap_rep t H s \<longleftrightarrow>
    blocks s = (\<lambda>b. map_option (view_block t) (H b)) \<and>
    (\<forall>b v. H b = Some v \<longrightarrow> view_ok t v \<and> b < next_id s)"

definition put_view :: "target \<Rightarrow> nat \<Rightarrow> view \<Rightarrow> 'r st \<Rightarrow> 'r st" where
  "put_view t b v s = s\<lparr>blocks := (blocks s)(b \<mapsto> view_block t v)\<rparr>"

text \<open>What an operation on memory leaves alone, and why the allocator may have refused.\<close>

definition mem_only :: "'r st \<Rightarrow> 'r st \<Rightarrow> bool" where
  "mem_only s s' \<longleftrightarrow> self s' = self s \<and> oom s' = oom s \<and> calls s \<le> calls s'"

definition oom_between :: "'r st \<Rightarrow> 'r st \<Rightarrow> bool" where
  "oom_between s s' \<longleftrightarrow> (\<exists>i. calls s \<le> i \<and> i < calls s' \<and> oom s i)"

definition refused :: "target \<Rightarrow> header \<Rightarrow> nat \<Rightarrow> 'r st \<Rightarrow> 'r st \<Rightarrow> bool" where
  "refused t h capacity s s' \<longleftrightarrow> \<not> fits t h capacity \<or> oom_between s s'"

lemma mem_only_refl [simp]: "mem_only s s"
  by (simp add: mem_only_def)

lemma mem_only_trans: "mem_only s s' \<Longrightarrow> mem_only s' s'' \<Longrightarrow> mem_only s s''"
  by (simp add: mem_only_def)

lemma mem_only_self: "mem_only s s' \<Longrightarrow> self s' = self s"
  by (simp add: mem_only_def)

lemma mem_only_put_view [simp]:
  "mem_only s (put_view t b v s') \<longleftrightarrow> mem_only s s'"
  "mem_only (put_view t b v s) s' \<longleftrightarrow> mem_only s s'"
  by (simp_all add: mem_only_def put_view_def)

lemma refused_later:
  "refused t h c s1 s2 \<Longrightarrow> mem_only s s1 \<Longrightarrow> mem_only s2 s' \<Longrightarrow> refused t h c s s'"
  by (auto simp: refused_def oom_between_def mem_only_def) (meson le_trans less_le_trans)

section \<open>Layout facts\<close>

lemma header_offset_simps [simp]:
  "header_offset t GrowableHeader = 2 * USIZE_SIZE t" "header_offset t ExactHeader = USIZE_SIZE t"
  by (simp_all add: header_offset_def const_max_def buffer_align_def)

lemma header_offset_le: "header_offset t h \<le> 2 * USIZE_SIZE t"
  by (cases h) simp_all

lemma header_offset_dvd [simp]: "USIZE_SIZE t dvd header_offset t h"
  by (cases h) simp_all

lemma prefix_len_dvd [simp]: "USIZE_SIZE t dvd prefix_len t c"
  by (simp add: prefix_len_def)

lemma prefix_len_le: "prefix_len t c \<le> USIZE_SIZE t"
  by (simp add: prefix_len_def)

lemma header_offset_pos [simp]: "0 < header_offset t h"
  by (cases h) simp_all

lemma length_header_new [simp]: "length (header_new t h c) = header_offset t h"
  by (cases h) simp_all

lemma buffer_size_bound: "c \<le> Capacity_MAX t \<Longrightarrow> buffer_size t h c \<le> USIZE_MAX t"
  using header_offset_le [of t h] prefix_len_le [of t c]
  by (cases "pointer_width t")
    (auto simp: buffer_size_def Capacity_MAX_numeral target_numbers_32 target_numbers_64)

lemma layout_for_eq:
  assumes "c \<le> Capacity_MAX t"
  shows "layout_for t h c =
    (if fits t h c then Inr \<lparr>layout_size = buffer_size t h c, layout_align = USIZE_SIZE t\<rparr>
     else Inl ReserveError)"
  using assms buffer_size_bound [OF assms, of h]
  by (cases "is_len_heap_layout t c")
    (simp_all add: layout_for_def checked_add_def buffer_size_def prefix_len_def fits_def
      Layout_from_size_align_def buffer_align_def add.commute add.left_commute)

lemma fits_64: "pointer_width t = P64 \<Longrightarrow> c \<le> Capacity_MAX t \<Longrightarrow> fits t h c"
  using header_offset_le [of t h] prefix_len_le [of t c]
  by (auto simp: fits_def buffer_size_def Capacity_MAX_numeral target_numbers_64)

lemma fits_cap: "fits t h c \<Longrightarrow> c \<le> Capacity_MAX t"
  by (simp add: fits_def)

lemma fits_ISIZE_MAX: "fits t h c \<Longrightarrow> c \<le> ISIZE_MAX t"
  using Capacity_MAX_ISIZE_MAX [of t] by (simp add: fits_def)

lemma buffer_size_pos [simp]: "0 < buffer_size t h c"
  by (simp add: buffer_size_def)

section \<open>The parts of an encoded view\<close>

lemma length_cap_bytes [simp]:
  "USIZE_SIZE t + length (cap_bytes t v) = header_offset t (vkind v)"
  by (cases "vkind v") (simp_all add: cap_bytes_def)

lemma length_view_bytes [simp]:
  "view_ok t v \<Longrightarrow> length (view_bytes t v) = buffer_size t (vkind v) (vcap v)"
  using length_cap_bytes [of t v] by (simp add: view_bytes_def view_ok_def buffer_size_def)

lemma header_offset_cap_bytes: "header_offset t (vkind v) = USIZE_SIZE t + length (cap_bytes t v)"
  by simp

lemma view_count_window:
  "view_ok t v \<Longrightarrow>
    window (view_bytes t v) (prefix_len t (vcap v)) (USIZE_SIZE t) =
      map Some (to_ne_bytes t (vcount v))"
  by (simp add: view_bytes_def view_ok_def window_append_right window_append_left window_0)

lemma view_cap_window:
  "view_ok t v \<Longrightarrow> vkind v = GrowableHeader \<Longrightarrow>
    window (view_bytes t v) (prefix_len t (vcap v) + USIZE_SIZE t) (USIZE_SIZE t) =
      map Some (to_ne_bytes t (vcap v))"
  by (simp add: view_bytes_def view_ok_def cap_bytes_def window_append_right window_append_left
      window_0)

lemma view_data_window:
  "view_ok t v \<Longrightarrow> window (view_bytes t v) (data_off t v + i) n = window (vdata v) i n"
  by (simp add: view_bytes_def view_ok_def data_off_def window_append_right
      header_offset_cap_bytes del: length_cap_bytes)

lemma view_prefix_window:
  "view_ok t v \<Longrightarrow> is_len_heap_layout t (vcap v) \<Longrightarrow>
    window (view_bytes t v) 0 (USIZE_SIZE t) = vprefix v"
  by (simp add: view_bytes_def view_ok_def prefix_len_def window_append_left window_0)

lemma view_count_overwrite:
  "view_ok t v \<Longrightarrow>
    overwrite (view_bytes t v) (prefix_len t (vcap v)) (map Some (to_ne_bytes t c)) =
      view_bytes t (v\<lparr>vcount := c\<rparr>)"
  by (simp add: view_bytes_def view_ok_def cap_bytes_def overwrite_append_right
      overwrite_append_left overwrite_all)

lemma view_data_overwrite:
  "view_ok t v \<Longrightarrow> i + length ys \<le> vcap v \<Longrightarrow>
    overwrite (view_bytes t v) (data_off t v + i) ys =
      view_bytes t (v\<lparr>vdata := overwrite (vdata v) i ys\<rparr>)"
  by (simp add: view_bytes_def view_ok_def data_off_def cap_bytes_def overwrite_append_right
      header_offset_cap_bytes del: length_cap_bytes split: header.split)

lemma view_prefix_overwrite:
  "view_ok t v \<Longrightarrow> is_len_heap_layout t (vcap v) \<Longrightarrow> length ys = USIZE_SIZE t \<Longrightarrow>
    overwrite (view_bytes t v) 0 ys = view_bytes t (v\<lparr>vprefix := ys\<rparr>)"
  by (simp add: view_bytes_def view_ok_def prefix_len_def cap_bytes_def overwrite_append_left
      overwrite_all)

lemma view_ok_updates [simp]:
  "view_ok t v \<Longrightarrow> c < 2 ^ USIZE_BITS t \<Longrightarrow> view_ok t (v\<lparr>vcount := c\<rparr>)"
  "view_ok t v \<Longrightarrow> length d = vcap v \<Longrightarrow> view_ok t (v\<lparr>vdata := d\<rparr>)"
  "view_ok t v \<Longrightarrow> length p = prefix_len t (vcap v) \<Longrightarrow> view_ok t (v\<lparr>vprefix := p\<rparr>)"
  by (simp_all add: view_ok_def)

lemma data_off_updates [simp]:
  "data_off t (v\<lparr>vcount := c\<rparr>) = data_off t v" "data_off t (v\<lparr>vdata := d\<rparr>) = data_off t v"
  "data_off t (v\<lparr>vprefix := p\<rparr>) = data_off t v"
  by (simp_all add: data_off_def)

section \<open>The represented heap\<close>

lemma heap_rep_block: "heap_rep t H s \<Longrightarrow> blocks s b = map_option (view_block t) (H b)"
  by (simp add: heap_rep_def)

lemma heap_rep_ok: "heap_rep t H s \<Longrightarrow> H b = Some v \<Longrightarrow> view_ok t v"
  by (simp add: heap_rep_def)

lemma heap_rep_lookup:
  "heap_rep t H s \<Longrightarrow> H b = Some v \<Longrightarrow> blocks s b = Some (view_block t v)"
  by (simp add: heap_rep_def)

lemma heap_rep_fresh: "heap_rep t H s \<Longrightarrow> H (next_id s) = None"
  by (cases "H (next_id s)") (auto simp: heap_rep_def)

lemma heap_rep_put_view:
  "heap_rep t H s \<Longrightarrow> H b = Some v \<Longrightarrow> view_ok t v' \<Longrightarrow> heap_rep t (H(b \<mapsto> v')) (put_view t b v' s)"
  by (auto simp: heap_rep_def put_view_def)

lemma heap_rep_cong:
  "heap_rep t H s \<Longrightarrow> blocks s' = blocks s \<Longrightarrow> next_id s' = next_id s \<Longrightarrow> heap_rep t H s'"
  by (simp add: heap_rep_def)

lemma heap_rep_calls [simp]: "heap_rep t H (s\<lparr>calls := c\<rparr>) = heap_rep t H s"
  by (simp add: heap_rep_def)

lemma heap_rep_self [simp]: "heap_rep t H (s\<lparr>self := r\<rparr>) = heap_rep t H s"
  by (simp add: heap_rep_def)

lemma heap_rep_remove:
  "heap_rep t H s \<Longrightarrow> heap_rep t (H(b := None)) (s\<lparr>blocks := (blocks s)(b := None)\<rparr>)"
  by (auto simp: heap_rep_def)

lemma view_block_sel [simp]:
  "contents (view_block t v) = view_bytes t v" "alignment (view_block t v) = USIZE_SIZE t"
  by (simp_all add: view_block_def)

lemma view_block_update [simp]:
  "view_bytes t v' = bs \<Longrightarrow> view_block t v\<lparr>contents := bs\<rparr> = view_block t v'"
  by (simp add: view_block_def)

lemma put_view_put_view [simp]: "put_view t b v' (put_view t b v s) = put_view t b v' s"
  by (simp add: put_view_def)

lemma put_view_sel [simp]:
  "self (put_view t b v s) = self s" "oom (put_view t b v s) = oom s"
  "calls (put_view t b v s) = calls s" "next_id (put_view t b v s) = next_id s"
  by (simp_all add: put_view_def)

end
