(* ===== verification/HeapOps.thy ===== *)
theory HeapOps
  imports HeapView
begin

text \<open>
  What each function of \<open>HeapBuffer\<close> does to the heap of views: reading the header and the
  text, counting references, releasing, allocating and setting the length. The rules are
  equations for \<open>wp\<close> where the operation cannot fail, so that the simplifier runs straight-line
  code, and implications where the allocator may refuse.
\<close>

section \<open>A buffer that holds a text\<close>

definition buf_holds :: "target \<Rightarrow> header \<Rightarrow> heap_buffer \<Rightarrow> nat \<Rightarrow> view \<Rightarrow> byte list \<Rightarrow> bool" where
  "buf_holds t h hb b v xs \<longleftrightarrow>
    vkind v = h \<and> hptr hb = HeapPtr b (data_off t v) \<and> hlen hb = text_len t (length xs) \<and>
    take (length xs) (vdata v) = map Some xs \<and>
    (MAX_LEN t < length xs \<longrightarrow> vprefix v = map Some (to_ne_bytes t (length xs))) \<and>
    (h = ExactHeader \<longrightarrow> vcap v = length xs)"

text \<open>The allocation is live, represented, and pointed at.\<close>

definition live :: "target \<Rightarrow> 'r st \<Rightarrow> header \<Rightarrow> heap_buffer \<Rightarrow> nat \<Rightarrow> view \<Rightarrow> bool" where
  "live t s h hb b v \<longleftrightarrow>
    blocks s b = Some (view_block t v) \<and> view_ok t v \<and> vkind v = h \<and>
    hptr hb = HeapPtr b (data_off t v)"

lemma live_intro:
  "heap_rep t H s \<Longrightarrow> H b = Some v \<Longrightarrow> buf_holds t h hb b v xs \<Longrightarrow> live t s h hb b v"
  by (auto simp: live_def buf_holds_def heap_rep_lookup heap_rep_ok)

lemma live_put_view [simp]: "live t s h hb b v \<Longrightarrow> view_ok t v' \<Longrightarrow> vkind v' = vkind v \<Longrightarrow>
    data_off t v' = data_off t v \<Longrightarrow> live t (put_view t b v' s) h hb b v'"
  by (simp add: live_def put_view_def)

lemma take_eq_length_le: "take (length xs) ys = map Some xs \<Longrightarrow> length xs \<le> length ys"
  by (metis length_map length_take min.cobounded1)

lemma buf_holds_le_cap: "buf_holds t h hb b v xs \<Longrightarrow> view_ok t v \<Longrightarrow> length xs \<le> vcap v"
  using take_eq_length_le by (fastforce simp: buf_holds_def view_ok_def)

lemma view_ok_cap: "view_ok t v \<Longrightarrow> vcap v \<le> Capacity_MAX t"
  by (simp add: view_ok_def fits_def)

lemma buf_holds_len_bounds:
  assumes "buf_holds t h hb b v xs" "view_ok t v"
  shows "length xs \<le> Capacity_MAX t" "length xs \<le> ISIZE_MAX t"
  using buf_holds_le_cap [OF assms] view_ok_cap [OF assms(2)] Capacity_MAX_ISIZE_MAX [of t] by linarith+

lemma Capacity_MAX_less: "n \<le> Capacity_MAX t \<Longrightarrow> n < 2 ^ USIZE_BITS t"
  using Capacity_MAX_ISIZE_MAX [of t] ISIZE_MAX_less_power [of t] by linarith

lemma data_off_le: "view_ok t v \<Longrightarrow> data_off t v + vcap v = buffer_size t (vkind v) (vcap v)"
  by (simp add: data_off_def buffer_size_def)

section \<open>Words of the header\<close>

lemma wp_read_usize_view:
  assumes "blocks s b = Some (view_block t v)" "view_ok t v" "USIZE_SIZE t dvd off"
    and "off + USIZE_SIZE t \<le> buffer_size t (vkind v) (vcap v)"
    and "window (view_bytes t v) off (USIZE_SIZE t) = map Some (to_ne_bytes t n)" "n < 2 ^ USIZE_BITS t"
  shows "wp (read_usize t (HeapPtr b off)) Q E P s = Q n s"
  using assms by (simp add: read_usize_def from_to_ne_bytes)

lemma wp_write_usize_view:
  assumes "blocks s b = Some (view_block t v)" "view_ok t v" "USIZE_SIZE t dvd off"
    and "off + USIZE_SIZE t \<le> buffer_size t (vkind v) (vcap v)"
    and "overwrite (view_bytes t v) off (map Some (to_ne_bytes t n)) = view_bytes t v'"
  shows "wp (write_usize t (HeapPtr b off) n) Q E P s = Q () (put_view t b v' s)"
  using assms by (simp add: write_usize_def put_view_def)

lemma wp_header_ptr:
  "live t s h hb b v \<Longrightarrow>
    wp (header_ptr t h hb) Q E P s = Q (HeapPtr b (prefix_len t (vcap v))) s"
  by (auto simp: live_def header_ptr_def data_off_def buffer_size_def)

lemma wp_count_load:
  "live t s h hb b v \<Longrightarrow> wp (count_load t h hb) Q E P s = Q (vcount v) s"
  unfolding count_load_def
  by (simp add: wp_header_ptr)
    (subst wp_read_usize_view [where v = v],
      auto simp: live_def view_count_window buffer_size_def view_ok_def [of t v]
        header_offset_cap_bytes simp del: length_cap_bytes)

lemma wp_heap_is_unique:
  "live t s h hb b v \<Longrightarrow> wp (heap_is_unique t h hb) Q E P s = Q (vcount v = 1) s"
  by (simp add: heap_is_unique_def wp_count_load)

lemma wp_assert_unique:
  "live t s h hb b v \<Longrightarrow> vcount v = 1 \<Longrightarrow>
    wp (debug_assert_run t (heap_is_unique t h hb)) Q E P s = Q () s"
  by (simp add: debug_assert_run_def wp_heap_is_unique)

lemma wp_write_count:
  "live t s h hb b v \<Longrightarrow>
    wp (write_usize t (HeapPtr b (prefix_len t (vcap v))) c) Q E P s =
      Q () (put_view t b (v\<lparr>vcount := c\<rparr>) s)"
  by (subst wp_write_usize_view [where v = v])
    (auto simp: live_def view_count_overwrite buffer_size_def header_offset_cap_bytes
      simp del: length_cap_bytes)

lemma wp_count_fetch_add:
  "live t s h hb b v \<Longrightarrow>
    wp (count_fetch_add t h hb) Q E P s =
      Q (vcount v) (put_view t b (v\<lparr>vcount := wrapping_add t (vcount v) 1\<rparr>) s)"
  using wp_count_load [of t s h hb b v, unfolded count_load_def]
  by (simp add: count_fetch_add_def wp_header_ptr wp_write_count)

lemma wp_count_fetch_sub:
  "live t s h hb b v \<Longrightarrow>
    wp (count_fetch_sub t h hb) Q E P s =
      Q (vcount v) (put_view t b (v\<lparr>vcount := wrapping_sub t (vcount v) 1\<rparr>) s)"
  using wp_count_load [of t s h hb b v, unfolded count_load_def]
  by (simp add: count_fetch_sub_def wp_header_ptr wp_write_count)

lemma wp_header_capacity:
  assumes "live t s GrowableHeader hb b v"
  shows "wp (header_capacity t hb) Q E P s = Q (vcap v) s"
proof -
  have b: "blocks s b = Some (view_block t v)" "view_ok t v" "vkind v = GrowableHeader"
    using assms by (simp_all add: live_def)
  then have "wp (read_usize t (HeapPtr b (prefix_len t (vcap v) + USIZE_SIZE t))) Q E P s = Q (vcap v) s"
    using Capacity_MAX_less [OF view_ok_cap [OF b(2)]]
    by (intro wp_read_usize_view [where v = v]) (simp_all add: buffer_size_def view_cap_window)
  with b assms show ?thesis by (simp add: header_capacity_def wp_header_ptr buffer_size_def)
qed

section \<open>Length and text\<close>

lemma wp_len_ptr:
  "live t s h hb b v \<Longrightarrow> is_len_heap_layout t (vcap v) \<Longrightarrow>
    wp (len_ptr t h (hptr hb)) Q E P s = Q (HeapPtr b 0) s"
  by (auto simp: live_def len_ptr_def data_off_def buffer_size_def prefix_len_def)

lemma TextLen_is_heap_buf:
  assumes "buf_holds t h hb b v xs" "view_ok t v"
  shows "TextLen_is_heap t (hlen hb) \<longleftrightarrow> MAX_LEN t < length xs"
  using assms TextLen_is_heap_text_len [OF buf_holds_len_bounds(1) [OF assms]]
  by (simp add: buf_holds_def)

lemma long_layout:
  "n \<le> vcap v \<Longrightarrow> view_ok t v \<Longrightarrow> MAX_LEN t < n \<Longrightarrow> is_len_heap_layout t (vcap v)"
  using view_ok_cap [of t v] by (simp add: is_len_heap_layout_iff)

lemma wp_heap_len:
  assumes L: "live t s h hb b v" and B: "buf_holds t h hb b v xs"
  shows "wp (heap_len t h hb) Q E P s = Q (length xs) s"
proof -
  have v: "view_ok t v" "blocks s b = Some (view_block t v)" using L by (simp_all add: live_def)
  note bounds = buf_holds_len_bounds [OF B v(1)]
  show ?thesis
  proof (cases "MAX_LEN t < length xs")
    case True
    with buf_holds_le_cap [OF B v(1)] v(1) have long: "is_len_heap_layout t (vcap v)"
      by (rule long_layout)
    from True B have "vprefix v = map Some (to_ne_bytes t (length xs))" by (simp add: buf_holds_def)
    then have "wp (read_usize t (HeapPtr b 0)) Q E P s = Q (length xs) s"
      using v long Capacity_MAX_less [OF bounds(1)]
      by (intro wp_read_usize_view [where v = v])
        (simp_all add: view_prefix_window buffer_size_def prefix_len_def)
    with True long L B v show ?thesis by (simp add: heap_len_def TextLen_is_heap_buf wp_len_ptr)
  next
    case False
    with B v show ?thesis
      by (simp add: heap_len_def TextLen_is_heap_buf [OF B v(1)])
        (simp add: buf_holds_def TextLen_as_usize_text_len)
  qed
qed

lemma wp_read_data:
  assumes "live t s h hb b v" "take n (drop i (vdata v)) = map Some ys" "length ys = n"
    and "i + n \<le> vcap v"
  shows "wp (read_bytes (HeapPtr b (data_off t v + i)) n) Q E P s = Q ys s"
proof -
  have v: "view_ok t v" "blocks s b = Some (view_block t v)" using assms(1) by (simp_all add: live_def)
  have "window (vdata v) i n = map Some ys" using assms(2) by (simp add: window_def)
  then have "window (view_bytes t v) (data_off t v + i) n = map Some ys"
    by (simp only: view_data_window [OF v(1)])
  with v assms(4) show ?thesis using data_off_le [OF v(1)] by auto
qed

lemma wp_heap_read:
  assumes L: "live t s h hb b v" and B: "buf_holds t h hb b v xs" and "n \<le> length xs"
  shows "wp (read_bytes (hptr hb) n) Q E P s = Q (take n xs) s"
proof -
  have v: "view_ok t v" using L by (simp add: live_def)
  have "take n (vdata v) = take n (take (length xs) (vdata v))" using assms(3) by simp
  also have "\<dots> = map Some (take n xs)" using B by (simp add: buf_holds_def take_map)
  finally have "wp (read_bytes (HeapPtr b (data_off t v + 0)) n) Q E P s = Q (take n xs) s"
    using assms buf_holds_le_cap [OF B v] by (intro wp_read_data [OF L]) simp_all
  with B show ?thesis by (simp add: buf_holds_def)
qed

lemma wp_from_utf8_unchecked [simp]:
  "wp (from_utf8_unchecked bs) Q E P s = (valid_utf8 bs \<and> Q bs s)"
  by (simp add: from_utf8_unchecked_def)

lemma wp_heap_as_str:
  "live t s h hb b v \<Longrightarrow> buf_holds t h hb b v xs \<Longrightarrow> valid_utf8 xs \<Longrightarrow>
    wp (heap_as_str t h hb) Q E P s = Q xs s"
  by (simp add: heap_as_str_def wp_heap_len wp_heap_read)

section \<open>Giving memory back\<close>

lemma wp_has_len_prefix:
  assumes L: "live t s h hb b v" and B: "buf_holds t h hb b v xs"
  shows "wp (has_len_prefix t h hb) Q E P s = Q (is_len_heap_layout t (vcap v)) s"
proof (cases h)
  case GrowableHeader
  with L show ?thesis by (simp add: wp_header_capacity)
next
  case ExactHeader
  have v: "view_ok t v" using L by (simp add: live_def)
  from ExactHeader B have "vcap v = length xs" by (simp add: buf_holds_def)
  with ExactHeader show ?thesis
    using view_ok_cap [OF v] by (simp add: TextLen_is_heap_buf [OF B v] is_len_heap_layout_iff)
qed

lemma wp_allocation:
  assumes L: "live t s h hb b v" and B: "buf_holds t h hb b v xs"
  shows "wp (allocation t h hb) Q E P s = Q (HeapPtr b 0) s"
proof (cases "is_len_heap_layout t (vcap v)")
  case True
  with assms show ?thesis by (simp add: allocation_def wp_has_len_prefix wp_len_ptr)
next
  case False
  with assms show ?thesis
    using wp_header_ptr [OF L, unfolded header_ptr_def]
    by (simp add: allocation_def wp_has_len_prefix prefix_len_def)
qed

lemma layout_for_view:
  "view_ok t v \<Longrightarrow> layout_for t (vkind v) (vcap v) =
    Inr \<lparr>layout_size = buffer_size t (vkind v) (vcap v), layout_align = USIZE_SIZE t\<rparr>"
  using layout_for_eq [OF view_ok_cap, of t v "vkind v"] by (simp add: view_ok_def)

lemma wp_header_layout:
  assumes L: "live t s h hb b v" and B: "buf_holds t h hb b v xs"
  shows "wp (header_layout t h hb) Q E P s =
    Q (Inr \<lparr>layout_size = buffer_size t h (vcap v), layout_align = USIZE_SIZE t\<rparr>) s"
proof -
  have v: "view_ok t v" "vkind v = h" using L by (simp_all add: live_def)
  show ?thesis
  proof (cases h)
    case GrowableHeader
    with L v show ?thesis using layout_for_view [OF v(1)] by (simp add: wp_header_capacity)
  next
    case ExactHeader
    with B have "vcap v = length xs" by (simp add: buf_holds_def)
    with ExactHeader L B v show ?thesis
      using layout_for_view [OF v(1)] view_ok_cap [OF v(1)] by (simp add: wp_heap_len)
  qed
qed

lemma wp_alloc_layout:
  "live t s h hb b v \<Longrightarrow> buf_holds t h hb b v xs \<Longrightarrow>
    wp (alloc_layout t h hb) Q E P s =
      Q \<lparr>layout_size = buffer_size t h (vcap v), layout_align = USIZE_SIZE t\<rparr> s"
  by (simp add: alloc_layout_def wp_header_layout)

lemma wp_heap_dealloc:
  assumes L: "live t s h hb b v" and B: "buf_holds t h hb b v xs"
  shows "wp (heap_dealloc t h hb) Q E P s = Q () (s\<lparr>blocks := (blocks s)(b := None)\<rparr>)"
proof -
  have "blocks s b = Some (view_block t v)" "view_ok t v" "vkind v = h" using L by (simp_all add: live_def)
  then show ?thesis using assms by (simp add: heap_dealloc_def wp_allocation wp_alloc_layout)
qed

lemma wp_release:
  assumes L: "live t s h hb b v" and B: "buf_holds t h hb b v xs"
  shows "wp (release t h hb) Q E P s =
    (if vcount v = 1 then Q () (s\<lparr>blocks := (blocks s)(b := None)\<rparr>)
     else Q () (put_view t b (v\<lparr>vcount := wrapping_sub t (vcount v) 1\<rparr>) s))"
proof (cases "vcount v = 1")
  case True
  let ?v = "v\<lparr>vcount := 0\<rparr>"
  have "live t (put_view t b ?v s) h hb b ?v" "buf_holds t h hb b ?v xs"
    using L B by (simp_all add: live_def put_view_def buf_holds_def)
  with True L show ?thesis
    by (simp add: release_def wp_count_fetch_sub wrapping_sub_def wp_heap_dealloc [of _ _ _ _ _ ?v xs])
      (simp add: put_view_def)
next
  case False
  with L show ?thesis by (simp add: release_def wp_count_fetch_sub)
qed

section \<open>Setting the length\<close>

definition with_len :: "target \<Rightarrow> nat \<Rightarrow> view \<Rightarrow> view" where
  "with_len t n v =
    (if MAX_LEN t < n then v\<lparr>vprefix := map Some (to_ne_bytes t n)\<rparr> else v)"

lemma with_len_sel [simp]:
  "vkind (with_len t n v) = vkind v" "vcount (with_len t n v) = vcount v"
  "vcap (with_len t n v) = vcap v" "vdata (with_len t n v) = vdata v"
  "data_off t (with_len t n v) = data_off t v"
  by (simp_all add: with_len_def)

lemma with_len_prefix: "MAX_LEN t < n \<Longrightarrow> vprefix (with_len t n v) = map Some (to_ne_bytes t n)"
  by (simp add: with_len_def)

lemma view_ok_with_len: "view_ok t v \<Longrightarrow> n \<le> vcap v \<Longrightarrow> view_ok t (with_len t n v)"
  using long_layout [of n v t] by (auto simp: with_len_def prefix_len_def)

lemma wp_write_len:
  assumes L: "live t s h hb b v" and n: "n \<le> vcap v" "MAX_LEN t < n"
  shows "wp (write_usize t (HeapPtr b 0) n) Q E P s = Q () (put_view t b (with_len t n v) s)"
proof -
  have v: "blocks s b = Some (view_block t v)" "view_ok t v" using L by (simp_all add: live_def)
  with n have "is_len_heap_layout t (vcap v)" by (simp add: long_layout)
  with v n show ?thesis
    by (intro wp_write_usize_view [where v = v])
      (simp_all add: view_prefix_overwrite with_len_def buffer_size_def prefix_len_def)
qed

lemma put_view_same: "blocks s b = Some (view_block t v) \<Longrightarrow> put_view t b v s = s"
  by (simp add: put_view_def fun_upd_idem)

lemma wp_heap_set_len:
  assumes L: "live t s GrowableHeader hb b v" and n: "n \<le> vcap v"
    and u: "MAX_LEN t < n \<Longrightarrow> vcount v = 1"
  shows "wp (heap_set_len t hb n) Q E P s =
    Q (hb\<lparr>hlen := text_len t n\<rparr>) (put_view t b (with_len t n v) s)"
proof -
  have v: "blocks s b = Some (view_block t v)" "view_ok t v" using L by (simp_all add: live_def)
  have len: "n \<le> Capacity_MAX t" using n view_ok_cap [OF v(2)] by simp
  show ?thesis
  proof (cases "MAX_LEN t < n")
    case True
    with L v n u len show ?thesis
      by (simp add: heap_set_len_def debug_assert_run_def TextLen_new_ok TextLen_is_heap_text_len
          wp_header_capacity heap_capacity_def wp_heap_is_unique wp_len_ptr long_layout wp_write_len)
  next
    case False
    with L v n len show ?thesis
      by (simp add: heap_set_len_def debug_assert_run_def TextLen_new_ok TextLen_is_heap_text_len
          wp_header_capacity heap_capacity_def with_len_def put_view_same)
  qed
qed

end
