(* ===== verification/HeapAlloc.thy ===== *)
theory HeapAlloc
  imports HeapOps
begin

text \<open>
  Allocation: every constructor of \<open>HeapBuffer\<close> is an equation for \<open>wp\<close> with three cases, the
  capacity that does not fit, the allocator that refuses, and a fresh block that holds the text
  with a reference count of 1.
\<close>

section \<open>A fresh block\<close>

lemma st_update_order [simp]:
  "s\<lparr>next_id := i, calls := c, blocks := m\<rparr> = s\<lparr>blocks := m, next_id := i, calls := c\<rparr>"
  by simp

definition new_view :: "target \<Rightarrow> header \<Rightarrow> nat \<Rightarrow> byte list \<Rightarrow> view" where
  "new_view t h capacity xs =
    with_len t (length xs)
      \<lparr>vkind = h, vprefix = replicate (prefix_len t capacity) None, vcount = 1, vcap = capacity,
       vdata = map Some xs @ replicate (capacity - length xs) None\<rparr>"

definition add_view :: "target \<Rightarrow> view \<Rightarrow> 'r st \<Rightarrow> 'r st" where
  "add_view t v s = s\<lparr>blocks := (blocks s)(next_id s \<mapsto> view_block t v),
    next_id := Suc (next_id s), calls := Suc (calls s)\<rparr>"

text \<open>The handle of such a block.\<close>

definition new_buf :: "target \<Rightarrow> header \<Rightarrow> nat \<Rightarrow> byte list \<Rightarrow> 'r st \<Rightarrow> heap_buffer" where
  "new_buf t h capacity xs s =
    \<lparr>hptr = HeapPtr (next_id s) (prefix_len t capacity + header_offset t h),
     hlen = text_len t (length xs)\<rparr>"

lemma new_view_sel [simp]:
  "vkind (new_view t h c xs) = h" "vcount (new_view t h c xs) = 1" "vcap (new_view t h c xs) = c"
  "vdata (new_view t h c xs) = map Some xs @ replicate (c - length xs) None"
  "data_off t (new_view t h c xs) = prefix_len t c + header_offset t h"
  by (simp_all add: new_view_def data_off_def)

lemma view_ok_new_view [simp]:
  "fits t h c \<Longrightarrow> length xs \<le> c \<Longrightarrow> view_ok t (new_view t h c xs)"
  using ISIZE_MAX_less_power [of t]
  unfolding new_view_def by (intro view_ok_with_len) (simp_all add: view_ok_def)

lemma buf_holds_new_view:
  "length xs \<le> c \<Longrightarrow> (h = ExactHeader \<Longrightarrow> c = length xs) \<Longrightarrow>
    buf_holds t h (new_buf t h c xs s) (next_id s) (new_view t h c xs) xs"
  by (auto simp: buf_holds_def new_buf_def) (simp add: new_view_def with_len_prefix)

lemma heap_rep_add_view:
  "heap_rep t H s \<Longrightarrow> view_ok t v \<Longrightarrow> heap_rep t (H(next_id s \<mapsto> v)) (add_view t v s)"
  by (auto simp: heap_rep_def add_view_def less_Suc_eq)

lemma mem_only_add_view [simp]: "mem_only s (add_view t v s)"
  by (simp add: mem_only_def add_view_def)

lemma live_add_view:
  "view_ok t v \<Longrightarrow> vkind v = h \<Longrightarrow> hptr hb = HeapPtr (next_id s) (data_off t v) \<Longrightarrow>
    live t (add_view t v s) h hb (next_id s) v"
  by (simp add: live_def add_view_def)

lemma put_view_add_view [simp]:
  "put_view t (next_id s) v' (add_view t v s) = add_view t v' s"
  by (simp add: put_view_def add_view_def)

section \<open>Writing a header\<close>

definition header_bytes :: "target \<Rightarrow> view \<Rightarrow> byte option list" where
  "header_bytes t v = map Some (to_ne_bytes t (vcount v)) @ cap_bytes t v"

lemma view_bytes_header: "view_bytes t v = vprefix v @ header_bytes t v @ vdata v"
  by (simp add: view_bytes_def header_bytes_def)

lemma length_header_bytes [simp]: "length (header_bytes t v) = header_offset t (vkind v)"
  by (simp add: header_bytes_def)

lemma header_new_bytes:
  "vcount v = 1 \<Longrightarrow> vkind v = h \<Longrightarrow> vcap v = c \<Longrightarrow> map Some (header_new t h c) = header_bytes t v"
  by (cases h) (auto simp: header_bytes_def cap_bytes_def)

lemma wp_write_header:
  assumes "blocks s b = Some blk" "off + header_offset t h \<le> length (contents blk)"
    and "USIZE_SIZE t dvd off" "USIZE_SIZE t dvd alignment blk"
  shows "wp (write_header t h (HeapPtr b off) c) Q E P s =
    Q () (s\<lparr>blocks := (blocks s)(b \<mapsto>
      blk\<lparr>contents := overwrite (contents blk) off (map Some (header_new t h c))\<rparr>)\<rparr>)"
  using assms by (simp add: write_header_def)

lemma overwrite_replicate:
  "m + length ys \<le> n \<Longrightarrow>
    overwrite (replicate n x) m ys = replicate m x @ ys @ replicate (n - m - length ys) x"
  by (simp add: overwrite_def)

lemma fresh_header:
  "overwrite (replicate (buffer_size t h c) None) (prefix_len t c) (map Some (header_new t h c)) =
    view_bytes t (new_view t h c [])"
  by (simp add: overwrite_replicate buffer_size_def view_bytes_header header_new_bytes)
    (simp add: new_view_def with_len_def)

text \<open>Stepping over the length word, which only a long buffer of a 32-bit target has.\<close>

lemma wp_skip_prefix:
  "blocks s b = Some blk \<Longrightarrow> prefix_len t c \<le> length (contents blk) \<Longrightarrow>
    wp (if is_len_heap_layout t c then ptr_add (HeapPtr b 0) (USIZE_SIZE t) else ret (HeapPtr b 0)) Q E P s
      = Q (HeapPtr b (prefix_len t c)) s"
  by (cases "is_len_heap_layout t c") (simp_all add: prefix_len_def)

lemma wp_allocate_ptr:
  "wp (allocate_ptr t h c) Q E P s =
    (if \<not> fits t h c then E s
     else if oom s (calls s) then E (s\<lparr>calls := Suc (calls s)\<rparr>)
     else Q (HeapPtr (next_id s) (prefix_len t c + header_offset t h))
       (add_view t (new_view t h c []) s))"
proof -
  consider "\<not> fits t h c" | "fits t h c" "oom s (calls s)" | "fits t h c" "\<not> oom s (calls s)"
    by blast
  then show ?thesis
  proof cases
    case 1
    then show ?thesis
      by (cases "c \<le> Capacity_MAX t") (simp_all add: allocate_ptr_def layout_for_eq)
  next
    case 2
    with fits_cap [OF 2(1)] show ?thesis by (simp add: allocate_ptr_def layout_for_eq)
  next
    case 3
    have le: "prefix_len t c \<le> buffer_size t h c"
      "prefix_len t c + header_offset t h \<le> buffer_size t h c"
      by (simp_all add: buffer_size_def)
    show ?thesis
      using 3 fits_cap [OF 3(1)] le
      by (simp add: allocate_ptr_def layout_for_eq wp_skip_prefix wp_write_header fresh_header
          del: wp_if)
        (simp add: add_view_def view_block_def)
  qed
qed

section \<open>Constructors\<close>

lemma wp_copy_from:
  assumes L: "live t s h hb b v" and "i + n \<le> length text" "j + n \<le> vcap v"
  shows "wp (copy_from text i (hptr hb) j n) Q E P s =
    Q () (put_view t b (v\<lparr>vdata := overwrite (vdata v) j (map Some (window text i n))\<rparr>) s)"
proof -
  have v: "blocks s b = Some (view_block t v)" "view_ok t v" "hptr hb = HeapPtr b (data_off t v)"
    using L by (simp_all add: live_def)
  then show ?thesis
    using assms(2,3) data_off_le [OF v(2)]
    by (simp add: copy_from_def add.assoc view_data_overwrite put_view_def)
qed

lemma wp_new_uninit:
  "wp (new_uninit t h n) Q E P s =
    (if \<not> fits t h n then E s
     else if oom s (calls s) then E (s\<lparr>calls := Suc (calls s)\<rparr>)
     else Q \<lparr>hptr = HeapPtr (next_id s) (prefix_len t n + header_offset t h), hlen = text_len t n\<rparr>
       (add_view t (with_len t n (new_view t h n [])) s))"
proof (cases "fits t h n")
  case False
  then show ?thesis
    by (cases "TextLen_new t n") (simp_all add: new_uninit_def wp_allocate_ptr)
next
  case True
  let ?s = "add_view t (new_view t h n []) s"
  let ?hb = "\<lparr>hptr = HeapPtr (next_id s) (prefix_len t n + header_offset t h), hlen = text_len t n\<rparr>"
  have ok: "view_ok t (new_view t h n [])" using True by simp
  have L: "live t ?s h ?hb (next_id s) (new_view t h n [])" by (rule live_add_view) (simp_all add: ok)
  have len: "wp (bind (len_ptr t h (hptr ?hb)) (\<lambda>p. write_usize t p n)) Q' E P ?s =
      Q' () (add_view t (with_len t n (new_view t h n [])) s)" if "MAX_LEN t < n" for Q'
    using that L long_layout [OF _ ok that]
    by (simp only: wp_bind wp_len_ptr [OF L] new_view_sel order.refl)
      (simp add: wp_write_len [OF L])
  show ?thesis
    using True fits_cap [OF True] len
    by (cases "MAX_LEN t < n")
      (simp_all add: new_uninit_def wp_allocate_ptr TextLen_new_ok TextLen_is_heap_text_len with_len_def)
qed

text \<open>Two copies of \<open>N\<close> bytes from either end cover a text of \<open>N\<close> to \<open>2 * N\<close> bytes.\<close>

lemma two_ended_copy:
  assumes "N \<le> length xs" "length xs \<le> 2 * N" "length ys = length xs"
  shows "overwrite (overwrite ys 0 (map f (window xs 0 N))) (length xs - N)
    (map f (window xs (length xs - N) N)) = map f xs"
  using assms by (simp add: overwrite_def window_def take_map min_absorb1 flip: map_append)

lemma new_view_fill:
  "(with_len t (length xs) (new_view t h (length xs) []))\<lparr>vdata := map Some xs\<rparr> =
    new_view t h (length xs) xs"
  by (simp add: new_view_def with_len_def)

lemma wp_heap_new:
  "wp (heap_new t h xs) Q E P s =
    (if \<not> fits t h (length xs) then E s
     else if oom s (calls s) then E (s\<lparr>calls := Suc (calls s)\<rparr>)
     else Q (new_buf t h (length xs) xs s) (add_view t (new_view t h (length xs) xs) s))"
proof -
  consider "\<not> fits t h (length xs)" | "oom s (calls s)"
    | "fits t h (length xs)" "\<not> oom s (calls s)" by blast
  then show ?thesis
  proof cases
    case 3
    let ?n = "length xs" and ?N = "MAX_INLINE_SIZE t"
    let ?v = "with_len t ?n (new_view t h ?n [])"
    let ?hb = "new_buf t h ?n xs s"
    have ok: "view_ok t (?v\<lparr>vdata := d\<rparr>)" if "length d = ?n" for d
      using 3 that by (simp add: view_ok_with_len)
    have L: "live t (add_view t (?v\<lparr>vdata := d\<rparr>) s) h ?hb (next_id s) (?v\<lparr>vdata := d\<rparr>)"
      if "length d = ?n" for d
      by (rule live_add_view [OF ok]) (simp_all add: that new_buf_def)
    have c: "wp (copy_from xs i (hptr ?hb) i k) Q' E P (add_view t (?v\<lparr>vdata := d\<rparr>) s) =
        Q' () (add_view t (?v\<lparr>vdata := overwrite d i (map Some (window xs i k))\<rparr>) s)"
      if "length d = ?n" "i + k \<le> ?n" for d i k Q'
      using that by (simp add: wp_copy_from [OF L])
    have d0: "?v = ?v\<lparr>vdata := replicate ?n None\<rparr>" by (simp add: new_view_def with_len_def)
    have whole: "overwrite (replicate ?n None) 0 (map Some (window xs 0 ?n)) = map Some xs"
      by (simp add: window_all overwrite_all)
    have c0: "wp (copy_from xs i (hptr ?hb) i k) Q' E P (add_view t ?v s) =
        Q' () (add_view t (?v\<lparr>vdata := overwrite (replicate ?n None) i (map Some (window xs i k))\<rparr>) s)"
      if "i + k \<le> ?n" for i k Q'
      using that by (subst d0, subst c) simp_all
    have two: "wp (bind (copy_from xs 0 (hptr ?hb) 0 k) (\<lambda>_. copy_from xs (?n - k) (hptr ?hb) (?n - k) k))
        Q' E P (add_view t ?v s) = Q' () (add_view t (?v\<lparr>vdata := map Some xs\<rparr>) s)"
      if "k \<le> ?n" "?n \<le> 2 * k" for k Q'
      using that by (simp add: c0 c two_ended_copy)
    have hb: "\<lparr>hptr = HeapPtr (next_id s) (prefix_len t ?n + header_offset t h), hlen = text_len t ?n\<rparr> = ?hb"
      by (simp add: new_buf_def)
    consider "\<not> (?N \<le> ?n \<and> ?n \<le> 4 * ?N)" | "2 * ?N \<le> ?n" "?n \<le> 4 * ?N" | "?N \<le> ?n" "?n < 2 * ?N"
      by linarith
    then have "wp (heap_new t h xs) Q E P s = Q ?hb (add_view t (?v\<lparr>vdata := map Some xs\<rparr>) s)"
    proof cases
      case 1
      with 3 show ?thesis by (simp add: heap_new_def Let_def wp_new_uninit hb c0 whole)
    next
      case 2
      with 3 two [of "2 * ?N"] show ?thesis
        by (simp add: heap_new_def Let_def wp_new_uninit hb)
    next
      case 3
      with \<open>fits t h ?n\<close> \<open>\<not> oom s (calls s)\<close> two [of ?N] show ?thesis
        by (simp add: heap_new_def Let_def wp_new_uninit hb)
    qed
    then show ?thesis using 3 by (simp add: new_view_fill)
  qed (simp_all add: heap_new_def wp_new_uninit Let_def)
qed

lemma wp_heap_with_capacity:
  "wp (heap_with_capacity t c) Q E P s =
    (if \<not> fits t GrowableHeader c then E s
     else if oom s (calls s) then E (s\<lparr>calls := Suc (calls s)\<rparr>)
     else Q (new_buf t GrowableHeader c [] s) (add_view t (new_view t GrowableHeader c []) s))"
  by (simp add: heap_with_capacity_def TextLen_new_ok wp_allocate_ptr new_buf_def)

lemma new_view_fill_prefix:
  "length xs \<le> c \<Longrightarrow>
    with_len t (length xs)
      ((new_view t h c [])\<lparr>vdata := overwrite (replicate c None) 0 (map Some xs)\<rparr>) =
    new_view t h c xs"
  by (simp add: new_view_def with_len_def overwrite_def)

lemma wp_from_str_with_capacity:
  assumes "length xs \<le> c"
  shows "wp (from_str_with_capacity t xs c) Q E P s =
    (if \<not> fits t GrowableHeader c then E s
     else if oom s (calls s) then E (s\<lparr>calls := Suc (calls s)\<rparr>)
     else Q (new_buf t GrowableHeader c xs s) (add_view t (new_view t GrowableHeader c xs) s))"
proof -
  consider "\<not> fits t GrowableHeader c" | "oom s (calls s)"
    | "fits t GrowableHeader c" "\<not> oom s (calls s)" by blast
  then show ?thesis
  proof cases
    case 3
    let ?v = "new_view t GrowableHeader c []" and ?hb = "new_buf t GrowableHeader c [] s"
    let ?v' = "?v\<lparr>vdata := overwrite (replicate c None) 0 (map Some xs)\<rparr>"
    have ok: "view_ok t ?v" using 3 by simp
    have L: "live t (add_view t ?v s) GrowableHeader ?hb (next_id s) ?v"
      by (rule live_add_view [OF ok]) (simp_all add: new_buf_def)
    have L': "live t (add_view t ?v' s) GrowableHeader ?hb (next_id s) ?v'"
      using assms ok by (intro live_add_view) (simp_all add: new_buf_def)
    have "?hb\<lparr>hlen := text_len t (length xs)\<rparr> = new_buf t GrowableHeader c xs s"
      by (simp add: new_buf_def)
    with 3 assms show ?thesis
      using new_view_fill_prefix [OF assms, of t GrowableHeader]
      by (simp add: from_str_with_capacity_def wp_heap_with_capacity wp_copy_from [OF L]
          wp_heap_set_len [OF L'] window_all)
  qed (use assms in \<open>simp_all add: from_str_with_capacity_def wp_heap_with_capacity\<close>)
qed

end
