(* ===== verification/HeapMove.thy ===== *)
theory HeapMove
  imports HeapAlloc
begin

text \<open>
  The operations that move a live buffer to another block: \<^verbatim>\<open>realloc\<close>, and the
  conversions between a growable and an exact header. Each keeps the text; when the allocator
  refuses, the old block is still there and still holds the text, also after the conversion to an
  exact header has already moved the bytes in place.
\<close>

section \<open>The moved block\<close>

definition move_view :: "target \<Rightarrow> nat \<Rightarrow> view \<Rightarrow> 'r st \<Rightarrow> 'r st" where
  "move_view t b v s = s\<lparr>blocks := (blocks s)(b := None, next_id s \<mapsto> view_block t v),
    next_id := Suc (next_id s), calls := Suc (calls s)\<rparr>"

lemma heap_rep_move_view:
  "heap_rep t H s \<Longrightarrow> view_ok t v \<Longrightarrow>
    heap_rep t (H(b := None, next_id s \<mapsto> v)) (move_view t b v s)"
  by (auto simp: heap_rep_def move_view_def less_Suc_eq)

lemma mem_only_move_view [simp]: "mem_only s (move_view t b v s)"
  by (simp add: mem_only_def move_view_def)

lemma live_move_view:
  "view_ok t v \<Longrightarrow> vkind v = h \<Longrightarrow> hptr hb = HeapPtr (next_id s) (data_off t v) \<Longrightarrow>
    live t (move_view t b v s) h hb (next_id s) v"
  by (simp add: live_def move_view_def)

lemma add_view_remove:
  "b \<noteq> next_id s \<Longrightarrow>
    (add_view t v s)\<lparr>blocks := (blocks (add_view t v s))(b := None)\<rparr> = move_view t b v s"
  by (simp add: add_view_def move_view_def fun_upd_twist)

section \<open>Reallocation\<close>

text \<open>The view of a growable block after its capacity changes.\<close>

definition resized :: "nat \<Rightarrow> view \<Rightarrow> view" where
  "resized c v = v\<lparr>vcap := c, vdata := take c (vdata v) @ replicate (c - vcap v) None\<rparr>"

lemma resized_bytes:
  assumes "view_ok t v" "vkind v = GrowableHeader" "vcount v = 1"
    and "prefix_len t c = prefix_len t (vcap v)"
  shows "overwrite (take (buffer_size t GrowableHeader c) (view_bytes t v) @
      replicate (buffer_size t GrowableHeader c - buffer_size t GrowableHeader (vcap v)) None)
      (prefix_len t c) (map Some (header_new t GrowableHeader c)) = view_bytes t (resized c v)"
proof -
  have len: "length (vprefix v) = prefix_len t c" "length (vdata v) = vcap v"
    using assms by (simp_all add: view_ok_def)
  have "take (buffer_size t GrowableHeader c) (view_bytes t v) =
      vprefix v @ header_bytes t v @ take c (vdata v)"
    using assms(2) len by (simp add: view_bytes_header buffer_size_def)
  then show ?thesis
    using assms len
    by (simp add: view_bytes_header buffer_size_def overwrite_append_right overwrite_append_left
        overwrite_all header_new_bytes resized_def)
      (simp add: header_bytes_def cap_bytes_def)
qed

lemma view_ok_resized:
  "view_ok t v \<Longrightarrow> fits t (vkind v) c \<Longrightarrow> prefix_len t c = prefix_len t (vcap v) \<Longrightarrow>
    view_ok t (resized c v)"
  by (simp add: view_ok_def resized_def)

lemma wp_new_alloc_size:
  "c \<le> Capacity_MAX t \<Longrightarrow>
    wp (new_alloc_size t (is_len_heap_layout t c) c) Q E P s =
      (if fits t GrowableHeader c then Q (buffer_size t GrowableHeader c) s else E s)"
  by (cases "pointer_width t"; cases "is_len_heap_layout t c")
    (auto simp: new_alloc_size_def fits_def buffer_size_def prefix_len_def ALLOC_LIMIT_def
      buffer_align_def saturating_add_def wrapping_add_def Let_def target_numbers_32 target_numbers_64
      Capacity_MAX_numeral is_len_heap_layout_def)

lemma prefix_len_eq_iff:
  "prefix_len t c = prefix_len t c' \<longleftrightarrow> is_len_heap_layout t c = is_len_heap_layout t c'"
  by (simp add: prefix_len_def)

definition realloc_view :: "target \<Rightarrow> nat \<Rightarrow> byte list \<Rightarrow> view \<Rightarrow> view" where
  "realloc_view t c xs v =
    (if prefix_len t c = prefix_len t (vcap v) then resized c v else new_view t GrowableHeader c xs)"

lemma realloc_view_sel [simp]:
  "vcap (realloc_view t c xs v) = c"
  "vkind v = GrowableHeader \<Longrightarrow> vkind (realloc_view t c xs v) = GrowableHeader"
  "vcount v = 1 \<Longrightarrow> vcount (realloc_view t c xs v) = 1"
  by (simp_all add: realloc_view_def resized_def)

lemma view_ok_realloc_view:
  "view_ok t v \<Longrightarrow> vkind v = GrowableHeader \<Longrightarrow> fits t GrowableHeader c \<Longrightarrow> length xs \<le> c \<Longrightarrow>
    view_ok t (realloc_view t c xs v)"
  by (simp add: realloc_view_def view_ok_resized)

lemma buf_holds_realloc_view:
  assumes B: "buf_holds t GrowableHeader hb b v xs" and "view_ok t v" and c: "length xs \<le> c"
  shows "buf_holds t GrowableHeader (new_buf t GrowableHeader c xs s) (next_id s)
    (realloc_view t c xs v) xs"
proof (cases "prefix_len t c = prefix_len t (vcap v)")
  case True
  moreover have "take (length xs) (take c (vdata v)) = map Some xs"
    using B c by (simp add: buf_holds_def min_absorb1)
  moreover have "length xs \<le> length (take c (vdata v))"
    using take_eq_length_le [OF calculation(2)] .
  ultimately show ?thesis
    using B by (simp add: realloc_view_def resized_def buf_holds_def new_buf_def data_off_def)
next
  case False
  with buf_holds_new_view [OF c, of GrowableHeader t s] show ?thesis
    by (simp add: realloc_view_def)
qed

lemma wp_heap_realloc:
  assumes L: "live t s GrowableHeader hb b v" and B: "buf_holds t GrowableHeader hb b v xs"
    and xs: "valid_utf8 xs" "length xs \<le> c" and one: "vcount v = 1" and fresh: "b \<noteq> next_id s"
  shows "wp (heap_realloc t hb c) Q E P s =
    (if \<not> fits t GrowableHeader c then E s
     else if oom s (calls s) then E (s\<lparr>calls := Suc (calls s)\<rparr>)
     else Q (new_buf t GrowableHeader c xs s) (move_view t b (realloc_view t c xs v) s))"
proof -
  have v: "blocks s b = Some (view_block t v)" "view_ok t v" "vkind v = GrowableHeader"
    using L by (simp_all add: live_def)
  note rules = heap_realloc_def debug_assert_run_def wp_heap_is_unique [OF L] wp_heap_len [OF L B]
    wp_header_capacity [OF L] wp_alloc_layout [OF L B] wp_heap_as_str [OF L B xs(1)]
    wp_allocation [OF L B] wp_from_str_with_capacity [OF xs(2)] Let_def
  show ?thesis
  proof (cases "is_len_heap_layout t (vcap v) = is_len_heap_layout t c")
    case True
    then have p: "prefix_len t c = prefix_len t (vcap v)" by (simp add: prefix_len_eq_iff)
    have hb: "hb\<lparr>hptr := HeapPtr (next_id s) (prefix_len t c + 2 * USIZE_SIZE t)\<rparr> =
        new_buf t GrowableHeader c xs s"
      using B by (simp add: new_buf_def buf_holds_def)
    have le: "prefix_len t c \<le> buffer_size t GrowableHeader c"
      "prefix_len t c + 2 * USIZE_SIZE t \<le> buffer_size t GrowableHeader c"
      by (simp_all add: buffer_size_def)
    consider "\<not> c \<le> Capacity_MAX t" | "c \<le> Capacity_MAX t" "\<not> fits t GrowableHeader c"
      | "fits t GrowableHeader c" "c \<le> Capacity_MAX t"
      using fits_cap by blast
    then show ?thesis
    proof cases
      case 1
      then have "\<not> fits t GrowableHeader c" by (simp add: fits_def)
      with 1 one xs show ?thesis by (simp add: rules)
    next
      case 2
      with True one xs show ?thesis by (simp add: rules wp_new_alloc_size)
    next
      case 3
      have sz: "min a b + (b - a) = (b :: nat)" for a b by simp
      have lim: "buffer_size t GrowableHeader c \<le> Suc (ISIZE_MAX t) - USIZE_SIZE t"
        using 3 by (simp add: fits_def)
      have len: "length (view_bytes t (resized c v)) = buffer_size t GrowableHeader c"
        using length_view_bytes [OF view_ok_resized [OF v(2) _ p]] 3 v(3) by (simp add: resized_def)
      show ?thesis
        using 3 True one xs v le lim len
        by (simp add: rules wp_new_alloc_size wp_skip_prefix wp_write_header resized_bytes hb sz
            realloc_view_def p [symmetric] del: wp_if header_new.simps)
          (simp add: move_view_def)
    qed
  next
    case False
    then have p: "prefix_len t c \<noteq> prefix_len t (vcap v)" by (simp add: prefix_len_eq_iff)
    have L': "live t (add_view t w s) GrowableHeader hb b v" for w
      using L fresh by (simp add: live_def add_view_def)
    from False one xs p show ?thesis
      by (simp add: rules wp_heap_dealloc [OF L' B] realloc_view_def add_view_remove [OF fresh]
          fits_def)
  qed
qed

section \<open>Rewriting the head of a block\<close>

definition prefix_bytes :: "target \<Rightarrow> nat \<Rightarrow> nat \<Rightarrow> byte option list" where
  "prefix_bytes t c n = (if 0 < prefix_len t c then map Some (to_ne_bytes t n) else [])"

lemma prefix_len_nonzero: "0 < prefix_len t c \<longleftrightarrow> is_len_heap_layout t c"
  by (simp add: prefix_len_def)

lemma length_prefix_bytes [simp]: "length (prefix_bytes t c n) = prefix_len t c"
  by (simp add: prefix_bytes_def prefix_len_def)

lemma wp_write_prefix:
  assumes "blocks s b = Some blk" "prefix_len t c \<le> length (contents blk)"
    and "USIZE_SIZE t dvd alignment blk"
  shows "wp (if 0 < prefix_len t c then write_usize t (HeapPtr b 0) n else ret ()) Q E P s =
    Q () (s\<lparr>blocks := (blocks s)(b \<mapsto>
      blk\<lparr>contents := overwrite (contents blk) 0 (prefix_bytes t c n)\<rparr>)\<rparr>)"
  using assms
  by (cases "is_len_heap_layout t c")
    (simp_all add: prefix_bytes_def prefix_len_def write_usize_def fun_upd_idem)

lemma rewrite_head:
  "length ys = a \<Longrightarrow> a + length zs \<le> length xs \<Longrightarrow>
    overwrite (overwrite xs 0 ys) a zs = ys @ zs @ drop (a + length zs) xs"
  by (simp add: overwrite_def add.commute)

lemma new_view_bytes:
  assumes "length xs \<le> Capacity_MAX t"
  shows "view_bytes t (new_view t h (length xs) xs) =
    prefix_bytes t (length xs) (length xs) @ map Some (header_new t h (length xs)) @ map Some xs"
proof -
  have "vprefix (new_view t h (length xs) xs) = prefix_bytes t (length xs) (length xs)"
    using is_len_heap_layout_iff [OF assms]
    by (simp add: new_view_def with_len_def prefix_bytes_def prefix_len_nonzero)
      (simp add: prefix_len_def)
  then show ?thesis
    using header_new_bytes [of "new_view t h (length xs) xs" h "length xs" t]
    by (simp add: view_bytes_header del: header_new.simps)
qed

section \<open>Growable to exact\<close>

lemma fits_exact: "fits t GrowableHeader c \<Longrightarrow> n \<le> c \<Longrightarrow> fits t ExactHeader n"
  by (cases "pointer_width t")
    (auto simp: fits_def buffer_size_def prefix_len_def is_len_heap_layout_def target_numbers_32
      target_numbers_64)

lemma prefix_len_mono: "m \<le> n \<Longrightarrow> prefix_len t m \<le> prefix_len t n"
  by (auto simp: prefix_len_def is_len_heap_layout_def split: pointer_width.splits)

text \<open>The bytes after the move to the front, and after the move back.\<close>

lemma exact_bytes:
  assumes "p + w + length D \<le> length C"
  shows "take (p + w + length D) (overwrite C (p + w) D) = take (p + w) C @ D"
  using assms by (simp add: overwrite_def)

lemma moved_back:
  assumes "k \<le> a" "a + length D \<le> length C" "take (length D) (drop a C) = D"
  shows "drop a (overwrite (overwrite C k D) a (window (overwrite C k D) k (length D))) = drop a C"
proof -
  have "window (overwrite C k D) k (length D) = D"
    using assms by (simp add: overwrite_def window_def)
  moreover have "drop a C = D @ drop (a + length D) C"
    using assms(3) by (metis add.commute append_take_drop_id drop_drop)
  ultimately show ?thesis using assms by (simp add: overwrite_def)
qed

lemma wp_into_exact:
  assumes L: "live t s GrowableHeader hb b v" and B: "buf_holds t GrowableHeader hb b v xs"
    and one: "vcount v = 1"
  defines "v' \<equiv> v\<lparr>vprefix := prefix_bytes t (vcap v) (length xs)\<rparr>"
  shows "wp (into_exact t hb) Q E P s =
    (if oom s (calls s) then Q (Inl hb) (put_view t b v' (s\<lparr>calls := Suc (calls s)\<rparr>))
     else Q (Inr (new_buf t ExactHeader (length xs) xs s))
       (move_view t b (new_view t ExactHeader (length xs) xs) s))"
proof -
  have v: "blocks s b = Some (view_block t v)" "view_ok t v" "vkind v = GrowableHeader"
    using L by (simp_all add: live_def)
  let ?n = "length xs" and ?D = "map Some xs" and ?C = "view_bytes t v"
  let ?a = "prefix_len t (vcap v) + 2 * USIZE_SIZE t" and ?k = "prefix_len t ?n + USIZE_SIZE t"
  have n: "?n \<le> vcap v" "?n \<le> Capacity_MAX t"
    using buf_holds_le_cap [OF B v(2)] buf_holds_len_bounds [OF B v(2)] by simp_all
  have fx: "fits t ExactHeader ?n" using fits_exact n v by (auto simp: view_ok_def)
  have hb: "hptr hb = HeapPtr b ?a" "hlen hb = text_len t ?n"
    using B v by (simp_all add: buf_holds_def data_off_def)
  have C: "length ?C = ?a + vcap v" using v by (simp add: buffer_size_def)
  have ka: "?k \<le> ?a" using prefix_len_mono [OF n(1), of t] by simp
  have wD: "window ?C ?a ?n = ?D"
    using B view_data_window [OF v(2), of 0 ?n] v
    by (simp add: buf_holds_def data_off_def window_0)
  note rules = into_exact_def wp_assert_unique [OF L one] wp_heap_len [OF L B]
    wp_header_capacity [OF L] wp_alloc_layout [OF L B] wp_allocation [OF L B] layout_for_eq fx
    TextLen_is_heap_text_len [OF n(2)] is_len_heap_layout_iff [OF n(2), symmetric] hb n
    Let_def prefix_len_def [symmetric] wD C
  define C1 where "C1 = overwrite ?C ?k ?D"
  have C1: "overwrite ?C ?k ?D = C1" "length C1 = buffer_size t GrowableHeader (vcap v)"
    using v ka n(1) C by (simp_all add: C1_def)
  define C2 where "C2 = overwrite C1 ?a (window C1 ?k ?n)"
  have lim: "buffer_size t ExactHeader ?n \<le> Suc (ISIZE_MAX t) - USIZE_SIZE t"
    "?k + ?n \<le> buffer_size t GrowableHeader (vcap v)"
    "?a + ?n \<le> buffer_size t GrowableHeader (vcap v)"
    "?a \<le> buffer_size t GrowableHeader (vcap v)"
    "prefix_len t (vcap v) \<le> buffer_size t GrowableHeader (vcap v)"
    "prefix_len t ?n \<le> USIZE_SIZE t + (prefix_len t (vcap v) + vcap v)"
    "prefix_len t ?n + ?n \<le> USIZE_SIZE t + (prefix_len t (vcap v) + vcap v)"
    using fx ka n(1) by (simp_all add: fits_def buffer_size_def)
  have C2: "overwrite C1 ?a (window C1 ?k ?n) = C2" "length C2 = buffer_size t GrowableHeader (vcap v)"
    using lim C1(2) by (simp_all add: C2_def)
  have "drop ?a C2 = drop ?a ?C"
    using moved_back [of ?k ?a ?D ?C] ka n(1) C wD by (simp add: C1_def C2_def window_def)
  also have "\<dots> = vdata v" using v by (simp add: view_bytes_header view_ok_def)
  finally have restored: "prefix_bytes t (vcap v) ?n @ map Some (header_new t GrowableHeader (vcap v)) @
      drop ?a C2 = view_bytes t v'"
    using header_new_bytes [of v' GrowableHeader "vcap v" t] v one
    by (simp add: v'_def view_bytes_header del: header_new.simps)
  have "take (buffer_size t ExactHeader ?n) C1 = take ?k ?C @ ?D"
    using exact_bytes [of "prefix_len t ?n" "USIZE_SIZE t" ?D ?C] lim(2) v
    by (simp add: C1_def buffer_size_def)
  then have moved: "prefix_bytes t ?n ?n @ map Some (header_new t ExactHeader ?n) @
      drop ?k (take (buffer_size t ExactHeader ?n) C1) = view_bytes t (new_view t ExactHeader ?n xs)"
    using new_view_bytes [OF n(2), of ExactHeader] lim(2) v by (simp del: header_new.simps)
  show ?thesis
  proof (cases "oom s (calls s)")
    case True
    with v one lim n show ?thesis
      by (simp add: rules C1 C2 wp_write_prefix wp_write_header ptr_copy_def rewrite_head restored
          del: wp_if header_new.simps split del: if_split)
        (simp add: put_view_def)
  next
    case False
    have "buffer_size t ExactHeader ?n \<le> buffer_size t GrowableHeader (vcap v)"
      "prefix_len t ?n \<le> buffer_size t ExactHeader ?n" "?k \<le> buffer_size t ExactHeader ?n"
      using lim(2) by (simp_all add: buffer_size_def)
    with v one lim n False show ?thesis
      by (simp add: rules C1 min_absorb2 wp_write_prefix wp_write_header ptr_copy_def rewrite_head
          del: wp_if header_new.simps split del: if_split)
        (simp add: move_view_def moved new_buf_def del: header_new.simps)
  qed
qed

section \<open>Exact to growable\<close>

lemma wp_into_growable:
  assumes L: "live t s ExactHeader hb b v" and B: "buf_holds t ExactHeader hb b v xs"
    and one: "vcount v = 1"
  shows "wp (into_growable t hb) Q E P s =
    (if \<not> fits t GrowableHeader (length xs) then Q (Inl hb) s
     else if oom s (calls s) then Q (Inl hb) (s\<lparr>calls := Suc (calls s)\<rparr>)
     else Q (Inr (new_buf t GrowableHeader (length xs) xs s))
       (move_view t b (new_view t GrowableHeader (length xs) xs) s))"
proof -
  have v: "blocks s b = Some (view_block t v)" "view_ok t v" "vkind v = ExactHeader"
    using L by (simp_all add: live_def)
  let ?n = "length xs" and ?D = "map Some xs" and ?C = "view_bytes t v"
  let ?p = "prefix_len t ?n"
  have n: "vcap v = ?n" "?n \<le> Capacity_MAX t"
    using B buf_holds_len_bounds [OF B v(2)] by (simp_all add: buf_holds_def)
  have hb: "hlen hb = text_len t ?n" using B by (simp add: buf_holds_def)
  have C: "length ?C = ?p + USIZE_SIZE t + ?n" using v n by (simp add: buffer_size_def)
  have wD: "window ?C (?p + USIZE_SIZE t) ?n = ?D"
    using B view_data_window [OF v(2), of 0 ?n] v n
    by (simp add: buf_holds_def data_off_def window_0)
  define C1 where "C1 = ?C @ replicate (USIZE_SIZE t) None"
  define C2 where "C2 = overwrite C1 (?p + 2 * USIZE_SIZE t) ?D"
  have C1: "?C @ replicate (buffer_size t GrowableHeader ?n - buffer_size t ExactHeader ?n) None = C1"
    "length C1 = buffer_size t GrowableHeader ?n" "window C1 (?p + USIZE_SIZE t) ?n = ?D"
    using C wD by (simp_all add: C1_def buffer_size_def window_append_left)
  have C2: "overwrite C1 (?p + 2 * USIZE_SIZE t) ?D = C2" "length C2 = buffer_size t GrowableHeader ?n"
    using C1(2) by (simp_all add: C2_def buffer_size_def)
  have "drop (?p + 2 * USIZE_SIZE t) C2 = ?D"
    using C1(2) by (simp add: C2_def overwrite_def buffer_size_def)
  then have moved: "prefix_bytes t ?n ?n @ map Some (header_new t GrowableHeader ?n) @
      drop (?p + 2 * USIZE_SIZE t) C2 = view_bytes t (new_view t GrowableHeader ?n xs)"
    using new_view_bytes [OF n(2), of GrowableHeader] by (simp del: header_new.simps)
  note rules = into_growable_def wp_assert_unique [OF L one] wp_heap_len [OF L B]
    wp_alloc_layout [OF L B] wp_allocation [OF L B] layout_for_eq
    TextLen_is_heap_text_len [OF n(2)] is_len_heap_layout_iff [OF n(2), symmetric] hb n
    Let_def prefix_len_def [symmetric] wD C1 C2
  consider "\<not> fits t GrowableHeader ?n" | "fits t GrowableHeader ?n" "oom s (calls s)"
    | "fits t GrowableHeader ?n" "\<not> oom s (calls s)" by blast
  then show ?thesis
  proof cases
    case 1
    then show ?thesis by (simp add: rules)
  next
    case 2
    then have "buffer_size t GrowableHeader ?n \<le> Suc (ISIZE_MAX t) - USIZE_SIZE t"
      by (simp add: fits_def)
    with 2 v n show ?thesis by (simp add: rules split del: if_split)
  next
    case 3
    then have "buffer_size t GrowableHeader ?n \<le> Suc (ISIZE_MAX t) - USIZE_SIZE t"
      "buffer_size t ExactHeader ?n \<le> buffer_size t GrowableHeader ?n"
      "?p + USIZE_SIZE t + ?n \<le> buffer_size t GrowableHeader ?n"
      "?p + USIZE_SIZE t \<le> buffer_size t GrowableHeader ?n"
      "?p + 2 * USIZE_SIZE t + ?n \<le> buffer_size t GrowableHeader ?n"
      "?p + 2 * USIZE_SIZE t \<le> buffer_size t GrowableHeader ?n"
      "?p \<le> buffer_size t GrowableHeader ?n"
      by (simp_all add: fits_def buffer_size_def)
    with 3 v n show ?thesis
      by (simp add: rules wp_write_prefix wp_write_header ptr_copy_def rewrite_head
          del: wp_if header_new.simps split del: if_split)
        (simp add: move_view_def moved new_buf_def del: header_new.simps)
  qed
qed

end
