(* ===== verification/InlineBuffer.thy ===== *)
theory InlineBuffer
  imports TextLen Utf8
begin

unbundle bit_operations_syntax

text \<open>
  \<open>src/src/repr/inline_buffer.rs\<close>: a string of at most \<open>MAX_INLINE_SIZE\<close> bytes kept in the two
  words of the \<open>Repr\<close> itself. The constructor exists twice, as a routine that assembles two
  machine words from overlapping loads and as a routine of overlapping copies; both are shown to
  write \<open>inline_bytes\<close>: the text, zeros, and the tagged length in the last byte unless the text
  fills the buffer.
\<close>

section \<open>The bytes of an inline buffer\<close>

definition inline_bytes :: "target \<Rightarrow> byte list \<Rightarrow> byte list" where
  "inline_bytes t text =
    (if length text = MAX_INLINE_SIZE t then text
     else text @ replicate (MAX_INLINE_SIZE t - 1 - length text) 0 @ [inline_tag (length text)])"

lemma length_inline_bytes [simp]:
  "length text \<le> MAX_INLINE_SIZE t \<Longrightarrow> length (inline_bytes t text) = MAX_INLINE_SIZE t"
  by (auto simp: inline_bytes_def)

lemma take_inline_bytes [simp]: "take (length text) (inline_bytes t text) = text"
  by (simp add: inline_bytes_def)

section \<open>Construction in registers\<close>

text \<open>\<^verbatim>\<open>read_unaligned\<close> of \<open>n\<close> bytes at offset \<open>off\<close> of the text, extended to
  \<^verbatim>\<open>u64\<close>, and the bytes of a word.\<close>

definition load :: "byte list \<Rightarrow> nat \<Rightarrow> nat \<Rightarrow> ('s, 64 word) prog" where
  "load text off n =
    bind (assert_unchecked (off + n \<le> length text)) (\<lambda>_.
    ret (word_of_nat (of_le_bytes (window text off n))))"

definition u64_bytes :: "64 word \<Rightarrow> byte list" where
  "u64_bytes w = le_bytes 8 (unat w)"

definition inline_new_words :: "target \<Rightarrow> byte list \<Rightarrow> ('s, byte list) prog" where
  "inline_new_words t text =
    bind (debug_assert t (length text \<le> MAX_INLINE_SIZE t)) (\<lambda>_.
    let len = length text;
        last_byte = push_bit 56 (word_of_nat len OR (ucast MASK_1100_0000 :: 64 word))
    in
    bind (if len = MAX_INLINE_SIZE t then
            bind (load text 0 8) (\<lambda>w0. bind (load text 8 8) (\<lambda>w1. ret (w0, w1)))
          else if 8 \<le> len then
            bind (load text 0 8) (\<lambda>w0.
            bind (if len = 8 then ret last_byte
                  else bind (load text (len - 8) 8) (\<lambda>tail.
                       ret (drop_bit ((MAX_INLINE_SIZE t - len) * 8) tail OR last_byte))) (\<lambda>w1.
            ret (w0, w1)))
          else if 4 \<le> len then
            bind (load text 0 4) (\<lambda>head. bind (load text (len - 4) 4) (\<lambda>tail.
            ret (head OR push_bit ((len - 4) * 8) tail, last_byte)))
          else if 2 \<le> len then
            bind (load text 0 2) (\<lambda>head. bind (load text (len - 2) 2) (\<lambda>tail.
            ret (head OR push_bit ((len - 2) * 8) tail, last_byte)))
          else if len = 1 then
            bind (load text 0 1) (\<lambda>w0. ret (w0, last_byte))
          else ret (0, last_byte)) (\<lambda>(w0, w1).
    ret (u64_bytes w0 @ u64_bytes w1)))"

text \<open>The bits of a loaded word and of a word written back, byte by byte.\<close>

lemma bit_of_le_bytes:
  "i < length bs \<Longrightarrow> j < 8 \<Longrightarrow> bit (of_le_bytes bs) (8 * i + j) = bit (bs ! i) j"
proof (induction bs arbitrary: i)
  case (Cons b bs)
  have low: "take_bit 8 (unat b + 256 * x) = unat b" for x
    by (simp add: take_bit_eq_mod)
  have high: "drop_bit 8 (unat b + 256 * x) = x" for x
    by (simp add: drop_bit_eq_div)
  show ?case
  proof (cases i)
    case 0
    have "bit (unat b + 256 * of_le_bytes bs) j = bit (take_bit 8 (unat b + 256 * of_le_bytes bs)) j"
      using Cons.prems by (simp only: bit_take_bit_iff) simp
    also have "\<dots> = bit b j" by (simp only: low) (simp add: bit_unsigned_iff)
    finally show ?thesis using 0 by simp
  next
    case (Suc k)
    have "bit (unat b + 256 * of_le_bytes bs) (8 + (8 * k + j)) =
        bit (drop_bit 8 (unat b + 256 * of_le_bytes bs)) (8 * k + j)"
      by (simp only: bit_drop_bit_eq o_def)
    then show ?thesis using Suc Cons by (simp add: high add.assoc)
  qed
qed simp

lemma nat_bit_less: "bit (n :: nat) k \<Longrightarrow> n < 2 ^ m \<Longrightarrow> k < m"
  by (metis bit_take_bit_iff take_bit_nat_eq_self)

lemma bit_of_le_bytes_beyond: "8 * length bs \<le> k \<Longrightarrow> \<not> bit (of_le_bytes bs) k"
  using nat_bit_less [of "of_le_bytes bs" k "8 * length bs"] of_le_bytes_less [of bs]
  by (auto simp: power_mult)

lemma nth_le_bytes: "i < n \<Longrightarrow> le_bytes n x ! i = byte_of (x div 256 ^ i)"
  by (induction n arbitrary: x i) (auto simp: nth_Cons div_mult2_eq split: nat.split)

lemma bit_nth_u64_bytes:
  assumes "i < 8" "j < 8"
  shows "bit (u64_bytes w ! i) j = bit w (8 * i + j)"
proof -
  have "u64_bytes w ! i = word_of_nat (drop_bit (8 * i) (unat w))"
    using assms by (simp add: u64_bytes_def nth_le_bytes byte_of_def drop_bit_eq_div power_mult)
  then show ?thesis
    using assms by (simp add: bit_of_nat_iff bit_drop_bit_eq bit_unsigned_iff)
qed

lemma u64_bytes_eqI:
  assumes "length bs = 8" "\<And>i j. i < 8 \<Longrightarrow> j < 8 \<Longrightarrow> bit w (8 * i + j) = bit (bs ! i) j"
  shows "u64_bytes w = bs"
proof (rule nth_equalityI)
  show len: "length (u64_bytes w) = length bs" using assms(1) by (simp add: u64_bytes_def)
  fix i assume "i < length (u64_bytes w)"
  then have "i < 8" by (simp add: len assms(1))
  then show "u64_bytes w ! i = bs ! i"
    by (intro bit_word_eqI) (simp add: bit_nth_u64_bytes assms(2))
qed

lemma bit_load_word:
  assumes "off + n \<le> length text" "i < 8" "j < 8"
  shows "bit (word_of_nat (of_le_bytes (window text off n)) :: 64 word) (8 * i + j) \<longleftrightarrow>
    i < n \<and> bit (text ! (off + i)) j"
proof (cases "i < n")
  case True
  then show ?thesis
    using assms bit_of_le_bytes [of i "window text off n" j]
    by (simp add: bit_of_nat_iff nth_window)
next
  case False
  then show ?thesis
    using assms bit_of_le_bytes_beyond [of "window text off n" "8 * i + j"]
    by (simp add: bit_of_nat_iff)
qed

lemma bit_shift_left:
  assumes "i < 8" "j < 8"
  shows "bit (push_bit (m * 8) (w :: 64 word)) (8 * i + j) \<longleftrightarrow> m \<le> i \<and> bit w (8 * (i - m) + j)"
proof -
  have "m * 8 \<le> 8 * i + j \<longleftrightarrow> m \<le> i" using assms(2) by linarith
  moreover have "8 * i + j - m * 8 = 8 * (i - m) + j" if "m \<le> i" using that by simp
  ultimately show ?thesis using assms by (auto simp: bit_push_bit_iff)
qed

lemma bit_shift_right:
  "bit (drop_bit (m * 8) (w :: 64 word)) (8 * i + j) \<longleftrightarrow> bit w (8 * (m + i) + j)"
  by (simp add: bit_drop_bit_eq algebra_simps)

lemma bit_last_byte:
  assumes "n < 16" "i < 8" "j < 8"
  shows "bit (push_bit 56 (word_of_nat n OR (ucast MASK_1100_0000 :: 64 word))) (8 * i + j) \<longleftrightarrow>
    i = 7 \<and> bit (inline_tag n) j"
proof -
  define W where "W = word_of_nat n OR (ucast MASK_1100_0000 :: 64 word)"
  have "bit (inline_tag n) j = bit W j"
    using assms(3) by (simp add: W_def inline_tag_def byte_of_def bit_or_iff bit_of_nat_iff bit_unsigned_iff)
  moreover have "7 \<le> i \<longleftrightarrow> i = 7" using assms(2) by auto
  moreover have "bit (push_bit (7 * 8) W) (8 * i + j) \<longleftrightarrow> 7 \<le> i \<and> bit W (8 * (i - 7) + j)"
    by (rule bit_shift_left [OF assms(2,3)])
  ultimately show ?thesis by (auto simp: W_def simp del: push_bit_or)
qed

text \<open>The four shapes a word takes.\<close>

lemma whole_word:
  assumes "off + 8 \<le> length text"
  shows "u64_bytes (word_of_nat (of_le_bytes (window text off 8))) = window text off 8"
  using assms by (intro u64_bytes_eqI) (simp_all add: bit_load_word nth_window)

lemma two_loads:
  assumes "n \<le> length text" "length text \<le> 2 * n" "n \<le> 4"
  shows "u64_bytes (word_of_nat (of_le_bytes (window text 0 n)) OR
      push_bit ((length text - n) * 8) (word_of_nat (of_le_bytes (window text (length text - n) n))))
    = text @ replicate (8 - length text) 0"
proof (rule u64_bytes_eqI)
  show "length (text @ replicate (8 - length text) 0) = 8" using assms by simp
  fix i j :: nat assume "i < 8" "j < 8"
  with assms show "bit (word_of_nat (of_le_bytes (window text 0 n)) OR
      push_bit ((length text - n) * 8) (word_of_nat (of_le_bytes (window text (length text - n) n))) ::
      64 word) (8 * i + j) = bit ((text @ replicate (8 - length text) 0) ! i) j"
    by (auto simp: bit_or_iff bit_load_word bit_shift_left nth_append)
qed

lemma one_load:
  "length text = 1 \<Longrightarrow> u64_bytes (word_of_nat (of_le_bytes (window text 0 1))) = text @ replicate 7 0"
  by (intro u64_bytes_eqI) (auto simp: bit_load_word nth_append)

lemma last_byte_word:
  "n < 16 \<Longrightarrow> u64_bytes (push_bit 56 (word_of_nat n OR (ucast MASK_1100_0000 :: 64 word))) =
    replicate 7 0 @ [inline_tag n]"
  by (intro u64_bytes_eqI) (auto simp: bit_last_byte nth_append simp del: push_bit_or)

lemma tail_word_bytes:
  assumes "8 < length text" "length text < 16"
  shows "u64_bytes (drop_bit ((16 - length text) * 8)
      (word_of_nat (of_le_bytes (window text (length text - 8) 8))) OR
      push_bit 56 (word_of_nat (length text) OR (ucast MASK_1100_0000 :: 64 word))) =
    drop 8 text @ replicate (15 - length text) 0 @ [inline_tag (length text)]"
proof (rule u64_bytes_eqI)
  show "length (drop 8 text @ replicate (15 - length text) 0 @ [inline_tag (length text)]) = 8"
    using assms by simp
  fix i j :: nat assume ij: "i < 8" "j < 8"
  have "bit (drop_bit ((16 - length text) * 8)
      (word_of_nat (of_le_bytes (window text (length text - 8) 8))) :: 64 word) (8 * i + j) \<longleftrightarrow>
      8 + i < length text \<and> bit (text ! (8 + i)) j"
  proof (cases "8 + i < length text")
    case True
    then have "16 - length text + i < 8" "length text - 8 + (16 - length text + i) = 8 + i"
      using assms by simp_all
    with assms True ij show ?thesis by (simp only: bit_shift_right bit_load_word)
  next
    case False
    then have "64 \<le> 8 * (16 - length text + i) + j" using assms by simp
    moreover have "\<not> bit w k" if "64 \<le> k" for w :: "64 word" and k
      using that bit_imp_le_length [of w k] by auto
    ultimately show ?thesis using False by (simp only: bit_shift_right) simp
  qed
  with assms ij show "bit (drop_bit ((16 - length text) * 8)
      (word_of_nat (of_le_bytes (window text (length text - 8) 8))) OR
      push_bit 56 (word_of_nat (length text) OR (ucast MASK_1100_0000 :: 64 word))) (8 * i + j) =
    bit ((drop 8 text @ replicate (15 - length text) 0 @ [inline_tag (length text)]) ! i) j"
    by (auto simp: bit_or_iff bit_last_byte nth_append nth_Cons simp del: push_bit_or)
qed

text \<open>The register path writes \<open>inline_bytes\<close>.\<close>

lemma load_eq: "off + n \<le> length text \<Longrightarrow>
    load text off n = ret (word_of_nat (of_le_bytes (window text off n)))"
  by (simp add: load_def assert_unchecked_def)

lemma inline_new_words_eq:
  assumes "pointer_width t = P64" "length text \<le> MAX_INLINE_SIZE t"
  shows "inline_new_words t text = ret (inline_bytes t text)"
proof -
  let ?n = "length text"
  have N: "MAX_INLINE_SIZE t = 16" using assms(1) by (rule MAX_INLINE_SIZE_cases)
  have small: "xs @ replicate (8 - length xs) 0 @ replicate 7 0 @ [x] = xs @ replicate (15 - length xs) 0 @ [x]"
    if "length xs \<le> 8" for xs :: "byte list" and x
    using that by (simp add: replicate_add [symmetric] flip: append_assoc)
  consider "?n = 16" | "?n = 8" | "8 < ?n" "?n < 16" | "4 \<le> ?n" "?n < 8" | "2 \<le> ?n" "?n < 4"
    | "?n = 1" | "?n = 0"
    using assms(2) N by linarith
  then show ?thesis
  proof cases
    case 1
    then have "window text 0 8 @ window text 8 8 = text" by (simp add: window_def)
    with 1 N show ?thesis
      by (simp add: inline_new_words_def load_eq whole_word inline_bytes_def Let_def)
  next
    case 2
    then have "window text 0 8 = text" by (simp add: window_def)
    with 2 N last_byte_word [of 8] whole_word [of 0 "text"] show ?thesis
      by (simp add: inline_new_words_def load_eq whole_word inline_bytes_def Let_def del: push_bit_or)
  next
    case 3
    then have "window text 0 8 @ drop 8 text = text" by (simp add: window_def)
    with 3 N tail_word_bytes [OF 3] show ?thesis
      by (simp add: inline_new_words_def load_eq whole_word inline_bytes_def Let_def
          del: push_bit_or flip: append_assoc)
  next
    case 4
    with N two_loads [of 4 "text"] last_byte_word [of ?n] show ?thesis
      by (simp add: small inline_new_words_def load_eq inline_bytes_def Let_def del: push_bit_or)
  next
    case 5
    with N two_loads [of 2 "text"] last_byte_word [of ?n] show ?thesis
      by (simp add: small inline_new_words_def load_eq inline_bytes_def Let_def del: push_bit_or)
  next
    case 6
    have z: "replicate 7 0 @ replicate 7 0 @ [x] = replicate 14 0 @ [x]" for x :: byte
      by (simp add: replicate_add [symmetric] flip: append_assoc)
    from 6 N one_load [OF 6] last_byte_word [of 1] show ?thesis
      by (simp add: z inline_new_words_def load_eq inline_bytes_def Let_def del: push_bit_or)
  next
    case 7
    have "u64_bytes 0 = replicate 8 0" by (rule u64_bytes_eqI) simp_all
    with 7 N last_byte_word [of 0] show ?thesis
      by (simp add: inline_new_words_def inline_bytes_def Let_def replicate_add [symmetric]
          del: push_bit_or flip: append_assoc)
  qed
qed

section \<open>Construction by copies\<close>

text \<open>\<^verbatim>\<open>copy_nonoverlapping(src.add(i), dst.add(j), n)\<close> into the byte array.\<close>

definition copy_to :: "byte list \<Rightarrow> nat \<Rightarrow> byte list \<Rightarrow> nat \<Rightarrow> nat \<Rightarrow> ('s, byte list) prog" where
  "copy_to src i dst j n =
    bind (assert_unchecked (i + n \<le> length src \<and> j + n \<le> length dst)) (\<lambda>_.
    ret (overwrite dst j (window src i n)))"

definition inline_new_copy :: "target \<Rightarrow> byte list \<Rightarrow> ('s, byte list) prog" where
  "inline_new_copy t text =
    bind (debug_assert t (length text \<le> MAX_INLINE_SIZE t)) (\<lambda>_.
    let len = length text;
        buffer = (replicate (MAX_INLINE_SIZE t) 0)
          [MAX_INLINE_SIZE t - 1 := byte_of len OR MASK_1100_0000]
    in
    if len = MAX_INLINE_SIZE t then copy_to text 0 buffer 0 (MAX_INLINE_SIZE t)
    else if MAX_INLINE_SIZE t div 2 \<le> len then
      let n = MAX_INLINE_SIZE t div 2 in
      bind (copy_to text 0 buffer 0 n) (\<lambda>buffer.
      copy_to text (len - n) buffer (len - n) n)
    else if 4 \<le> len then
      bind (copy_to text 0 buffer 0 4) (\<lambda>buffer. copy_to text (len - 4) buffer (len - 4) 4)
    else if 2 \<le> len then
      bind (copy_to text 0 buffer 0 2) (\<lambda>buffer. copy_to text (len - 2) buffer (len - 2) 2)
    else if len = 1 then
      bind (assert_unchecked (0 < length text)) (\<lambda>_. ret (buffer[0 := text ! 0]))
    else ret buffer)"

definition inline_new :: "target \<Rightarrow> byte list \<Rightarrow> ('s, byte list) prog" where
  "inline_new t text =
    (if pointer_width t = P64 \<and> target_endian t = LittleEndian then inline_new_words t text
     else inline_new_copy t text)"

lemma copy_to_eq:
  "i + n \<le> length src \<Longrightarrow> j + n \<le> length dst \<Longrightarrow>
    copy_to src i dst j n = ret (overwrite dst j (window src i n))"
  by (simp add: copy_to_def assert_unchecked_def)

lemma two_copies:
  assumes "n \<le> length text" "length text \<le> 2 * n" "length text \<le> length buffer"
  shows "overwrite (overwrite buffer 0 (window text 0 n)) (length text - n)
      (window text (length text - n) n) = text @ drop (length text) buffer"
proof -
  have "take (length text - n) (take n text) @ drop (length text - n) text = text"
    using assms by (simp add: min_absorb1)
  with assms show ?thesis by (simp add: overwrite_def window_def)
qed

lemma list_update_replicate_last: "(replicate (Suc n) x)[n := y] = replicate n x @ [y]"
  by (induction n) simp_all

lemma inline_new_copy_eq:
  assumes "length text \<le> MAX_INLINE_SIZE t"
  shows "inline_new_copy t text = ret (inline_bytes t text)"
proof -
  let ?n = "length text" and ?N = "MAX_INLINE_SIZE t"
  define buffer where "buffer = (replicate ?N 0)[?N - 1 := inline_tag ?n]"
  have N: "?N = 16 \<or> ?N = 8" by (cases "pointer_width t") (simp_all add: MAX_INLINE_SIZE_cases)
  then have buf: "buffer = replicate (?N - 1) 0 @ [inline_tag ?n]" "length buffer = ?N"
    by (auto simp: buffer_def list_update_replicate_last [of 15, simplified]
        list_update_replicate_last [of 7, simplified])
  have fin: "text @ drop ?n buffer = inline_bytes t text" if "?n < ?N"
    using that by (simp add: buf(1) inline_bytes_def)
  have N2: "2 * (?N div 2) = ?N" "?N \<le> 16" "4 \<le> ?N div 2" using N by auto
  have buf0: "(replicate ?N 0)[?N - 1 := byte_of ?n OR MASK_1100_0000] = buffer"
    by (simp add: buffer_def inline_tag_def)
  consider "?n = ?N" | "?n < ?N" "?N div 2 \<le> ?n" | "?n < ?N div 2" "4 \<le> ?n" | "2 \<le> ?n" "?n < 4" "?n < ?N div 2"
    | "?n = 1" "?n < ?N div 2" | "?n = 0"
    using assms by linarith
  then show ?thesis
  proof cases
    case 1
    then show ?thesis
      using buf(2) by (simp add: inline_new_copy_def Let_def copy_to_eq overwrite_def window_def
          inline_bytes_def)
  next
    case 5
    then have b1: "(replicate ?N 0)[?N - 1 := byte_of 1 OR MASK_1100_0000] = buffer"
      by (simp add: buffer_def inline_tag_def)
    from 5 obtain x where x: "text = [x]" by (auto simp: length_Suc_conv)
    have "buffer[0 := x] = x # drop 1 buffer" using N buf(2) by (cases buffer) auto
    moreover have "?N \<noteq> 1" using N by auto
    ultimately show ?thesis using 5 b1 x fin
      by (simp add: inline_new_copy_def Let_def assert_unchecked_def)
  next
    case 6
    with N2 buf0 fin show ?thesis by (simp add: inline_new_copy_def Let_def)
  qed (use N2 buf0 in \<open>simp_all add: inline_new_copy_def Let_def copy_to_eq buf(2) two_copies fin
      inline_tag_def\<close>)
qed

theorem inline_new_eq:
  "length text \<le> MAX_INLINE_SIZE t \<Longrightarrow> inline_new t text = ret (inline_bytes t text)"
  by (simp add: inline_new_def inline_new_words_eq inline_new_copy_eq)

section \<open>One character, the empty buffer, and the length\<close>

text \<open>\<open>from_char\<close> computes the encoding in a machine word, byte \<open>i\<close> at bits \<open>8 * i\<close> upwards.\<close>

definition from_char_bytes :: "uchar \<Rightarrow> nat \<times> nat" where
  "from_char_bytes code =
    (if code < 0x80 then (code, 1)
     else if code < 0x800 then
       (let b0 = 0xC0 OR drop_bit 6 code;
            b1 = 0x80 OR (code AND 0x3F)
        in (b0 OR push_bit 8 b1, 2))
     else if code < 0x10000 then
       (let b0 = 0xE0 OR drop_bit 12 code;
            b1 = 0x80 OR (drop_bit 6 code AND 0x3F);
            b2 = 0x80 OR (code AND 0x3F)
        in (b0 OR push_bit 8 b1 OR push_bit 16 b2, 3))
     else
       (let b0 = 0xF0 OR drop_bit 18 code;
            b1 = 0x80 OR (drop_bit 12 code AND 0x3F);
            b2 = 0x80 OR (drop_bit 6 code AND 0x3F);
            b3 = 0x80 OR (code AND 0x3F)
        in (b0 OR push_bit 8 b1 OR push_bit 16 b2 OR push_bit 24 b3, 4)))"

definition inline_from_char :: "target \<Rightarrow> uchar \<Rightarrow> byte list" where
  "inline_from_char t ch =
    (let (bytes, len) = from_char_bytes ch;
         w0 = bytes;
         w1 = push_bit (USIZE_BITS t - 8) (unat (byte_of len OR MASK_1100_0000))
     in to_ne_bytes t (to_le t w0) @ to_ne_bytes t (to_le t w1))"

definition inline_empty :: "target \<Rightarrow> byte list" where
  "inline_empty t = (replicate (MAX_INLINE_SIZE t) 0)[MAX_INLINE_SIZE t - 1 := Length00]"

definition inline_set_len :: "target \<Rightarrow> byte list \<Rightarrow> nat \<Rightarrow> ('s, byte list) prog" where
  "inline_set_len t buffer len =
    bind (debug_assert t (len \<le> MAX_INLINE_SIZE t)) (\<lambda>_.
    ret (if len < MAX_INLINE_SIZE t
         then buffer[MAX_INLINE_SIZE t - 1 := byte_of len OR MASK_1100_0000] else buffer))"

lemma or_eq_add: "(x :: nat) < 2 ^ n \<Longrightarrow> x OR push_bit n y = x + push_bit n y"
  by (rule disjunctive_add_eq_or [symmetric])
    (auto simp: bit_eq_iff bit_and_iff bit_push_bit_iff dest: nat_bit_less)

lemma mask_6: "(x :: nat) AND 0x3F = x mod 64"
  using take_bit_eq_mask [of 6 x] by (simp add: take_bit_eq_mod mask_eq_exp_minus_1)

lemma from_char_byte_values:
  "x < 64 \<Longrightarrow> (0x80 :: nat) OR x = 0x80 + x"
  "x < 32 \<Longrightarrow> (0xC0 :: nat) OR x = 0xC0 + x"
  "x < 16 \<Longrightarrow> (0xE0 :: nat) OR x = 0xE0 + x"
  "x < 8 \<Longrightarrow> (0xF0 :: nat) OR x = 0xF0 + x"
  using or_eq_add [of x 6 2] or_eq_add [of x 5 6] or_eq_add [of x 4 14] or_eq_add [of x 3 30]
  by (simp_all add: or.commute push_bit_eq_mult)

lemma or_bytes:
  "(b0 :: nat) < 256 \<Longrightarrow> b0 OR push_bit 8 b1 = b0 + 256 * b1"
  "b0 < 256 \<Longrightarrow> b1 < 256 \<Longrightarrow> b0 OR push_bit 8 b1 OR push_bit 16 b2 = b0 + 256 * b1 + 65536 * b2"
  "b0 < 256 \<Longrightarrow> b1 < 256 \<Longrightarrow> b2 < 256 \<Longrightarrow>
    b0 OR push_bit 8 b1 OR push_bit 16 b2 OR push_bit 24 b3 =
      b0 + 256 * b1 + 65536 * b2 + 16777216 * b3"
  using or_eq_add [of b0 8 b1] or_eq_add [of "b0 + b1 * 256" 16 b2]
    or_eq_add [of "b0 + b1 * 256 + b2 * 65536" 24 b3]
  by (simp_all add: push_bit_eq_mult or.assoc [symmetric])

lemma from_char_bytes_eq:
  assumes "scalar c"
  shows "from_char_bytes c = (of_le_bytes (encode_utf8 c), len_utf8 c)"
proof -
  have c: "c < 0x110000" using assms by (rule scalar_less)
  consider "c < 0x80" | "0x80 \<le> c" "c < 0x800" | "0x800 \<le> c" "c < 0x10000" | "0x10000 \<le> c"
    by linarith
  then show ?thesis
  proof cases
    case 1
    then show ?thesis
      by (simp add: from_char_bytes_def encode_utf8_def len_utf8_def unat_byte_of)
  next
    case 2
    then have "c div 64 < 32" by simp
    with 2 show ?thesis
      by (simp add: from_char_bytes_def encode_utf8_def len_utf8_def unat_byte_of Let_def mask_6
          from_char_byte_values drop_bit_eq_div or_bytes)
  next
    case 3
    then have "c div 4096 < 16" by simp
    with 3 show ?thesis
      by (simp add: from_char_bytes_def encode_utf8_def len_utf8_def unat_byte_of Let_def mask_6
          from_char_byte_values drop_bit_eq_div or_bytes)
  next
    case 4
    with c have "c div 262144 < 8" by simp
    with 4 show ?thesis
      by (simp add: from_char_bytes_def encode_utf8_def len_utf8_def unat_byte_of Let_def mask_6
          from_char_byte_values drop_bit_eq_div or_bytes)
  qed
qed

lemma le_bytes_padded: "length bs \<le> n \<Longrightarrow> le_bytes n (of_le_bytes bs) = bs @ replicate (n - length bs) 0"
  using le_bytes_of_le_bytes [of "bs @ replicate (n - length bs) 0" n]
  by (simp add: of_le_bytes_append)

lemma le_bytes_top: "le_bytes (Suc n) (256 ^ n * unat b) = replicate n 0 @ [b]"
  using le_bytes_of_le_bytes [of "replicate n 0 @ [b]" "Suc n"] by (simp add: of_le_bytes_append)

lemma push_top_byte: "push_bit (USIZE_BITS t - 8) (x :: nat) = 256 ^ len_bytes t * x"
  by (cases "pointer_width t")
    (simp_all add: len_bytes_numeral target_numbers_32 target_numbers_64 push_bit_eq_mult)

theorem inline_from_char_eq:
  assumes "scalar c"
  shows "inline_from_char t c = inline_bytes t (encode_utf8 c)"
proof -
  let ?n = "len_utf8 c"
  have n: "?n \<le> USIZE_SIZE t" "?n < MAX_INLINE_SIZE t"
    using len_utf8_le_4 [of c] USIZE_SIZE_cases [of t] by (auto simp: MAX_INLINE_SIZE_def simp del: len_utf8_le_4)
  have "inline_from_char t c = encode_utf8 c @ replicate (USIZE_SIZE t - ?n) 0 @
      replicate (len_bytes t) 0 @ [inline_tag ?n]"
    using n le_bytes_top [of "len_bytes t" "inline_tag ?n"]
    by (simp add: inline_from_char_def from_char_bytes_eq [OF assms] to_ne_bytes_to_le le_bytes_padded
        push_top_byte inline_tag_def [symmetric] USIZE_SIZE_len_bytes [symmetric])
  also have "\<dots> = inline_bytes t (encode_utf8 c)"
    using n USIZE_SIZE_len_bytes [of t]
    by (simp add: inline_bytes_def MAX_INLINE_SIZE_def replicate_add [symmetric] flip: append_assoc)
  finally show ?thesis .
qed

text \<open>What a buffer holds: the bytes after the text are irrelevant except for the last.\<close>

definition inline_holds :: "target \<Rightarrow> byte list \<Rightarrow> byte list \<Rightarrow> bool" where
  "inline_holds t buffer xs \<longleftrightarrow>
    length buffer = MAX_INLINE_SIZE t \<and> length xs \<le> MAX_INLINE_SIZE t \<and>
    take (length xs) buffer = xs \<and>
    (length xs < MAX_INLINE_SIZE t \<longrightarrow> last buffer = inline_tag (length xs))"

lemma inline_holds_inline_bytes:
  "length xs \<le> MAX_INLINE_SIZE t \<Longrightarrow> inline_holds t (inline_bytes t xs) xs"
  by (simp add: inline_holds_def) (simp add: inline_bytes_def)

lemma inline_empty_eq: "inline_empty t = inline_bytes t []"
proof -
  have tag: "inline_tag 0 = Length00"
    by (simp add: inline_tag_def MASK_1100_0000_def Length00_def byte_of_def)
  show ?thesis
    using list_update_replicate_last [of 15 "0 :: byte"] list_update_replicate_last [of 7 "0 :: byte"]
    by (cases "pointer_width t")
      (simp_all add: inline_empty_def inline_bytes_def MAX_INLINE_SIZE_cases tag)
qed

lemma inline_set_len_holds:
  assumes "length buffer = MAX_INLINE_SIZE t" "take (length xs) buffer = xs"
  shows "wp (inline_set_len t buffer (length xs)) (\<lambda>b s'. s' = s \<and> inline_holds t b xs) E P s"
proof -
  have n: "length xs \<le> MAX_INLINE_SIZE t" using assms by (metis length_take min.cobounded1)
  have "buffer \<noteq> []" using assms(1) MAX_INLINE_SIZE_cases [of t] by (cases "pointer_width t") auto
  then have "last (buffer[MAX_INLINE_SIZE t - 1 := x]) = x" for x
    using assms(1) by (simp add: last_list_update)
  then show ?thesis
    using n assms by (auto simp: inline_set_len_def inline_holds_def inline_tag_def)
qed

end
