(* ===== verification/StaticBuffer.thy ===== *)
theory StaticBuffer
  imports TextLen Utf8 Memory
begin

text \<open>
  \<open>src/src/repr/static_buffer.rs\<close>: a borrowed \<^verbatim>\<open>&'static str\<close>, kept as its address
  and its length, tagged like the length of a heap buffer but with the static marker. The length
  can shrink in place, so the buffer stands for a prefix of the static string.
\<close>

record static_buffer =
  sptr :: pointer
  slen :: nat

definition Static_MAX_LENGTH :: "target \<Rightarrow> nat" where
  "Static_MAX_LENGTH t = of_le_bytes ((replicate (USIZE_SIZE t) 255)[USIZE_SIZE t - 1 := 0])"

definition Static_TAG :: "target \<Rightarrow> nat" where
  "Static_TAG t = from_ne_bytes t ((replicate (USIZE_SIZE t) 0)[USIZE_SIZE t - 1 := StaticMarker])"

definition static_new :: "target \<Rightarrow> byte list \<Rightarrow> reserve_error + static_buffer" where
  "static_new t text =
    (if Static_MAX_LENGTH t < length text then Inl ReserveError
     else Inr \<lparr>sptr = StaticPtr text, slen = to_le t (length text) OR Static_TAG t\<rparr>)"

definition static_len :: "target \<Rightarrow> static_buffer \<Rightarrow> nat" where
  "static_len t sb = of_le_bytes (to_ne_bytes t (slen sb XOR Static_TAG t))"

definition static_as_str :: "target \<Rightarrow> static_buffer \<Rightarrow> ('r st, byte list) prog" where
  "static_as_str t sb =
    bind (read_bytes (sptr sb) (static_len t sb)) (\<lambda>bs.
    bind (assert_unchecked (valid_utf8 bs)) (\<lambda>_. ret bs))"

definition static_set_len :: "target \<Rightarrow> static_buffer \<Rightarrow> nat \<Rightarrow> ('r st, static_buffer) prog" where
  "static_set_len t sb len =
    bind (debug_assert t (len \<le> static_len t sb)) (\<lambda>_.
    ret (sb\<lparr>slen := to_le t len OR Static_TAG t\<rparr>))"

section \<open>Facts\<close>

definition static_text_len :: "target \<Rightarrow> nat \<Rightarrow> nat" where
  "static_text_len t n = to_le t n OR Static_TAG t"

lemma Static_TAG_marker_word: "Static_TAG t = marker_word t StaticMarker"
  by (simp add: Static_TAG_def marker_word_def)

lemma Static_MAX_LENGTH_power: "Static_MAX_LENGTH t = 256 ^ len_bytes t - 1"
  by (simp only: Static_MAX_LENGTH_def replicate_update_last)
    (simp add: of_le_bytes_append of_le_bytes_replicate_255)

lemma Static_MAX_LENGTH_short: "n \<le> Static_MAX_LENGTH t \<longleftrightarrow> n < 256 ^ len_bytes t"
proof -
  obtain k where "(256 :: nat) ^ len_bytes t = Suc k" using gr0_implies_Suc [of "256 ^ len_bytes t"] by auto
  then show ?thesis by (simp add: Static_MAX_LENGTH_power less_Suc_eq_le)
qed

text \<open>The tagged length of a static buffer as bytes, and its round trip.\<close>

lemma static_text_len_bytes:
  "n \<le> Static_MAX_LENGTH t \<Longrightarrow>
    to_ne_bytes t (static_text_len t n) = le_bytes (len_bytes t) n @ [StaticMarker]"
  by (simp add: static_text_len_def Static_TAG_marker_word tagged_bytes Static_MAX_LENGTH_short)

lemma static_len_text_len:
  "n \<le> Static_MAX_LENGTH t \<Longrightarrow> slen sb = static_text_len t n \<Longrightarrow> static_len t sb = n"
  by (simp add: static_len_def static_text_len_def Static_TAG_marker_word untagged_length
      Static_MAX_LENGTH_short)

lemma static_text_len_less: "n \<le> Static_MAX_LENGTH t \<Longrightarrow> static_text_len t n < 2 ^ USIZE_BITS t"
  by (simp add: static_text_len_def Static_TAG_marker_word tagged_less Static_MAX_LENGTH_short)

text \<open>What a static buffer stands for.\<close>

definition static_holds :: "target \<Rightarrow> static_buffer \<Rightarrow> byte list \<Rightarrow> bool" where
  "static_holds t sb xs \<longleftrightarrow>
    (\<exists>text. sptr sb = StaticPtr text \<and> length xs \<le> length text \<and> take (length xs) text = xs) \<and>
    length xs \<le> Static_MAX_LENGTH t \<and> slen sb = static_text_len t (length xs)"

lemma static_new_eq:
  "static_new t text = (if length text \<le> Static_MAX_LENGTH t
    then Inr \<lparr>sptr = StaticPtr text, slen = static_text_len t (length text)\<rparr> else Inl ReserveError)"
  by (simp add: static_new_def static_text_len_def)

lemma static_holds_len: "static_holds t sb xs \<Longrightarrow> static_len t sb = length xs"
  by (auto simp: static_holds_def static_len_text_len)

lemma wp_static_as_str:
  "static_holds t sb xs \<Longrightarrow> valid_utf8 xs \<Longrightarrow> wp (static_as_str t sb) Q E P s = Q xs s"
  by (auto simp: static_as_str_def static_holds_len) (auto simp: static_holds_def)

lemma static_set_len_eq:
  "static_holds t sb xs \<Longrightarrow> n \<le> length xs \<Longrightarrow>
    static_set_len t sb n = ret (sb\<lparr>slen := static_text_len t n\<rparr>)"
  by (simp add: static_set_len_def static_holds_len static_text_len_def)

lemma static_holds_set_len:
  assumes "static_holds t sb xs" "n \<le> length xs"
  shows "static_holds t (sb\<lparr>slen := static_text_len t n\<rparr>) (take n xs)"
proof -
  from assms(1) obtain ys where
    "sptr sb = StaticPtr ys" "length xs \<le> length ys" "take (length xs) ys = xs"
    "length xs \<le> Static_MAX_LENGTH t" by (auto simp: static_holds_def)
  moreover have "take n ys = take n (take (length xs) ys)" using assms(2) by (simp add: min_absorb1)
  ultimately show ?thesis using assms(2) by (auto simp: static_holds_def min_absorb1)
qed

end
