(* ===== verification/Repr.thy ===== *)
theory Repr
  imports HeapMove InlineBuffer StaticBuffer
begin

text \<open>
  \<open>src/src/repr.rs\<close>, the part common to both mutabilities: the two-word value \<open>repr\<close>, its three
  variants told apart by the last byte, the constructors, the accessors, cloning and dropping.
  A method on \<^verbatim>\<open>&self\<close> takes the \<open>repr\<close> as an argument, a method on
  \<^verbatim>\<open>&mut self\<close> works on the component \<open>self\<close> of the state.
\<close>

section \<open>The value and its discriminant\<close>

text \<open>The first word is either data or an address with the provenance of its allocation.\<close>

datatype first_word =
    Bytes "byte list"
  | Address pointer

record repr =
  word0 :: first_word
  word1 :: "byte list"

text \<open>The two mutabilities stand for their header type.\<close>

abbreviation Mutable :: header where
  "Mutable \<equiv> GrowableHeader"

abbreviation Immutable :: header where
  "Immutable \<equiv> ExactHeader"

definition tail_word :: "target \<Rightarrow> repr \<Rightarrow> nat" where
  "tail_word t r = from_le t (from_ne_bytes t (word1 r))"

text \<open>Reading the \<open>LastByte\<close> field is undefined for a byte that is not one of its values, and the
  code promises the compiler that it is the top byte of \<open>tail_word\<close>.\<close>

definition last_byte :: "target \<Rightarrow> repr \<Rightarrow> ('s, byte) prog" where
  "last_byte t r =
    (let b = last (word1 r) in
     bind (assert_unchecked (is_LastByte b)) (\<lambda>_.
     bind (assert_unchecked (unat b = drop_bit (USIZE_BITS t - 8) (tail_word t r))) (\<lambda>_.
     ret b)))"

definition is_heap_buffer :: "target \<Rightarrow> repr \<Rightarrow> ('s, bool) prog" where
  "is_heap_buffer t r = bind (last_byte t r) (\<lambda>b. ret (b = HeapMarker))"

definition is_static_buffer :: "target \<Rightarrow> repr \<Rightarrow> ('s, bool) prog" where
  "is_static_buffer t r = bind (last_byte t r) (\<lambda>b. ret (b = StaticMarker))"

definition is_inline_buffer :: "target \<Rightarrow> repr \<Rightarrow> ('s, bool) prog" where
  "is_inline_buffer t r = bind (last_byte t r) (\<lambda>b. ret (unat b < unat HeapMarker))"

section \<open>Reinterpretation\<close>

definition repr_of_inline :: "target \<Rightarrow> byte list \<Rightarrow> repr" where
  "repr_of_inline t buffer =
    \<lparr>word0 = Bytes (take (USIZE_SIZE t) buffer), word1 = drop (USIZE_SIZE t) buffer\<rparr>"

definition repr_of_heap :: "target \<Rightarrow> heap_buffer \<Rightarrow> repr" where
  "repr_of_heap t hb = \<lparr>word0 = Address (hptr hb), word1 = to_ne_bytes t (hlen hb)\<rparr>"

definition repr_of_static :: "target \<Rightarrow> static_buffer \<Rightarrow> repr" where
  "repr_of_static t sb = \<lparr>word0 = Address (sptr sb), word1 = to_ne_bytes t (slen sb)\<rparr>"

definition from_inline :: "target \<Rightarrow> byte list \<Rightarrow> ('s, repr) prog" where
  "from_inline t buffer =
    (let r = repr_of_inline t buffer in
     bind (is_inline_buffer t r) (\<lambda>b. bind (assert_unchecked b) (\<lambda>_. ret r)))"

definition from_heap :: "target \<Rightarrow> heap_buffer \<Rightarrow> ('s, repr) prog" where
  "from_heap t buffer =
    (let r = repr_of_heap t buffer in
     bind (is_heap_buffer t r) (\<lambda>b. bind (assert_unchecked b) (\<lambda>_. ret r)))"

definition from_static :: "target \<Rightarrow> static_buffer \<Rightarrow> ('s, repr) prog" where
  "from_static t buffer =
    (let r = repr_of_static t buffer in
     bind (is_static_buffer t r) (\<lambda>b. bind (assert_unchecked b) (\<lambda>_. ret r)))"

definition as_inline_buffer :: "target \<Rightarrow> repr \<Rightarrow> ('s, byte list) prog" where
  "as_inline_buffer t r =
    bind (is_inline_buffer t r) (\<lambda>b. bind (assert_unchecked b) (\<lambda>_.
    case word0 r of Bytes bs \<Rightarrow> ret (bs @ word1 r) | Address _ \<Rightarrow> undef))"

definition as_heap_buffer :: "target \<Rightarrow> repr \<Rightarrow> ('s, heap_buffer) prog" where
  "as_heap_buffer t r =
    bind (is_heap_buffer t r) (\<lambda>b. bind (assert_unchecked b) (\<lambda>_.
    case word0 r of
      Address p \<Rightarrow> ret \<lparr>hptr = p, hlen = from_ne_bytes t (word1 r)\<rparr>
    | Bytes _ \<Rightarrow> undef))"

definition as_static_buffer :: "target \<Rightarrow> repr \<Rightarrow> ('s, static_buffer) prog" where
  "as_static_buffer t r =
    bind (is_static_buffer t r) (\<lambda>b. bind (assert_unchecked b) (\<lambda>_.
    case word0 r of
      Address p \<Rightarrow> ret \<lparr>sptr = p, slen = from_ne_bytes t (word1 r)\<rparr>
    | Bytes _ \<Rightarrow> undef))"

section \<open>Constructors\<close>

definition repr_new :: "target \<Rightarrow> ('s, repr) prog" where
  "repr_new t = from_inline t (inline_empty t)"

definition from_str :: "target \<Rightarrow> header \<Rightarrow> byte list \<Rightarrow> ('r st, repr) prog" where
  "from_str t h text =
    (if length text \<le> MAX_INLINE_SIZE t then bind (inline_new t text) (from_inline t)
     else bind (heap_new t h text) (from_heap t))"

definition from_char :: "target \<Rightarrow> uchar \<Rightarrow> ('s, repr) prog" where
  "from_char t ch = from_inline t (inline_from_char t ch)"

definition from_bool :: "target \<Rightarrow> bool \<Rightarrow> ('s, repr) prog" where
  "from_bool t b =
    bind (inline_new t (if b then [0x74, 0x72, 0x75, 0x65] else [0x66, 0x61, 0x6C, 0x73, 0x65]))
      (from_inline t)"

definition from_static_str :: "target \<Rightarrow> byte list \<Rightarrow> ('s, repr) prog" where
  "from_static_str t text =
    (if length text \<le> MAX_INLINE_SIZE t then bind (inline_new t text) (from_inline t)
     else bind (propagate (static_new t text)) (from_static t))"

text \<open>\<open>init\<close> is given the uninitialised slice and returns what it holds afterwards.\<close>

definition new_with ::
  "target \<Rightarrow> header \<Rightarrow> nat \<Rightarrow> (byte option list \<Rightarrow> ('r st, byte option list) prog) \<Rightarrow> ('r st, repr) prog"
where
  "new_with t h len init =
    (if len \<le> MAX_INLINE_SIZE t then
       let buffer = inline_empty t in
       bind (init (map Some (take len buffer))) (\<lambda>dst.
       bind (inline_set_len t (overwrite buffer 0 (map the dst)) len) (from_inline t))
     else
       bind (new_uninit t h len) (\<lambda>buffer.
       bind (read_raw (hptr buffer) len) (\<lambda>dst.
       bind (init dst) (\<lambda>dst.
       bind (write_raw (hptr buffer) dst) (\<lambda>_.
       from_heap t buffer)))))"

section \<open>Length and content\<close>

definition repr_len :: "target \<Rightarrow> header \<Rightarrow> repr \<Rightarrow> ('r st, nat) prog" where
  "repr_len t h r = (case pointer_width t of
     P64 \<Rightarrow>
       bind (last_byte t r) (\<lambda>b.
       let this = wrapping_sub t (unat b) (unat MASK_1100_0000);
           inline_len = (if MAX_INLINE_SIZE t < this then MAX_INLINE_SIZE t else this);
           len = tail_word t r AND drop_bit 8 (USIZE_MAX t)
       in ret (if unat b < unat HeapMarker then inline_len else len))
   | P32 \<Rightarrow>
       bind (is_heap_buffer t r) (\<lambda>heap.
       if heap then bind (as_heap_buffer t r) (heap_len t h)
       else bind (is_static_buffer t r) (\<lambda>static.
       if static then bind (as_static_buffer t r) (\<lambda>sb. ret (static_len t sb))
       else bind (last_byte t r) (\<lambda>b.
         let this = wrapping_sub t (unat b) (unat MASK_1100_0000)
         in ret (if MAX_INLINE_SIZE t < this then MAX_INLINE_SIZE t else this)))))"

definition is_empty :: "target \<Rightarrow> header \<Rightarrow> repr \<Rightarrow> ('r st, bool) prog" where
  "is_empty t h r = bind (repr_len t h r) (\<lambda>n. ret (n = 0))"

definition as_bytes :: "target \<Rightarrow> header \<Rightarrow> repr \<Rightarrow> ('r st, byte list) prog" where
  "as_bytes t h r =
    bind (repr_len t h r) (\<lambda>len.
    bind (last_byte t r) (\<lambda>b.
    if unat HeapMarker \<le> unat b then
      (case word0 r of Address p \<Rightarrow> read_bytes p len | Bytes _ \<Rightarrow> undef)
    else
      (case word0 r of
         Bytes bs \<Rightarrow>
           bind (assert_unchecked (len \<le> length (bs @ word1 r))) (\<lambda>_. ret (take len (bs @ word1 r)))
       | Address _ \<Rightarrow> undef)))"

definition as_str :: "target \<Rightarrow> header \<Rightarrow> repr \<Rightarrow> ('r st, byte list) prog" where
  "as_str t h r = bind (as_bytes t h r) from_utf8_unchecked"

definition as_static_str :: "target \<Rightarrow> repr \<Rightarrow> ('r st, byte list option) prog" where
  "as_static_str t r =
    bind (is_static_buffer t r) (\<lambda>static.
    if static then bind (as_static_buffer t r) (\<lambda>sb. bind (static_as_str t sb) (\<lambda>x. ret (Some x)))
    else ret None)"

definition is_unique :: "target \<Rightarrow> header \<Rightarrow> repr \<Rightarrow> ('r st, bool) prog" where
  "is_unique t h r =
    bind (is_heap_buffer t r) (\<lambda>heap.
    if heap then bind (as_heap_buffer t r) (heap_is_unique t h) else ret True)"

section \<open>Cloning and dropping\<close>

definition drop_in :: "target \<Rightarrow> header \<Rightarrow> repr \<Rightarrow> ('r st, unit) prog" where
  "drop_in t h r =
    bind (is_heap_buffer t r) (\<lambda>heap.
    if heap then bind (as_heap_buffer t r) (release t h) else ret ())"

definition set_self :: "'r \<Rightarrow> ('r st, unit) prog" where
  "set_self r = modify (\<lambda>s. s\<lparr>self := r\<rparr>)"

definition replace_inner :: "target \<Rightarrow> header \<Rightarrow> repr \<Rightarrow> (repr st, unit) prog" where
  "replace_inner t h other =
    bind (gets self) (\<lambda>this.
    bind (is_heap_buffer t this) (\<lambda>heap.
    bind (if heap then bind (as_heap_buffer t this) (release t h) else ret ()) (\<lambda>_.
    set_self other)))"

text \<open>A count above \<^verbatim>\<open>isize::MAX\<close> is given back before the panic. The value that
  \<open>replace_inner\<close> overwrites there is a temporary bitwise copy.\<close>

definition ref_count_overflow :: "target \<Rightarrow> header \<Rightarrow> repr \<Rightarrow> ('r st, 'a) prog" where
  "ref_count_overflow t h r = bind (repr_new t) (\<lambda>_. bind (drop_in t h r) (\<lambda>_. panic))"

definition make_shallow_clone :: "target \<Rightarrow> header \<Rightarrow> repr \<Rightarrow> ('r st, repr) prog" where
  "make_shallow_clone t h r =
    bind (is_heap_buffer t r) (\<lambda>heap.
    bind (if heap then
            bind (as_heap_buffer t r) (\<lambda>hb.
            bind (count_fetch_add t h hb) (\<lambda>prev.
            if ISIZE_MAX t < prev then ref_count_overflow t h r else ret ()))
          else ret ()) (\<lambda>_.
    ret r))"

text \<open>\<^verbatim>\<open>repeat\<close> fills the slice by doubling what is already there.\<close>

partial_function (option) repeat_fill ::
  "nat \<Rightarrow> byte option list \<Rightarrow> nat \<Rightarrow> byte option list option"
where
  "repeat_fill len dst filled =
    (if filled < len then
       let count = min filled (length dst - filled)
       in repeat_fill len (overwrite dst filled (take count dst)) (filled + count)
     else Some dst)"

definition repeat_init :: "byte list \<Rightarrow> nat \<Rightarrow> byte option list \<Rightarrow> ('s, byte option list) prog" where
  "repeat_init text len dst =
    (case repeat_fill len (overwrite dst 0 (map Some (take (length dst) text))) (length text) of
       None \<Rightarrow> undef
     | Some dst \<Rightarrow> ret dst)"

definition repr_repeat :: "target \<Rightarrow> header \<Rightarrow> repr \<Rightarrow> nat \<Rightarrow> ('r st, repr) prog" where
  "repr_repeat t h r n =
    (if n = 1 then make_shallow_clone t h r
     else
       bind (as_bytes t h r) (\<lambda>text.
       bind (ok_or (checked_mul t (length text) n)) (\<lambda>len.
       new_with t h len (repeat_init text len))))"

end
