(* ===== verification/ReprVariants.thy ===== *)
theory ReprVariants
  imports Repr
begin

text \<open>
  The three variants of a \<open>repr\<close>: which one a value is, what each reinterpretation gives, and the
  text a value denotes in a heap of views. From here on the length, the bytes and the string of a
  \<open>repr\<close> are what \<open>denotes\<close> says, on every target.
\<close>

section \<open>The last byte\<close>

lemma tail_word_eq: "length (word1 r) = USIZE_SIZE t \<Longrightarrow> tail_word t r = of_le_bytes (word1 r)"
  by (simp add: tail_word_def from_le_from_ne_bytes)

lemma of_le_bytes_top:
  assumes "length bs = Suc n"
  shows "drop_bit (8 * n) (of_le_bytes bs) = unat (last bs)"
proof -
  have "bs = butlast bs @ [last bs]" using assms by (cases bs) auto
  then have "of_le_bytes bs = of_le_bytes (butlast bs) + 256 ^ n * unat (last bs)"
    using assms of_le_bytes_append [of "butlast bs" "[last bs]"] by simp
  moreover have "of_le_bytes (butlast bs) < 256 ^ n"
    using of_le_bytes_less [of "butlast bs"] assms by simp
  ultimately show ?thesis by (simp add: drop_bit_eq_div power_mult)
qed

lemma last_byte_eq:
  assumes "length (word1 r) = USIZE_SIZE t" "is_LastByte (last (word1 r))"
  shows "last_byte t r = ret (last (word1 r))"
proof -
  have "USIZE_BITS t - 8 = 8 * len_bytes t"
    by (cases "pointer_width t") (simp_all add: len_bytes_numeral target_numbers_32 target_numbers_64)
  with assms show ?thesis
    using of_le_bytes_top [of "word1 r" "len_bytes t"]
    by (simp add: last_byte_def tail_word_eq assert_unchecked_def USIZE_SIZE_len_bytes)
qed

text \<open>An inline buffer whose last byte keeps it inline.\<close>

definition inline_word :: "target \<Rightarrow> byte list \<Rightarrow> bool" where
  "inline_word t B \<longleftrightarrow> length B = MAX_INLINE_SIZE t \<and> unat (last B) < 0xD0"

definition heap_word :: "target \<Rightarrow> heap_buffer \<Rightarrow> bool" where
  "heap_word t hb \<longleftrightarrow> hlen hb < 2 ^ USIZE_BITS t \<and> last (to_ne_bytes t (hlen hb)) = HeapMarker"

definition static_word :: "target \<Rightarrow> static_buffer \<Rightarrow> bool" where
  "static_word t sb \<longleftrightarrow> slen sb < 2 ^ USIZE_BITS t \<and> last (to_ne_bytes t (slen sb)) = StaticMarker"

lemma MAX_INLINE_SIZE_pos [simp]: "0 < MAX_INLINE_SIZE t"
  by (simp add: MAX_INLINE_SIZE_def)

lemma full_inline:
  assumes "inline_holds t B xs" "length xs = MAX_INLINE_SIZE t"
  shows "B = xs" "xs \<noteq> []"
proof -
  show "B = xs" using assms by (auto simp: inline_holds_def)
  show "xs \<noteq> []" using assms(2) MAX_INLINE_SIZE_pos [of t] by (metis less_numeral_extra(3) list.size(3))
qed

lemma inline_holds_word:
  assumes "inline_holds t B xs" "valid_utf8 xs"
  shows "inline_word t B"
proof (cases "length xs = MAX_INLINE_SIZE t")
  case True
  note full = full_inline [OF assms(1) True]
  with valid_utf8_last [OF assms(2)] assms(1) True show ?thesis
    by (simp add: inline_holds_def inline_word_def)
next
  case False
  then have "length xs < 16" using assms(1) MAX_INLINE_SIZE_le [of t] by (simp add: inline_holds_def)
  with False assms(1) show ?thesis by (simp add: inline_holds_def inline_word_def unat_inline_tag)
qed

lemma buf_holds_word: "buf_holds t h hb b v xs \<Longrightarrow> heap_word t hb"
  by (simp add: buf_holds_def heap_word_def text_len_less text_len_last_byte)

lemma static_holds_word: "static_holds t sb xs \<Longrightarrow> static_word t sb"
  by (auto simp: static_holds_def static_word_def static_text_len_less static_text_len_bytes)

lemma last_byte_inline:
  assumes "inline_word t B"
  shows "last_byte t (repr_of_inline t B) = ret (last B)"
proof -
  have "last (drop (USIZE_SIZE t) B) = last B"
    using assms USIZE_SIZE_pos [of t] by (intro last_drop) (simp add: inline_word_def MAX_INLINE_SIZE_def)
  with assms show ?thesis
    using last_byte_eq [of "repr_of_inline t B" t]
    by (simp add: inline_word_def repr_of_inline_def MAX_INLINE_SIZE_def is_LastByte_iff)
qed

lemma last_byte_heap: "heap_word t hb \<Longrightarrow> last_byte t (repr_of_heap t hb) = ret HeapMarker"
  using last_byte_eq [of "repr_of_heap t hb" t] by (simp add: heap_word_def repr_of_heap_def)

lemma last_byte_static: "static_word t sb \<Longrightarrow> last_byte t (repr_of_static t sb) = ret StaticMarker"
  using last_byte_eq [of "repr_of_static t sb" t] by (simp add: static_word_def repr_of_static_def)

lemma inline_word_neq: "inline_word t B \<Longrightarrow> last B \<noteq> HeapMarker" "inline_word t B \<Longrightarrow> last B \<noteq> StaticMarker"
  by (auto simp: inline_word_def)

lemma markers_differ [simp]: "HeapMarker \<noteq> StaticMarker" "StaticMarker \<noteq> HeapMarker"
  by (simp_all add: HeapMarker_def StaticMarker_def)

lemma variant_tests [simp]:
  "inline_word t B \<Longrightarrow> is_heap_buffer t (repr_of_inline t B) = ret False"
  "inline_word t B \<Longrightarrow> is_static_buffer t (repr_of_inline t B) = ret False"
  "inline_word t B \<Longrightarrow> is_inline_buffer t (repr_of_inline t B) = ret True"
  "heap_word t hb \<Longrightarrow> is_heap_buffer t (repr_of_heap t hb) = ret True"
  "heap_word t hb \<Longrightarrow> is_static_buffer t (repr_of_heap t hb) = ret False"
  "static_word t sb \<Longrightarrow> is_heap_buffer t (repr_of_static t sb) = ret False"
  "static_word t sb \<Longrightarrow> is_static_buffer t (repr_of_static t sb) = ret True"
  using inline_word_neq [of t B]
  by (simp_all add: is_heap_buffer_def is_static_buffer_def is_inline_buffer_def last_byte_inline
      last_byte_heap last_byte_static) (simp add: inline_word_def)

lemma reinterpret [simp]:
  "inline_word t B \<Longrightarrow> from_inline t B = ret (repr_of_inline t B)"
  "heap_word t hb \<Longrightarrow> from_heap t hb = ret (repr_of_heap t hb)"
  "static_word t sb \<Longrightarrow> from_static t sb = ret (repr_of_static t sb)"
  "inline_word t B \<Longrightarrow> as_inline_buffer t (repr_of_inline t B) = ret B"
  "heap_word t hb \<Longrightarrow> as_heap_buffer t (repr_of_heap t hb) = ret hb"
  "static_word t sb \<Longrightarrow> as_static_buffer t (repr_of_static t sb) = ret sb"
proof -
  have eta: "\<lparr>hptr = hptr hb, hlen = hlen hb\<rparr> = hb" "\<lparr>sptr = sptr sb, slen = slen sb\<rparr> = sb" by simp_all
  show "inline_word t B \<Longrightarrow> from_inline t B = ret (repr_of_inline t B)"
    "heap_word t hb \<Longrightarrow> from_heap t hb = ret (repr_of_heap t hb)"
    "static_word t sb \<Longrightarrow> from_static t sb = ret (repr_of_static t sb)"
    "inline_word t B \<Longrightarrow> as_inline_buffer t (repr_of_inline t B) = ret B"
    "heap_word t hb \<Longrightarrow> as_heap_buffer t (repr_of_heap t hb) = ret hb"
    "static_word t sb \<Longrightarrow> as_static_buffer t (repr_of_static t sb) = ret sb"
  by (simp_all add: from_inline_def from_heap_def from_static_def as_inline_buffer_def
      as_heap_buffer_def as_static_buffer_def assert_unchecked_def)
    (simp_all add: repr_of_inline_def repr_of_heap_def repr_of_static_def heap_word_def
      static_word_def from_to_ne_bytes eta)
qed

section \<open>What a value denotes\<close>

definition denotes :: "target \<Rightarrow> (nat \<Rightarrow> view option) \<Rightarrow> header \<Rightarrow> repr \<Rightarrow> byte list \<Rightarrow> bool" where
  "denotes t H h r xs \<longleftrightarrow> valid_utf8 xs \<and>
    ((\<exists>B. r = repr_of_inline t B \<and> inline_holds t B xs) \<or>
     (\<exists>sb. r = repr_of_static t sb \<and> static_holds t sb xs) \<or>
     (\<exists>hb b v. r = repr_of_heap t hb \<and> H b = Some v \<and> buf_holds t h hb b v xs))"

lemma denotes_cases [consumes 1, case_names inline static heap]:
  assumes "denotes t H h r xs"
  obtains B where "r = repr_of_inline t B" "inline_holds t B xs" "inline_word t B" "valid_utf8 xs"
  | sb where "r = repr_of_static t sb" "static_holds t sb xs" "static_word t sb" "valid_utf8 xs"
  | hb b v where "r = repr_of_heap t hb" "H b = Some v" "buf_holds t h hb b v xs" "heap_word t hb"
      "valid_utf8 xs"
  using assms inline_holds_word buf_holds_word static_holds_word unfolding denotes_def by blast

lemma denotes_valid: "denotes t H h r xs \<Longrightarrow> valid_utf8 xs"
  by (simp add: denotes_def)

lemma denotes_inline:
  "valid_utf8 xs \<Longrightarrow> inline_holds t B xs \<Longrightarrow> denotes t H h (repr_of_inline t B) xs"
  by (auto simp: denotes_def)

lemma denotes_heap:
  "valid_utf8 xs \<Longrightarrow> H b = Some v \<Longrightarrow> buf_holds t h hb b v xs \<Longrightarrow> denotes t H h (repr_of_heap t hb) xs"
  by (auto simp: denotes_def)

lemma denotes_static:
  "valid_utf8 xs \<Longrightarrow> static_holds t sb xs \<Longrightarrow> denotes t H h (repr_of_static t sb) xs"
  by (auto simp: denotes_def)

section \<open>Length and bytes\<close>

lemma mask_low_bytes: "n AND drop_bit 8 (USIZE_MAX t) = n mod 256 ^ len_bytes t"
proof -
  have "drop_bit 8 (USIZE_MAX t) = mask (8 * len_bytes t)"
    by (cases "pointer_width t")
      (simp_all add: len_bytes_numeral target_numbers_32 target_numbers_64 drop_bit_eq_div
        mask_eq_exp_minus_1)
  then show ?thesis by (simp add: take_bit_eq_mask [symmetric] take_bit_eq_mod power_mult)
qed

lemma tagged_tail:
  assumes "n < 256 ^ len_bytes t" "length (word1 r) = USIZE_SIZE t"
    and "word1 r = le_bytes (len_bytes t) n @ [m]"
  shows "tail_word t r AND drop_bit 8 (USIZE_MAX t) = n"
  using assms(1) by (simp add: mask_low_bytes tail_word_eq [OF assms(2)] assms(3) of_le_bytes_append
      of_le_bytes_le_bytes)

lemma inline_len_value:
  assumes "inline_holds t B xs" "valid_utf8 xs"
  shows "min (wrapping_sub t (unat (last B)) (unat MASK_1100_0000)) (MAX_INLINE_SIZE t) = length xs"
proof (cases "length xs = MAX_INLINE_SIZE t")
  case True
  note full = full_inline [OF assms(1) True]
  with valid_utf8_last [OF assms(2)] have "unat (last B) < 0xC0" by simp
  then have "16 \<le> wrapping_sub t (unat (last B)) 0xC0"
    by (cases "pointer_width t") (auto simp: wrapping_sub_def target_numbers_32 target_numbers_64)
  with True MAX_INLINE_SIZE_le [of t] show ?thesis by simp
next
  case False
  with assms(1) have n: "length xs < MAX_INLINE_SIZE t" "last B = inline_tag (length xs)"
    by (simp_all add: inline_holds_def)
  with MAX_INLINE_SIZE_le [of t] show ?thesis
    by (cases "pointer_width t")
      (auto simp: wrapping_sub_def target_numbers_32 target_numbers_64 unat_inline_tag)
qed

lemma if_less_min: "(if n < m then n else m) = min m (n :: nat)"
  by simp

lemma wp_repr_len:
  assumes rep: "heap_rep t H s" and d: "denotes t H h r xs"
  shows "wp (repr_len t h r) Q E P s = Q (length xs) s"
  using d
proof (cases rule: denotes_cases)
  case (inline B)
  then show ?thesis
    using inline_len_value [of t B xs]
    by (cases "pointer_width t")
      (simp_all add: repr_len_def last_byte_inline Let_def if_less_min inline_word_def)
next
  case (static sb)
  have n: "length xs \<le> Static_MAX_LENGTH t"
    and w: "to_ne_bytes t (slen sb) = le_bytes (len_bytes t) (length xs) @ [StaticMarker]"
    using static(2) static_text_len_bytes by (auto simp: static_holds_def)
  have "tail_word t (repr_of_static t sb) AND drop_bit 8 (USIZE_MAX t) = length xs"
    using n w by (intro tagged_tail [where m = StaticMarker])
      (simp_all add: Static_MAX_LENGTH_short repr_of_static_def USIZE_SIZE_len_bytes)
  with static show ?thesis
    using static_holds_len [OF static(2)]
    by (cases "pointer_width t") (simp_all add: repr_len_def last_byte_static Let_def)
next
  case (heap hb b v)
  have L: "live t s h hb b v" using rep heap(2,3) by (rule live_intro)
  show ?thesis
  proof (cases "pointer_width t")
    case P64
    have n: "length xs \<le> MAX_LEN t"
      using buf_holds_len_bounds(1) [OF heap(3) heap_rep_ok [OF rep heap(2)]] P64
      by (simp add: Capacity_MAX_def)
    then have "to_ne_bytes t (hlen hb) = le_bytes (len_bytes t) (length xs) @ [HeapMarker]"
      using heap(3) by (simp add: buf_holds_def text_len_def TextLen_bytes)
    then have "tail_word t (repr_of_heap t hb) AND drop_bit 8 (USIZE_MAX t) = length xs"
      using n by (intro tagged_tail [where m = HeapMarker])
        (simp_all add: MAX_LEN_short repr_of_heap_def USIZE_SIZE_len_bytes)
    with P64 heap show ?thesis by (simp add: repr_len_def last_byte_heap Let_def)
  next
    case P32
    with heap show ?thesis by (simp add: repr_len_def wp_heap_len [OF L heap(3)])
  qed
qed

lemma wp_as_bytes:
  assumes rep: "heap_rep t H s" and d: "denotes t H h r xs"
  shows "wp (as_bytes t h r) Q E P s = Q xs s"
  using d
proof (cases rule: denotes_cases)
  case (inline B)
  then show ?thesis
    using wp_repr_len [OF rep d]
    by (simp add: as_bytes_def last_byte_inline)
      (simp add: inline_word_def inline_holds_def repr_of_inline_def)
next
  case (static sb)
  then show ?thesis
    using wp_repr_len [OF rep d]
    by (auto simp: as_bytes_def last_byte_static) (auto simp: static_holds_def repr_of_static_def)
next
  case (heap hb b v)
  have L: "live t s h hb b v" using rep heap(2,3) by (rule live_intro)
  from heap show ?thesis
    using wp_repr_len [OF rep d] wp_heap_read [OF L heap(3)]
    by (simp add: as_bytes_def last_byte_heap) (simp add: repr_of_heap_def)
qed

lemma wp_as_str:
  "heap_rep t H s \<Longrightarrow> denotes t H h r xs \<Longrightarrow> wp (as_str t h r) Q E P s = Q xs s"
  by (simp add: as_str_def wp_as_bytes denotes_valid)

end
