(* ===== verification/Owners.thy ===== *)
theory Owners
  imports ReprVariants "HOL-Library.Multiset"
begin

text \<open>
  The invariant of the whole crate. An owner is a live value: its mutability, its \<open>repr\<close> and the
  text it stands for. \<open>owns t H R\<close> says that every owner in the multiset \<open>R\<close> denotes its text in
  the heap \<open>H\<close>, and that every allocation's reference count is exactly the number of owners that
  point to it, so it is positive: no allocation is leaked, freed early or counted twice.
\<close>

type_synonym owner = "header \<times> repr \<times> byte list"

definition block_of :: "repr \<Rightarrow> nat option" where
  "block_of r = (case word0 r of Address (HeapPtr b _) \<Rightarrow> Some b | _ \<Rightarrow> None)"

definition owner_of :: "nat \<Rightarrow> owner \<Rightarrow> bool" where
  "owner_of b w \<longleftrightarrow> block_of (fst (snd w)) = Some b"

definition handles :: "owner multiset \<Rightarrow> nat \<Rightarrow> nat" where
  "handles R b = size (filter_mset (owner_of b) R)"

definition count_ok :: "target \<Rightarrow> nat \<Rightarrow> view \<Rightarrow> bool" where
  "count_ok t n v \<longleftrightarrow> vcount v = n \<and> 0 < n \<and> n \<le> ISIZE_MAX t + 1"

definition owns :: "target \<Rightarrow> (nat \<Rightarrow> view option) \<Rightarrow> owner multiset \<Rightarrow> bool" where
  "owns t H R \<longleftrightarrow>
    (\<forall>h r xs. (h, r, xs) \<in># R \<longrightarrow> denotes t H h r xs) \<and>
    (\<forall>b v. H b = Some v \<longrightarrow> count_ok t (handles R b) v)"

definition sound :: "target \<Rightarrow> owner multiset \<Rightarrow> 'r st \<Rightarrow> bool" where
  "sound t R s \<longleftrightarrow> (\<exists>H. heap_rep t H s \<and> owns t H R)"

lemma handles_add [simp]:
  "handles (add_mset (h, r, xs) R) b = handles R b + (if block_of r = Some b then 1 else 0)"
  by (simp add: handles_def owner_of_def)

lemma handles_empty [simp]: "handles {#} b = 0"
  by (simp add: handles_def)

lemma handles_zero: "handles R b = 0 \<longleftrightarrow> (\<forall>h r xs. (h, r, xs) \<in># R \<longrightarrow> block_of r \<noteq> Some b)"
  by (auto simp: handles_def owner_of_def)

section \<open>Denotation and the heap\<close>

lemma block_of_simps [simp]:
  "block_of (repr_of_inline t B) = None"
  "hptr hb = HeapPtr b off \<Longrightarrow> block_of (repr_of_heap t hb) = Some b"
  "sptr sb = StaticPtr ys \<Longrightarrow> block_of (repr_of_static t sb) = None"
  by (simp_all add: block_of_def repr_of_inline_def repr_of_heap_def repr_of_static_def)

lemma buf_holds_block: "buf_holds t h hb b v xs \<Longrightarrow> block_of (repr_of_heap t hb) = Some b"
  by (simp add: buf_holds_def)

lemma static_holds_block: "static_holds t sb xs \<Longrightarrow> block_of (repr_of_static t sb) = None"
  by (auto simp: static_holds_def)

lemma buf_holds_vcount [simp]: "buf_holds t h hb b (v\<lparr>vcount := c\<rparr>) xs = buf_holds t h hb b v xs"
  by (simp add: buf_holds_def)

lemma denotes_block:
  assumes "denotes t H h r xs" "block_of r = Some b"
  obtains hb v where "r = repr_of_heap t hb" "H b = Some v" "buf_holds t h hb b v xs"
    "heap_word t hb" "valid_utf8 xs"
  using assms(1)
proof (cases rule: denotes_cases)
  case (heap hb b' v)
  with assms(2) buf_holds_block have "b' = b" by auto
  with heap that show ?thesis by blast
qed (use assms(2) static_holds_block in auto)

lemma denotes_no_block: "denotes t H h r xs \<Longrightarrow> block_of r = None \<Longrightarrow> denotes t H' h r xs"
  using buf_holds_block by (fastforce simp: denotes_def)

lemma denotes_update:
  assumes "denotes t H h r xs" "block_of r \<noteq> Some b"
  shows "denotes t (H(b := x)) h r xs"
proof (cases "block_of r")
  case (Some b')
  with assms(1) obtain hb v where "r = repr_of_heap t hb" "H b' = Some v" "buf_holds t h hb b' v xs"
    "valid_utf8 xs" by (rule denotes_block)
  with assms(2) Some show ?thesis using denotes_heap [of xs "H(b := x)" b' v t h hb] by simp
qed (use assms denotes_no_block in blast)

lemma denotes_vcount:
  assumes "denotes t H h r xs" "H b = Some v"
  shows "denotes t (H(b \<mapsto> v\<lparr>vcount := c\<rparr>)) h r xs"
proof (cases "block_of r = Some b")
  case True
  with assms(1) obtain hb v' where "r = repr_of_heap t hb" "H b = Some v'" "buf_holds t h hb b v' xs"
    "valid_utf8 xs" by (rule denotes_block)
  with assms(2) show ?thesis using denotes_heap [of xs "H(b \<mapsto> v\<lparr>vcount := c\<rparr>)" b] by simp
qed (use assms denotes_update in blast)

section \<open>Adding and removing owners\<close>

lemma owns_denotes: "owns t H R \<Longrightarrow> (h, r, xs) \<in># R \<Longrightarrow> denotes t H h r xs"
  by (simp add: owns_def)

lemma owns_count:
  assumes "owns t H R" "H b = Some v"
  shows "vcount v = handles R b" "0 < vcount v" "vcount v \<le> ISIZE_MAX t + 1"
  using assms unfolding owns_def count_ok_def by metis+

lemma ownsI:
  assumes "\<And>h r xs. (h, r, xs) \<in># R \<Longrightarrow> denotes t H h r xs"
    and "\<And>b v. H b = Some v \<Longrightarrow> count_ok t (handles R b) v"
  shows "owns t H R"
  using assms by (simp add: owns_def)

lemma owns_count_ok: "owns t H R \<Longrightarrow> H b = Some v \<Longrightarrow> count_ok t (handles R b) v"
  by (simp add: owns_def)

lemma owns_add_plain:
  "block_of r = None \<Longrightarrow> owns t H (add_mset (h, r, xs) R) \<longleftrightarrow> denotes t H h r xs \<and> owns t H R"
  by (auto simp: owns_def)

lemma owns_no_handles: "owns t H R \<Longrightarrow> H b = None \<Longrightarrow> handles R b = 0"
  unfolding handles_zero by (metis denotes_block option.distinct(1) owns_denotes)

lemma owns_take:
  assumes o: "owns t H (add_mset (h, r, xs) R)" and b: "block_of r = Some b" "H b = Some v"
    and one: "vcount v = 1"
  shows "owns t (H(b := None)) R"
proof (rule ownsI)
  have 0: "handles R b = 0" using owns_count(1) [OF o b(2)] b(1) one by simp
  fix h' r' ys assume "(h', r', ys) \<in># R"
  with 0 owns_denotes [OF o] show "denotes t (H(b := None)) h' r' ys"
    by (intro denotes_update) (auto simp: handles_zero)
next
  fix b' w assume w: "(H(b := None)) b' = Some w"
  with owns_count_ok [OF o, of b' w] b(1) show "count_ok t (handles R b') w"
    by (simp split: if_splits)
qed

lemma owns_put:
  assumes o: "owns t H R" and b: "H b = None" "block_of r = Some b" and one: "vcount v = 1"
    and d: "denotes t (H(b \<mapsto> v)) h r xs"
  shows "owns t (H(b \<mapsto> v)) (add_mset (h, r, xs) R)"
proof (rule ownsI)
  have 0: "handles R b = 0" using o b(1) by (rule owns_no_handles)
  show "denotes t (H(b \<mapsto> v)) h' r' ys" if "(h', r', ys) \<in># add_mset (h, r, xs) R" for h' r' ys
  proof (cases "(h', r', ys) \<in># R")
    case True
    with 0 owns_denotes [OF o] show ?thesis by (intro denotes_update) (auto simp: handles_zero)
  qed (use that d in auto)
  show "count_ok t (handles (add_mset (h, r, xs) R) b') w" if "(H(b \<mapsto> v)) b' = Some w" for b' w
  proof (cases "b' = b")
    case True
    with that b(2) 0 one show ?thesis by (simp add: count_ok_def)
  next
    case False
    with that owns_count_ok [OF o, of b' w] b(2) show ?thesis by simp
  qed
qed

lemma owns_release:
  assumes o: "owns t H (add_mset (h, r, xs) R)" and b: "block_of r = Some b" "H b = Some v"
    and shared: "vcount v \<noteq> 1"
  shows "owns t (H(b \<mapsto> v\<lparr>vcount := vcount v - 1\<rparr>)) R"
proof (rule ownsI)
  fix h' r' ys assume "(h', r', ys) \<in># R"
  with owns_denotes [OF o] b(2) show "denotes t (H(b \<mapsto> v\<lparr>vcount := vcount v - 1\<rparr>)) h' r' ys"
    by (intro denotes_vcount) auto
next
  fix b' w assume w: "(H(b \<mapsto> v\<lparr>vcount := vcount v - 1\<rparr>)) b' = Some w"
  show "count_ok t (handles R b') w"
  proof (cases "b' = b")
    case True
    with w b(1) shared owns_count [OF o b(2)] show ?thesis by (auto simp: count_ok_def)
  next
    case False
    with w b(1) owns_count_ok [OF o, of b' w] show ?thesis by simp
  qed
qed

lemma owns_clone:
  assumes o: "owns t H R" and w: "(h, r, xs) \<in># R" and b: "block_of r = Some b" "H b = Some v"
    and small: "vcount v \<le> ISIZE_MAX t"
  shows "owns t (H(b \<mapsto> v\<lparr>vcount := vcount v + 1\<rparr>)) (add_mset (h, r, xs) R)"
proof (rule ownsI)
  fix h' r' ys assume "(h', r', ys) \<in># add_mset (h, r, xs) R"
  with w have "(h', r', ys) \<in># R" by auto
  with owns_denotes [OF o] b(2) show "denotes t (H(b \<mapsto> v\<lparr>vcount := vcount v + 1\<rparr>)) h' r' ys"
    by (intro denotes_vcount) auto
next
  fix b' w assume w: "(H(b \<mapsto> v\<lparr>vcount := vcount v + 1\<rparr>)) b' = Some w"
  show "count_ok t (handles (add_mset (h, r, xs) R) b') w"
  proof (cases "b' = b")
    case True
    with w b(1) small owns_count [OF o b(2)] show ?thesis by (auto simp: count_ok_def)
  next
    case False
    with w b(1) owns_count_ok [OF o, of b' w] show ?thesis by simp
  qed
qed

end
