(* ===== verification/ReprCore.thy ===== *)
theory ReprCore
  imports Owners
begin

text \<open>
  The operations common to both mutabilities keep the invariant \<open>sound\<close>: what each returns, what
  it adds to or removes from the owners, and why it may fail. A specification speaks of an
  arbitrary rest \<open>R\<close> of owners, so it also says that every other value keeps its text.
\<close>

lemma soundE:
  assumes "sound t R s"
  obtains H where "heap_rep t H s" "owns t H R"
  using assms by (auto simp: sound_def)

lemma sound_self [simp]: "sound t R (s\<lparr>self := r\<rparr>) = sound t R s"
  by (simp add: sound_def)

lemma sound_calls [simp]: "sound t R (s\<lparr>calls := c\<rparr>) = sound t R s"
  by (simp add: sound_def)

lemma sound_valid: "sound t R s \<Longrightarrow> (h, r, xs) \<in># R \<Longrightarrow> valid_utf8 xs"
  by (meson soundE owns_denotes denotes_valid)

text \<open>No other owner points to the block of \<open>r\<close>.\<close>

definition alone :: "owner multiset \<Rightarrow> repr \<Rightarrow> bool" where
  "alone R r \<longleftrightarrow> (\<forall>b. block_of r = Some b \<longrightarrow> handles R b = 0)"

lemma alone_plain [simp]: "block_of r = None \<Longrightarrow> alone R r"
  by (simp add: alone_def)

definition static_repr :: "repr \<Rightarrow> bool" where
  "static_repr r \<longleftrightarrow> (case word0 r of Address (StaticPtr _) \<Rightarrow> True | _ \<Rightarrow> False)"

text \<open>A value that may be written in place: not static, and the only handle of its block.\<close>

definition modifiable :: "owner multiset \<Rightarrow> repr \<Rightarrow> bool" where
  "modifiable R r \<longleftrightarrow> alone R r \<and> \<not> static_repr r"

lemma static_repr_simps [simp]:
  "\<not> static_repr (repr_of_inline t B)"
  "hptr hb = HeapPtr b off \<Longrightarrow> \<not> static_repr (repr_of_heap t hb)"
  "sptr sb = StaticPtr ys \<Longrightarrow> static_repr (repr_of_static t sb)"
  by (simp_all add: static_repr_def repr_of_inline_def repr_of_heap_def repr_of_static_def)

lemma modifiable_inline [simp]: "modifiable R (repr_of_inline t B)"
  by (simp add: modifiable_def)

section \<open>Reading\<close>

lemma sound_repr_len:
  "sound t R s \<Longrightarrow> (h, r, xs) \<in># R \<Longrightarrow> wp (repr_len t h r) Q E P s = Q (length xs) s"
  by (meson soundE owns_denotes wp_repr_len)

lemma sound_as_bytes:
  "sound t R s \<Longrightarrow> (h, r, xs) \<in># R \<Longrightarrow> wp (as_bytes t h r) Q E P s = Q xs s"
  by (meson soundE owns_denotes wp_as_bytes)

lemma sound_as_str:
  "sound t R s \<Longrightarrow> (h, r, xs) \<in># R \<Longrightarrow> wp (as_str t h r) Q E P s = Q xs s"
  by (meson soundE owns_denotes wp_as_str)

text \<open>Which of the three variants an owner is.\<close>

lemma sound_is_heap_buffer:
  assumes "sound t R s" "(h, r, xs) \<in># R"
  shows "is_heap_buffer t r = ret (block_of r \<noteq> None)"
proof -
  from assms(1) obtain H where H: "heap_rep t H s" "owns t H R" by (rule soundE)
  from owns_denotes [OF H(2) assms(2)] show ?thesis
    by (cases rule: denotes_cases) (auto simp: buf_holds_block static_holds_block)
qed

lemma sound_is_unique:
  assumes "sound t (add_mset (h, r, xs) R) s"
  shows "wp (is_unique t h r) Q E P s = Q (alone R r) s"
proof -
  from assms obtain H where H: "heap_rep t H s" "owns t H (add_mset (h, r, xs) R)" by (rule soundE)
  have "denotes t H h r xs" using owns_denotes [OF H(2)] by simp
  then show ?thesis
  proof (cases rule: denotes_cases)
    case (heap hb b v)
    have L: "live t s h hb b v" using H(1) heap(2,3) by (rule live_intro)
    have "vcount v = 1 \<longleftrightarrow> alone R r"
      using owns_count(1) [OF H(2) heap(2)] heap(1,3) by (simp add: alone_def buf_holds_block)
    with heap show ?thesis by (simp add: is_unique_def wp_heap_is_unique [OF L])
  qed (simp_all add: is_unique_def static_holds_block)
qed

section \<open>Dropping\<close>

lemma wrapping_sub_1: "0 < n \<Longrightarrow> n < 2 ^ USIZE_BITS t \<Longrightarrow> wrapping_sub t n 1 = n - 1"
  by (cases n) (simp_all add: wrapping_sub_def)

lemma wrapping_add_1: "n + 1 < 2 ^ USIZE_BITS t \<Longrightarrow> wrapping_add t n 1 = n + 1"
  by (simp add: wrapping_add_def)

text \<open>Blocks other than the one of \<open>r\<close> are untouched.\<close>

definition keeps :: "repr \<Rightarrow> 'r st \<Rightarrow> 'r st \<Rightarrow> bool" where
  "keeps r s s' \<longleftrightarrow> (\<forall>b. block_of r \<noteq> Some b \<longrightarrow> blocks s' b = blocks s b)"

lemma sound_drop_in:
  assumes "sound t (add_mset (h, r, xs) R) s"
  shows "wp (drop_in t h r)
    (\<lambda>_ s'. sound t R s' \<and> mem_only s s' \<and> calls s' = calls s \<and> keeps r s s') E P s"
proof -
  from assms obtain H where H: "heap_rep t H s" "owns t H (add_mset (h, r, xs) R)" by (rule soundE)
  have "denotes t H h r xs" using owns_denotes [OF H(2)] by simp
  then show ?thesis
  proof (cases rule: denotes_cases)
    case (heap hb b v)
    have L: "live t s h hb b v" using H(1) heap(2,3) by (rule live_intro)
    have b: "block_of r = Some b" using heap(1,3) by (simp add: buf_holds_block)
    note count = owns_count [OF H(2) heap(2)]
    have sub: "wrapping_sub t (vcount v) 1 = vcount v - 1"
      using count(2,3) ISIZE_MAX_less_power [of t] by (intro wrapping_sub_1) simp_all
    have "sound t R (s\<lparr>blocks := (blocks s)(b := None)\<rparr>)" if "vcount v = 1"
      using heap_rep_remove [OF H(1)] owns_take [OF H(2) b heap(2) that] unfolding sound_def by blast
    moreover have "sound t R (put_view t b (v\<lparr>vcount := vcount v - 1\<rparr>) s)" if "vcount v \<noteq> 1"
    proof -
      have "view_ok t (v\<lparr>vcount := vcount v - 1\<rparr>)"
        using heap_rep_ok [OF H(1) heap(2)]
        by (auto simp: view_ok_def intro: le_less_trans [OF diff_le_self])
      with heap_rep_put_view [OF H(1) heap(2)] owns_release [OF H(2) b heap(2) that]
      show ?thesis unfolding sound_def by blast
    qed
    ultimately show ?thesis
      using heap b by (simp add: drop_in_def wp_release [OF L heap(3)] sub [simplified])
        (simp add: mem_only_def keeps_def put_view_def)
  next
    case (inline B)
    with H show ?thesis by (auto simp: drop_in_def sound_def owns_add_plain keeps_def)
  next
    case (static sb)
    with H show ?thesis by (auto simp: drop_in_def sound_def owns_add_plain static_holds_block keeps_def)
  qed
qed

lemma sound_replace_inner:
  assumes "sound t (add_mset (h, self s, xs) R) s"
  shows "wp (replace_inner t h other)
    (\<lambda>_ s'. sound t R s' \<and> self s' = other \<and> oom s' = oom s \<and> calls s' = calls s \<and>
       keeps (self s) s s') E P s"
proof -
  have "replace_inner t h other s = bind (drop_in t h (self s)) (\<lambda>_. set_self other) s"
    by (simp add: replace_inner_def drop_in_def bind_def gets_def split: outcome.split)
  then have "wp (replace_inner t h other) Q E P s = wp (bind (drop_in t h (self s)) (\<lambda>_. set_self other)) Q E P s"
    for Q by (simp add: wp_def)
  then show ?thesis
    using sound_drop_in [OF assms, of E P] by (auto simp: set_self_def mem_only_def keeps_def elim!: wp_mono)
qed

section \<open>Constructors\<close>

lemma sound_add_plain:
  "sound t R s \<Longrightarrow> block_of r = None \<Longrightarrow> (\<And>H. denotes t H h r xs) \<Longrightarrow> sound t (add_mset (h, r, xs) R) s"
  by (auto simp: sound_def owns_add_plain)

lemma inline_word_inline_bytes:
  "length xs \<le> MAX_INLINE_SIZE t \<Longrightarrow> valid_utf8 xs \<Longrightarrow> inline_word t (inline_bytes t xs)"
  using inline_holds_inline_bytes inline_holds_word by blast

lemma sound_add_inline:
  "sound t R s \<Longrightarrow> inline_holds t B xs \<Longrightarrow> valid_utf8 xs \<Longrightarrow>
    sound t (add_mset (h, repr_of_inline t B, xs) R) s"
  by (simp add: sound_add_plain denotes_inline)

lemma inline_new_from_inline:
  "length xs \<le> MAX_INLINE_SIZE t \<Longrightarrow> valid_utf8 xs \<Longrightarrow>
    bind (inline_new t xs) (from_inline t) = ret (repr_of_inline t (inline_bytes t xs))"
  by (simp add: inline_new_eq inline_word_inline_bytes)

lemma repr_new_eq: "repr_new t = ret (repr_of_inline t (inline_bytes t []))"
  by (simp add: repr_new_def inline_empty_eq inline_word_inline_bytes)

lemma sound_repr_new: "sound t R s \<Longrightarrow> sound t (add_mset (h, repr_of_inline t (inline_bytes t []), []) R) s"
  by (simp add: sound_add_inline inline_holds_inline_bytes)

lemma len_utf8_inline: "len_utf8 c \<le> MAX_INLINE_SIZE t"
proof -
  have "4 \<le> MAX_INLINE_SIZE t" using USIZE_SIZE_cases [of t] by (auto simp: MAX_INLINE_SIZE_def)
  with len_utf8_le_4 [of c] show ?thesis by linarith
qed

lemma from_char_eq: "scalar c \<Longrightarrow> from_char t c = ret (repr_of_inline t (inline_bytes t (encode_utf8 c)))"
  by (simp add: from_char_def inline_from_char_eq inline_word_inline_bytes len_utf8_inline)

text \<open>A fresh heap buffer joins the owners.\<close>

lemma sound_add_heap:
  assumes "sound t R s" "fits t h c" "length xs \<le> c" "h = ExactHeader \<Longrightarrow> c = length xs" "valid_utf8 xs"
  defines "r \<equiv> repr_of_heap t (new_buf t h c xs s)"
  shows "sound t (add_mset (h, r, xs) R) (add_view t (new_view t h c xs) s)" "modifiable R r"
    "heap_word t (new_buf t h c xs s)"
proof -
  let ?v = "new_view t h c xs" and ?b = "next_id s"
  from assms(1) obtain H where H: "heap_rep t H s" "owns t H R" by (rule soundE)
  have none: "H ?b = None" using H(1) by (rule heap_rep_fresh)
  have B: "buf_holds t h (new_buf t h c xs s) ?b ?v xs"
    using assms(3,4) by (rule buf_holds_new_view)
  have b: "block_of r = Some ?b" by (simp add: r_def new_buf_def)
  have "heap_rep t (H(?b \<mapsto> ?v)) (add_view t ?v s)"
    using H(1) assms(2,3) by (simp add: heap_rep_add_view)
  moreover have "owns t (H(?b \<mapsto> ?v)) (add_mset (h, r, xs) R)"
    using H(2) none b B assms(5) by (intro owns_put) (auto simp: r_def intro: denotes_heap)
  ultimately show "sound t (add_mset (h, r, xs) R) (add_view t ?v s)" by (auto simp: sound_def)
  show "modifiable R r"
    using owns_no_handles [OF H(2) none] b by (simp add: modifiable_def alone_def r_def new_buf_def)
  show "heap_word t (new_buf t h c xs s)" using B by (rule buf_holds_word)
qed

lemma calls_add_view [simp]: "calls (add_view t v s) = Suc (calls s)" "self (add_view t v s) = self s"
  "oom (add_view t v s) = oom s"
  by (simp_all add: add_view_def)

lemma refused_alloc [simp]: "oom s (calls s) \<Longrightarrow> refused t h c s (s\<lparr>calls := Suc (calls s)\<rparr>)"
  by (auto simp: refused_def oom_between_def)

lemma refused_fits [simp]: "\<not> fits t h c \<Longrightarrow> refused t h c s s'"
  by (simp add: refused_def)

lemma mem_only_calls [simp]: "mem_only s (s\<lparr>calls := Suc (calls s)\<rparr>)"
  by (simp add: mem_only_def)

lemma sound_from_str:
  assumes "sound t R s" "valid_utf8 xs"
  shows "wp (from_str t h xs)
    (\<lambda>r s'. sound t (add_mset (h, r, xs) R) s' \<and> mem_only s s' \<and> modifiable R r)
    (\<lambda>s'. sound t R s' \<and> mem_only s s' \<and> MAX_INLINE_SIZE t < length xs \<and> refused t h (length xs) s s')
    P s"
proof (cases "length xs \<le> MAX_INLINE_SIZE t")
  case True
  with assms show ?thesis
    by (simp add: from_str_def inline_new_from_inline sound_add_inline inline_holds_inline_bytes
        del: wp_bind)
next
  case False
  then show ?thesis
    using assms sound_add_heap [OF assms(1), of h "length xs" xs]
    by (simp add: from_str_def wp_heap_new)
qed

lemma sound_from_static_str:
  assumes "sound t R s" "valid_utf8 xs"
  shows "wp (from_static_str t xs)
    (\<lambda>r s'. s' = s \<and> sound t (add_mset (h, r, xs) R) s \<and> block_of r = None)
    (\<lambda>s'. s' = s \<and> Static_MAX_LENGTH t < length xs) P s"
proof (cases "length xs \<le> MAX_INLINE_SIZE t")
  case True
  with assms show ?thesis
    by (simp add: from_static_str_def inline_new_from_inline sound_add_inline inline_holds_inline_bytes
        del: wp_bind)
next
  case False
  let ?sb = "\<lparr>sptr = StaticPtr xs, slen = static_text_len t (length xs)\<rparr>"
  have "static_holds t ?sb xs" if "length xs \<le> Static_MAX_LENGTH t"
    using that by (simp add: static_holds_def)
  with False assms show ?thesis
    by (auto simp: from_static_str_def static_new_eq static_holds_word
        intro!: sound_add_plain denotes_static)
qed

lemma wp_from_bool:
  "wp (from_bool t b) Q E P s \<longleftrightarrow> Q (repr_of_inline t (inline_bytes t
    (if b then [0x74, 0x72, 0x75, 0x65] else [0x66, 0x61, 0x6C, 0x73, 0x65]))) s"
proof -
  have 5: "5 \<le> MAX_INLINE_SIZE t" using USIZE_SIZE_cases [of t] by (auto simp: MAX_INLINE_SIZE_def)
  have "valid_utf8 [0x74, 0x72, 0x75, 0x65]" "valid_utf8 [0x66, 0x61, 0x6C, 0x73, 0x65]"
    by (rule valid_utf8_ascii, simp)+
  with 5 show ?thesis
    by (simp add: from_bool_def inline_new_from_inline del: wp_bind)
qed

section \<open>Cloning\<close>

text \<open>A clone of a heap string adds one owner to the same block and copies nothing. At
  \<^verbatim>\<open>isize::MAX + 1\<close> owners it panics instead, with the count given back.\<close>

definition count_limit :: "target \<Rightarrow> owner multiset \<Rightarrow> repr \<Rightarrow> bool" where
  "count_limit t R r \<longleftrightarrow> (\<exists>b. block_of r = Some b \<and> ISIZE_MAX t < handles R b)"

lemma live_vcount:
  "live t s h hb b v \<Longrightarrow> c < 2 ^ USIZE_BITS t \<Longrightarrow>
    live t (put_view t b (v\<lparr>vcount := c\<rparr>) s) h hb b (v\<lparr>vcount := c\<rparr>)"
  by (simp add: live_def put_view_def)

lemma sound_make_shallow_clone:
  assumes "sound t R s" "(h, r, xs) \<in># R"
  shows "wp (make_shallow_clone t h r)
    (\<lambda>r' s'. r' = r \<and> \<not> count_limit t R r \<and> sound t (add_mset (h, r, xs) R) s' \<and>
       mem_only s s' \<and> calls s' = calls s)
    E (\<lambda>s'. s' = s \<and> count_limit t R r) s"
proof -
  from assms(1) obtain H where H: "heap_rep t H s" "owns t H R" by (rule soundE)
  from owns_denotes [OF H(2) assms(2)] show ?thesis
  proof (cases rule: denotes_cases)
    case (heap hb b v)
    have L: "live t s h hb b v" using H(1) heap(2,3) by (rule live_intro)
    have b: "block_of r = Some b" using heap(1,3) by (simp add: buf_holds_block)
    note count = owns_count [OF H(2) heap(2)]
    have blk: "blocks s b = Some (view_block t v)" using H(1) heap(2) by (rule heap_rep_lookup)
    have ok: "view_ok t v" using H(1) heap(2) by (rule heap_rep_ok)
    have small: "vcount v + 1 < 2 ^ USIZE_BITS t" using count(3) ISIZE_MAX_less_power [of t]
      by (cases "pointer_width t") (auto simp: target_numbers_32 target_numbers_64)
    note add = wrapping_add_1 [OF small, simplified]
    let ?v = "v\<lparr>vcount := Suc (vcount v)\<rparr>"
    have L': "live t (put_view t b ?v s) h hb b ?v" using L small by (simp add: live_vcount)
    have back': "wrapping_sub t (Suc (vcount v)) (Suc 0) = vcount v"
      using wrapping_sub_1 [of "Suc (vcount v)" t] small by simp
    have limit: "count_limit t R r \<longleftrightarrow> ISIZE_MAX t < vcount v"
      using b count(1) by (simp add: count_limit_def)
    have same: "put_view t b v s = s" using blk by (rule put_view_same)
    show ?thesis
    proof (cases "ISIZE_MAX t < vcount v")
      case True
      then show ?thesis
        using heap count(2)
        by (simp add: make_shallow_clone_def wp_count_fetch_add [OF L] add ref_count_overflow_def
            repr_new_eq drop_in_def wp_release [OF L', of xs] back' limit [unfolded heap(1)] same)
    next
      case False
      have "sound t (add_mset (h, r, xs) R) (put_view t b ?v s)"
        using heap_rep_put_view [OF H(1) heap(2), of ?v] ok small
          owns_clone [OF H(2) assms(2) b heap(2)] False by (auto simp: sound_def)
      with False heap show ?thesis
        by (simp add: make_shallow_clone_def wp_count_fetch_add [OF L] add limit [unfolded heap(1)])
    qed
  next
    case (inline B)
    with H assms show ?thesis
      by (auto simp: make_shallow_clone_def count_limit_def sound_add_inline)
  next
    case (static sb)
    with H assms show ?thesis
      by (auto simp: make_shallow_clone_def count_limit_def static_holds_block
          intro!: sound_add_plain denotes_static)
  qed
qed

section \<open>Filling a new buffer\<close>

lemma sound_new_with:
  assumes "sound t R s" "valid_utf8 xs"
    and init: "\<And>d. length d = length xs \<Longrightarrow> init d = ret (map Some xs)"
  shows "wp (new_with t h (length xs) init)
    (\<lambda>r s'. sound t (add_mset (h, r, xs) R) s' \<and> mem_only s s' \<and> modifiable R r)
    (\<lambda>s'. sound t R s' \<and> mem_only s s' \<and> MAX_INLINE_SIZE t < length xs \<and> refused t h (length xs) s s')
    P s"
proof (cases "length xs \<le> MAX_INLINE_SIZE t")
  case True
  let ?B = "overwrite (inline_empty t) 0 xs"
  have len: "length (inline_empty t) = MAX_INLINE_SIZE t" by (simp add: inline_empty_eq)
  have "length ?B = MAX_INLINE_SIZE t" "take (length xs) ?B = xs"
    using True len by (simp_all add: overwrite_def)
  from inline_set_len_holds [OF this, where E = "\<lambda>s'. sound t R s' \<and> mem_only s s' \<and>
      MAX_INLINE_SIZE t < length xs \<and> refused t h (length xs) s s'" and P = P and s = s]
  show ?thesis
    using True assms len
    by (auto simp: new_with_def Let_def init elim!: wp_mono intro: sound_add_inline)
      (auto simp: inline_holds_word intro: sound_add_inline)
next
  case False
  consider "\<not> fits t h (length xs)" | "fits t h (length xs)" "oom s (calls s)"
    | "fits t h (length xs)" "\<not> oom s (calls s)" by blast
  then show ?thesis
  proof cases
    case 3
    let ?n = "length xs"
    let ?v = "with_len t ?n (new_view t h ?n [])"
    let ?b = "next_id s" and ?hb = "new_buf t h ?n xs s"
    note new = sound_add_heap [OF assms(1) 3(1) order.refl refl assms(2)]
    have hb: "\<lparr>hptr = HeapPtr ?b (prefix_len t ?n + header_offset t h), hlen = text_len t ?n\<rparr> = ?hb"
      by (simp add: new_buf_def)
    have ok: "view_ok t ?v" using 3(1) by (simp add: view_ok_with_len)
    have blk: "blocks (add_view t ?v s) ?b = Some (view_block t ?v)" by (simp add: add_view_def)
    have off: "hptr ?hb = HeapPtr ?b (data_off t ?v)" by (simp add: new_buf_def)
    have le: "data_off t ?v + ?n \<le> buffer_size t h ?n" by (simp add: buffer_size_def)
    have "overwrite (view_bytes t ?v) (data_off t ?v) (map Some xs) =
        view_bytes t (?v\<lparr>vdata := overwrite (vdata ?v) 0 (map Some xs)\<rparr>)"
      using view_data_overwrite [OF ok, of 0 "map Some xs"] by simp
    also have "overwrite (vdata ?v) 0 (map Some xs) = map Some xs" by (simp add: overwrite_all)
    also have "?v\<lparr>vdata := map Some xs\<rparr> = new_view t h ?n xs" by (rule new_view_fill)
    finally have wr: "overwrite (view_bytes t ?v) (data_off t ?v) (map Some xs) =
        view_bytes t (new_view t h ?n xs)" .
    have st: "(add_view t ?v s)\<lparr>blocks := (blocks (add_view t ?v s))(?b \<mapsto> view_block t (new_view t h ?n xs))\<rparr> =
        add_view t (new_view t h ?n xs) s"
      using put_view_add_view [of t s "new_view t h ?n xs" ?v] by (simp add: put_view_def)
    have "wp (new_with t h ?n init) Q E P s = Q (repr_of_heap t ?hb) (add_view t (new_view t h ?n xs) s)" for Q E P
      using 3 False ok le
      by (simp add: new_with_def wp_new_uninit hb off blk init wr [unfolded with_len_sel new_view_sel] st new(3))
    with new show ?thesis by simp
  qed (use False assms in \<open>simp_all add: new_with_def wp_new_uninit\<close>)
qed

section \<open>Repetition\<close>

lemma repeat_fill_periodic:
  assumes "length dst = len" "0 < p" "p dvd len" "p dvd filled" "0 < filled" "filled \<le> len"
    and "\<And>i. i < filled \<Longrightarrow> dst ! i = f (i mod p)"
  shows "repeat_fill len dst filled = Some (map (\<lambda>i. f (i mod p)) [0..<len])"
  using assms
proof (induction "len - filled" arbitrary: dst filled rule: less_induct)
  case less
  show ?case
  proof (cases "filled < len")
    case False
    with less.prems have "dst = map (\<lambda>i. f (i mod p)) [0..<len]" by (intro nth_equalityI) auto
    with False show ?thesis by (subst repeat_fill.simps) simp
  next
    case True
    let ?count = "min filled (length dst - filled)"
    let ?dst = "overwrite dst filled (take ?count dst)"
    have count: "p dvd ?count" "0 < ?count" "filled + ?count \<le> len"
      using less.prems True by (auto simp: min_def)
    have "?dst ! i = f (i mod p)" if "i < filled + ?count" for i
    proof (cases "i < filled")
      case True
      with less.prems count show ?thesis by (simp add: nth_overwrite)
    next
      case False
      then have "?dst ! i = dst ! (i - filled)"
        using that less.prems(1) count(3) by (simp add: nth_overwrite less_diff_conv2)
      also have "\<dots> = f ((i - filled) mod p)" using False that by (intro less.prems(7)) auto
      also have "(i - filled) mod p = i mod p"
        using less.prems(4) False mod_eq_dvd_iff_nat [of "i - filled" i p] by simp
      finally show ?thesis .
    qed
    then have "repeat_fill len ?dst (filled + ?count) = Some (map (\<lambda>i. f (i mod p)) [0..<len])"
      using less.prems count True by (intro less.hyps) auto
    with True show ?thesis by (subst repeat_fill.simps) (simp add: Let_def)
  qed
qed

lemma concat_replicate_nth:
  assumes "xs \<noteq> []"
  shows "concat (replicate n xs) = map (\<lambda>i. xs ! (i mod length xs)) [0..<n * length xs]"
proof (induction n)
  case (Suc n)
  have "(xs @ concat (replicate n xs)) ! i = xs ! (i mod length xs)"
    if "i < length xs + n * length xs" for i
  proof (cases "i < length xs")
    case False
    then have "i - length xs < n * length xs" using that by linarith
    with False show ?thesis by (simp add: Suc nth_append le_mod_geq)
  qed (simp add: nth_append)
  then show ?case using Suc by (intro nth_equalityI) simp_all
qed simp

lemma repeat_init_eq:
  assumes "length dst = length xs * n"
  shows "repeat_init xs (length xs * n) dst = ret (map Some (concat (replicate n xs)))"
proof (cases "xs = [] \<or> n = 0")
  case True
  with assms show ?thesis by (auto simp: repeat_init_def repeat_fill.simps)
next
  case False
  let ?dst = "overwrite dst 0 (map Some (take (length dst) xs))"
  have le: "length xs \<le> length dst" using assms False by simp
  have nth: "?dst ! i = Some (xs ! i)" if "i < length xs" for i
    using that le by (simp add: nth_overwrite)
  have len: "length ?dst = length xs * n" using le by (simp add: assms)
  have "repeat_fill (length xs * n) ?dst (length xs) =
      Some (map (\<lambda>i. Some (xs ! (i mod length xs))) [0..<length xs * n])"
    using nth len False
    by (intro repeat_fill_periodic [where f = "\<lambda>i. Some (xs ! i)"]) simp_all
  with False show ?thesis
    by (simp add: repeat_init_def concat_replicate_nth o_def mult.commute)
qed

lemma valid_utf8_repeat: "valid_utf8 xs \<Longrightarrow> valid_utf8 (concat (replicate n xs))"
  by (induction n) auto

text \<open>\<open>repeat\<close> returns \<open>n\<close> copies, or fails when they cannot be allocated.\<close>

lemma sound_repr_repeat:
  assumes "sound t R s" "(h, r, xs) \<in># R"
  shows "wp (repr_repeat t h r n)
    (\<lambda>r' s'. sound t (add_mset (h, r', concat (replicate n xs)) R) s' \<and> mem_only s s')
    (\<lambda>s'. sound t R s' \<and> mem_only s s' \<and> refused t h (length xs * n) s s')
    (\<lambda>s'. s' = s \<and> n = 1 \<and> count_limit t R r) s"
proof (cases "n = 1")
  case True
  from sound_make_shallow_clone [OF assms]
  have "wp (make_shallow_clone t h r)
    (\<lambda>r' s'. sound t (add_mset (h, r', concat (replicate 1 xs)) R) s' \<and> mem_only s s')
    E (\<lambda>s'. s' = s \<and> n = 1 \<and> count_limit t R r) s" for E
    by (rule wp_mono) (use True in auto)
  with True show ?thesis by (simp add: repr_repeat_def)
next
  case False
  let ?ys = "concat (replicate n xs)"
  have len: "length ?ys = length xs * n" by (simp add: length_concat sum_list_replicate mult.commute)
  have v: "valid_utf8 ?ys" using sound_valid [OF assms] by (rule valid_utf8_repeat)
  show ?thesis
  proof (cases "length xs * n \<le> USIZE_MAX t")
    case True
    have "wp (new_with t h (length ?ys) (repeat_init xs (length ?ys)))
      (\<lambda>r s'. sound t (add_mset (h, r, ?ys) R) s' \<and> mem_only s s' \<and> modifiable R r)
      (\<lambda>s'. sound t R s' \<and> mem_only s s' \<and> MAX_INLINE_SIZE t < length ?ys \<and> refused t h (length ?ys) s s')
      (\<lambda>s'. s' = s \<and> n = 1 \<and> count_limit t R r) s"
      by (rule sound_new_with [OF assms(1) v]) (simp only: len repeat_init_eq)
    with False True show ?thesis
      by (auto simp: repr_repeat_def sound_as_bytes [OF assms] checked_mul_def len elim!: wp_mono)
  next
    case False
    have "\<not> fits t h (length xs * n)"
      using False fits_ISIZE_MAX [of t h] ISIZE_MAX_USIZE_MAX [of t] by fastforce
    with False \<open>n \<noteq> 1\<close> assms(1) show ?thesis
      by (simp add: repr_repeat_def sound_as_bytes [OF assms] checked_mul_def)
  qed
qed

end
