(* ===== verification/ReprMut.thy ===== *)
theory ReprMut
  imports ReprCore
begin

text \<open>
  \<open>src/src/repr.rs\<close>, the methods of \<^verbatim>\<open>Repr<Mutable>\<close> on \<^verbatim>\<open>&mut self\<close>, and the
  two conversions between the mutabilities. This theory holds the definitions, in the order of
  the file.
\<close>

section \<open>The data a unique buffer can be written through\<close>

text \<open>What \<^verbatim>\<open>as_mut_ptr\<close> returns: the bytes of \<open>self\<close> itself, or a pointer into the
  heap. The accesses through it are \<^verbatim>\<open>ptr::copy\<close>,
  \<^verbatim>\<open>ptr::copy_nonoverlapping\<close> and \<^verbatim>\<open>slice::from_raw_parts\<close>.\<close>

datatype place =
    InSelf
  | OnHeap pointer

definition self_bytes :: "(repr st, byte list) prog" where
  "self_bytes = bind (gets self) (\<lambda>r. case word0 r of
     Bytes bs \<Rightarrow> ret (bs @ word1 r) | Address _ \<Rightarrow> undef)"

definition place_read :: "place \<Rightarrow> nat \<Rightarrow> nat \<Rightarrow> (repr st, byte list) prog" where
  "place_read pl off n = (case pl of
     InSelf \<Rightarrow>
       bind self_bytes (\<lambda>bs. bind (assert_unchecked (off + n \<le> length bs)) (\<lambda>_. ret (window bs off n)))
   | OnHeap p \<Rightarrow> bind (ptr_add p off) (\<lambda>q. read_bytes q n))"

definition place_write :: "target \<Rightarrow> place \<Rightarrow> nat \<Rightarrow> byte list \<Rightarrow> (repr st, unit) prog" where
  "place_write t pl off xs = (case pl of
     InSelf \<Rightarrow>
       bind self_bytes (\<lambda>bs. bind (assert_unchecked (off + length xs \<le> length bs)) (\<lambda>_.
       set_self (repr_of_inline t (overwrite bs off xs))))
   | OnHeap p \<Rightarrow> bind (ptr_add p off) (\<lambda>q. write_bytes q xs))"

definition place_copy :: "target \<Rightarrow> place \<Rightarrow> nat \<Rightarrow> nat \<Rightarrow> nat \<Rightarrow> (repr st, unit) prog" where
  "place_copy t pl src dst n = (case pl of
     InSelf \<Rightarrow>
       bind self_bytes (\<lambda>bs.
       bind (assert_unchecked (src + n \<le> length bs \<and> dst + n \<le> length bs)) (\<lambda>_.
       set_self (repr_of_inline t (overwrite bs dst (window bs src n)))))
   | OnHeap p \<Rightarrow>
       bind (ptr_add p src) (\<lambda>from. bind (ptr_add p dst) (\<lambda>to. ptr_copy from to n)))"

definition place_copy_nonoverlapping ::
  "target \<Rightarrow> place \<Rightarrow> nat \<Rightarrow> nat \<Rightarrow> nat \<Rightarrow> (repr st, unit) prog"
where
  "place_copy_nonoverlapping t pl src dst n =
    bind (assert_unchecked (src + n \<le> dst \<or> dst + n \<le> src)) (\<lambda>_. place_copy t pl src dst n)"

definition write_char :: "target \<Rightarrow> place \<Rightarrow> nat \<Rightarrow> uchar \<Rightarrow> (repr st, unit) prog" where
  "write_char t pl off ch =
    (let encoded = encode_utf8 ch in
     if length encoded = 1 then place_write t pl off (take 1 encoded)
     else if length encoded = 2 then place_write t pl off (take 2 encoded)
     else if length encoded = 3 then place_write t pl off (take 3 encoded)
     else if length encoded = 4 then place_write t pl off (take 4 encoded)
     else undef)"

text \<open>\<^verbatim>\<open>from_utf8_unchecked(suffix).chars().next().unwrap_unchecked()\<close>.\<close>

definition first_char :: "byte list \<Rightarrow> ('s, uchar) prog" where
  "first_char suffix =
    bind (from_utf8_unchecked suffix) (\<lambda>bs.
    case decode_char bs of Some (c, _) \<Rightarrow> ret c | None \<Rightarrow> undef)"

section \<open>Ranges\<close>

datatype bound = Included nat | Excluded nat | Unbounded

definition slice_range :: "target \<Rightarrow> byte list \<Rightarrow> bound \<times> bound \<Rightarrow> ('s, nat \<times> nat) prog" where
  "slice_range t text rng =
    (let start = (case fst rng of
           Included n \<Rightarrow> n | Excluded n \<Rightarrow> saturating_add t n 1 | Unbounded \<Rightarrow> 0);
         end' = (case snd rng of
           Included n \<Rightarrow> saturating_add t n 1 | Excluded n \<Rightarrow> n | Unbounded \<Rightarrow> length text)
     in
     bind (assert_that (is_char_boundary text start)) (\<lambda>_.
     bind (assert_that (is_char_boundary text end')) (\<lambda>_.
     bind (assert_that (start \<le> end')) (\<lambda>_.
     ret (start, end')))))"

section \<open>Capacity\<close>

definition repr_with_capacity :: "target \<Rightarrow> nat \<Rightarrow> ('r st, repr) prog" where
  "repr_with_capacity t capacity =
    (if capacity \<le> MAX_INLINE_SIZE t then repr_new t
     else bind (heap_with_capacity t capacity) (from_heap t))"

definition repr_capacity :: "target \<Rightarrow> repr \<Rightarrow> ('r st, nat) prog" where
  "repr_capacity t r =
    bind (is_heap_buffer t r) (\<lambda>heap.
    if heap then bind (as_heap_buffer t r) (heap_capacity t)
    else bind (is_static_buffer t r) (\<lambda>static.
    if static then bind (as_static_buffer t r) (\<lambda>sb. ret (static_len t sb))
    else ret (MAX_INLINE_SIZE t)))"

definition spare_capacity :: "target \<Rightarrow> repr \<Rightarrow> ('r st, nat) prog" where
  "spare_capacity t r =
    bind (is_heap_buffer t r) (\<lambda>heap.
    if heap then
      bind (as_heap_buffer t r) (\<lambda>hb.
      bind (heap_capacity t hb) (\<lambda>c.
      bind (repr_len t Mutable r) (\<lambda>n.
      usize_sub t c n)))
    else bind (is_static_buffer t r) (\<lambda>static.
    if static then ret 0
    else bind (repr_len t Mutable r) (\<lambda>n. usize_sub t (MAX_INLINE_SIZE t) n)))"

definition is_modifiable :: "target \<Rightarrow> repr \<Rightarrow> ('r st, bool) prog" where
  "is_modifiable t r =
    bind (is_static_buffer t r) (\<lambda>static.
    if static then ret False else is_unique t Mutable r)"

definition reallocate :: "target \<Rightarrow> nat \<Rightarrow> (repr st, unit) prog" where
  "reallocate t capacity =
    bind (debug_assert_run t (bind (gets self) (\<lambda>r.
      bind (repr_len t Mutable r) (\<lambda>n. ret (n \<le> capacity))))) (\<lambda>_.
    bind (gets self) (\<lambda>r.
    if capacity \<le> MAX_INLINE_SIZE t then
      bind (as_str t Mutable r) (\<lambda>text.
      bind (bind (inline_new t text) (from_inline t)) (\<lambda>inline.
      replace_inner t Mutable inline))
    else
      bind (is_heap_buffer t r) (\<lambda>heap.
      bind (if heap then is_unique t Mutable r else ret False) (\<lambda>unique_heap.
      if unique_heap then
        bind (as_heap_buffer t r) (\<lambda>hb.
        bind (heap_realloc t hb capacity) (\<lambda>hb'.
        set_self (repr_of_heap t hb')))
      else
        bind (as_str t Mutable r) (\<lambda>text.
        bind (from_str_with_capacity t text capacity) (\<lambda>heap.
        bind (from_heap t heap) (\<lambda>other.
        replace_inner t Mutable other)))))))"

definition grow_amortized :: "target \<Rightarrow> nat \<Rightarrow> (repr st, unit) prog" where
  "grow_amortized t additional =
    bind (gets self) (\<lambda>r.
    bind (repr_len t Mutable r) (\<lambda>len.
    bind (ok_or (checked_add t len additional)) (\<lambda>required.
    bind (if required \<le> MAX_INLINE_SIZE t then ret required
          else bind (usize_add t len (len div 2)) (\<lambda>amortized. ret (max required amortized))) (\<lambda>capacity.
    reallocate t capacity))))"

definition grow_exact :: "target \<Rightarrow> nat \<Rightarrow> (repr st, unit) prog" where
  "grow_exact t additional =
    bind (gets self) (\<lambda>r.
    bind (repr_len t Mutable r) (\<lambda>len.
    bind (ok_or (checked_add t len additional)) (\<lambda>required.
    reallocate t required)))"

text \<open>\<^verbatim>\<open>self.spare_capacity() < n || !self.is_modifiable()\<close>.\<close>

definition must_grow :: "target \<Rightarrow> nat \<Rightarrow> (repr st, bool) prog" where
  "must_grow t n =
    bind (gets self) (\<lambda>r.
    bind (spare_capacity t r) (\<lambda>spare.
    if spare < n then ret True
    else bind (is_modifiable t r) (\<lambda>modifiable. ret (\<not> modifiable))))"

definition reserve :: "target \<Rightarrow> nat \<Rightarrow> (repr st, unit) prog" where
  "reserve t additional =
    (if additional = 0 then ret ()
     else bind (must_grow t additional) (\<lambda>grow.
       if grow then grow_amortized t additional else ret ()))"

definition reserve_exact :: "target \<Rightarrow> nat \<Rightarrow> (repr st, unit) prog" where
  "reserve_exact t additional =
    (if additional = 0 then ret ()
     else bind (must_grow t additional) (\<lambda>grow.
       if grow then grow_exact t additional else ret ()))"

definition shrink_to :: "target \<Rightarrow> nat \<Rightarrow> (repr st, unit) prog" where
  "shrink_to t min_capacity =
    bind (gets self) (\<lambda>r.
    bind (is_heap_buffer t r) (\<lambda>heap.
    if \<not> heap then ret ()
    else
      bind (repr_len t Mutable r) (\<lambda>len.
      let capacity = max len min_capacity in
      bind (repr_capacity t r) (\<lambda>current.
      if capacity < current then reallocate t capacity else ret ()))))"

definition ensure_modifiable :: "target \<Rightarrow> (repr st, unit) prog" where
  "ensure_modifiable t =
    bind (gets self) (\<lambda>r.
    bind (is_modifiable t r) (\<lambda>modifiable.
    if modifiable then ret ()
    else
      bind (as_str t Mutable r) (\<lambda>text.
      bind (from_str t Mutable text) (\<lambda>copied.
      replace_inner t Mutable copied))))"

definition as_mut_ptr :: "target \<Rightarrow> (repr st, place) prog" where
  "as_mut_ptr t =
    bind (gets self) (\<lambda>r.
    bind (debug_assert_run t (bind (is_static_buffer t r) (\<lambda>static. ret (\<not> static)))) (\<lambda>_.
    bind (is_heap_buffer t r) (\<lambda>heap.
    if heap then
      bind (as_heap_buffer t r) (\<lambda>hb.
      bind (debug_assert_run t (heap_is_unique t Mutable hb)) (\<lambda>_.
      case word0 r of Address p \<Rightarrow> ret (OnHeap p) | Bytes _ \<Rightarrow> undef))
    else ret InSelf)))"

definition set_len :: "target \<Rightarrow> nat \<Rightarrow> (repr st, unit) prog" where
  "set_len t new_len =
    bind (gets self) (\<lambda>r.
    bind (debug_assert_run t (is_modifiable t r)) (\<lambda>_.
    bind (debug_assert_run t (bind (repr_capacity t r) (\<lambda>c. ret (new_len \<le> c)))) (\<lambda>_.
    bind (is_heap_buffer t r) (\<lambda>heap.
    if heap then
      bind (as_heap_buffer t r) (\<lambda>hb.
      bind (heap_set_len t hb new_len) (\<lambda>hb. set_self (repr_of_heap t hb)))
    else
      bind (as_inline_buffer t r) (\<lambda>buffer.
      bind (inline_set_len t buffer new_len) (\<lambda>buffer. set_self (repr_of_inline t buffer)))))))"

section \<open>Appending\<close>

definition push_str :: "target \<Rightarrow> byte list \<Rightarrow> (repr st, unit) prog" where
  "push_str t string =
    (if string = [] then ret ()
     else
       bind (gets self) (\<lambda>r.
       bind (repr_len t Mutable r) (\<lambda>len.
       let str_len = length string in
       bind (must_grow t str_len) (\<lambda>grow.
       bind (if grow then grow_amortized t str_len else ret ()) (\<lambda>_.
       bind (as_mut_ptr t) (\<lambda>data.
       bind (place_write t data len string) (\<lambda>_.
       bind (usize_add t len str_len) (\<lambda>new_len.
       set_len t new_len))))))))"

definition extend_from_within :: "target \<Rightarrow> bound \<times> bound \<Rightarrow> (repr st, unit) prog" where
  "extend_from_within t src =
    bind (gets self) (\<lambda>r.
    bind (as_str t Mutable r) (\<lambda>text.
    bind (slice_range t text src) (\<lambda>(start, end').
    bind (usize_sub t end' start) (\<lambda>count.
    if count = 0 then ret ()
    else
      bind (repr_len t Mutable r) (\<lambda>len.
      bind (must_grow t count) (\<lambda>grow.
      bind (if grow then grow_amortized t count else ret ()) (\<lambda>_.
      bind (as_mut_ptr t) (\<lambda>data.
      bind (place_copy_nonoverlapping t data start len count) (\<lambda>_.
      bind (usize_add t len count) (\<lambda>new_len.
      set_len t new_len))))))))))"

definition push_char :: "target \<Rightarrow> uchar \<Rightarrow> (repr st, unit) prog" where
  "push_char t ch =
    bind (gets self) (\<lambda>r.
    bind (repr_len t Mutable r) (\<lambda>len.
    let ch_len = len_utf8 ch in
    bind (must_grow t ch_len) (\<lambda>grow.
    bind (if grow then grow_amortized t ch_len else ret ()) (\<lambda>_.
    bind (as_mut_ptr t) (\<lambda>data.
    bind (write_char t data len ch) (\<lambda>_.
    bind (usize_add t len ch_len) (\<lambda>new_len.
    set_len t new_len)))))))"

section \<open>Removing and inserting\<close>

definition truncate_unchecked :: "target \<Rightarrow> nat \<Rightarrow> (repr st, unit) prog" where
  "truncate_unchecked t new_len =
    bind (gets self) (\<lambda>r.
    bind (debug_assert_run t (bind (repr_len t Mutable r) (\<lambda>n. ret (new_len \<le> n)))) (\<lambda>_.
    bind (debug_assert_run t
      (bind (as_str t Mutable r) (\<lambda>x. ret (is_char_boundary x new_len)))) (\<lambda>_.
    bind (is_heap_buffer t r) (\<lambda>heap.
    if heap then
      bind (as_heap_buffer t r) (\<lambda>hb.
      if \<not> heap_is_len_on_heap t hb then
        bind (heap_set_len t hb new_len) (\<lambda>hb. set_self (repr_of_heap t hb))
      else
        bind (heap_is_unique t Mutable hb) (\<lambda>unique.
        if unique then
          bind (heap_set_len t hb new_len) (\<lambda>hb. set_self (repr_of_heap t hb))
        else
          bind (read_bytes (hptr hb) new_len) (\<lambda>slice.
          bind (from_utf8_unchecked slice) (\<lambda>str.
          bind (from_str t Mutable str) (\<lambda>new_repr.
          bind (release t Mutable hb) (\<lambda>_.
          set_self new_repr))))))
    else
      bind (is_static_buffer t r) (\<lambda>static.
      if static then
        bind (as_static_buffer t r) (\<lambda>sb.
        bind (static_set_len t sb new_len) (\<lambda>sb. set_self (repr_of_static t sb)))
      else
        bind (as_inline_buffer t r) (\<lambda>buffer.
        bind (inline_set_len t buffer new_len) (\<lambda>buffer. set_self (repr_of_inline t buffer))))))))"

definition truncate :: "target \<Rightarrow> nat \<Rightarrow> (repr st, unit) prog" where
  "truncate t new_len =
    bind (gets self) (\<lambda>r.
    bind (repr_len t Mutable r) (\<lambda>len.
    if len \<le> new_len then ret ()
    else
      bind (as_str t Mutable r) (\<lambda>str.
      bind (assert_that (is_char_boundary str new_len)) (\<lambda>_.
      truncate_unchecked t new_len))))"

definition pop :: "target \<Rightarrow> (repr st, uchar option) prog" where
  "pop t =
    bind (gets self) (\<lambda>r.
    bind (as_str t Mutable r) (\<lambda>text.
    case next_back text of
      None \<Rightarrow> ret None
    | Some ch \<Rightarrow>
        bind (repr_len t Mutable r) (\<lambda>len.
        bind (usize_sub t len (len_utf8 ch)) (\<lambda>new_len.
        bind (truncate_unchecked t new_len) (\<lambda>_.
        ret (Some ch))))))"

definition clear :: "target \<Rightarrow> (repr st, unit) prog" where
  "clear t =
    bind (gets self) (\<lambda>r.
    bind (is_static_buffer t r) (\<lambda>static.
    if static then
      bind (as_static_buffer t r) (\<lambda>sb.
      bind (static_set_len t sb 0) (\<lambda>sb. set_self (repr_of_static t sb)))
    else
      bind (is_unique t Mutable r) (\<lambda>unique.
      if unique then set_len t 0
      else bind (repr_new t) (replace_inner t Mutable))))"

definition remove :: "target \<Rightarrow> nat \<Rightarrow> (repr st, uchar) prog" where
  "remove t idx =
    bind (gets self) (\<lambda>r.
    bind (as_str t Mutable r) (\<lambda>text.
    bind (assert_that (is_char_boundary text idx)) (\<lambda>_.
    bind (repr_len t Mutable r) (\<lambda>len.
    bind (assert_that (idx < len)) (\<lambda>_.
    bind (ensure_modifiable t) (\<lambda>_.
    bind (as_mut_ptr t) (\<lambda>ptr.
    bind (place_read ptr idx (len - idx)) (\<lambda>suffix.
    bind (first_char suffix) (\<lambda>ch.
    let ch_len = len_utf8 ch in
    bind (place_copy t ptr (idx + ch_len) idx (len - idx - ch_len)) (\<lambda>_.
    bind (set_len t (len - ch_len)) (\<lambda>_.
    ret ch)))))))))))"

definition insert_str :: "target \<Rightarrow> nat \<Rightarrow> byte list \<Rightarrow> (repr st, unit) prog" where
  "insert_str t idx string =
    bind (gets self) (\<lambda>r.
    bind (as_str t Mutable r) (\<lambda>text.
    bind (assert_that (is_char_boundary text idx)) (\<lambda>_.
    if string = [] then ret ()
    else
      bind (repr_len t Mutable r) (\<lambda>len.
      let str_len = length string in
      bind (must_grow t str_len) (\<lambda>grow.
      bind (if grow then grow_amortized t str_len else ret ()) (\<lambda>_.
      bind (as_mut_ptr t) (\<lambda>data.
      bind (place_copy t data idx (idx + str_len) (len - idx)) (\<lambda>_.
      bind (place_write t data idx string) (\<lambda>_.
      bind (usize_add t len str_len) (\<lambda>new_len.
      set_len t new_len))))))))))"

definition insert_char :: "target \<Rightarrow> nat \<Rightarrow> uchar \<Rightarrow> (repr st, unit) prog" where
  "insert_char t idx ch =
    bind (gets self) (\<lambda>r.
    bind (as_str t Mutable r) (\<lambda>text.
    bind (assert_that (is_char_boundary text idx)) (\<lambda>_.
    bind (repr_len t Mutable r) (\<lambda>len.
    let ch_len = len_utf8 ch in
    bind (must_grow t ch_len) (\<lambda>grow.
    bind (if grow then grow_amortized t ch_len else ret ()) (\<lambda>_.
    bind (as_mut_ptr t) (\<lambda>data.
    bind (place_copy t data idx (idx + ch_len) (len - idx)) (\<lambda>_.
    bind (write_char t data idx ch) (\<lambda>_.
    bind (usize_add t len ch_len) (\<lambda>new_len.
    set_len t new_len))))))))))"

text \<open>The three copies that fill a new buffer in \<open>replace_range\<close>.\<close>

definition replace_init ::
  "byte list \<Rightarrow> nat \<Rightarrow> nat \<Rightarrow> byte list \<Rightarrow> byte option list \<Rightarrow> ('s, byte option list) prog"
where
  "replace_init text start end' replace_with dst =
    (let n = length replace_with; len = length text in
     bind (assert_unchecked (start \<le> length dst \<and> start \<le> len)) (\<lambda>_.
     let dst = overwrite dst 0 (map Some (take start text)) in
     bind (assert_unchecked (start + n \<le> length dst)) (\<lambda>_.
     let dst = overwrite dst start (map Some replace_with) in
     bind (assert_unchecked (start + n + (len - end') \<le> length dst)) (\<lambda>_.
     ret (overwrite dst (start + n) (map Some (window text end' (len - end'))))))))"

definition replace_range :: "target \<Rightarrow> bound \<times> bound \<Rightarrow> byte list \<Rightarrow> (repr st, unit) prog" where
  "replace_range t rng replace_with =
    bind (gets self) (\<lambda>r.
    bind (repr_len t Mutable r) (\<lambda>len.
    bind (as_str t Mutable r) (\<lambda>text.
    bind (slice_range t text rng) (\<lambda>(start, end').
    bind (usize_sub t end' start) (\<lambda>removed_len.
    let replace_len = length replace_with in
    if removed_len = 0 \<and> replace_len = 0 then ret ()
    else
      bind (usize_sub t len removed_len) (\<lambda>kept.
      bind (usize_add t kept replace_len) (\<lambda>new_len.
      bind (is_modifiable t r) (\<lambda>modifiable.
      if \<not> modifiable then
        bind (new_with t Mutable new_len (replace_init text start end' replace_with)) (\<lambda>replaced.
        replace_inner t Mutable replaced)
      else
        let additional = saturating_sub replace_len removed_len in
        bind (spare_capacity t r) (\<lambda>spare.
        bind (if spare < additional then grow_amortized t additional else ret ()) (\<lambda>_.
        bind (as_mut_ptr t) (\<lambda>data.
        bind (place_copy t data end' (start + replace_len) (len - end')) (\<lambda>_.
        bind (place_write t data start replace_with) (\<lambda>_.
        set_len t new_len)))))))))))))"

section \<open>Retain\<close>

text \<open>The predicate is an \<^verbatim>\<open>FnMut\<close>: its answer may depend on how often it was called, and
  it may panic, which is \<open>None\<close>. \<open>find_removed\<close> is
  \<^verbatim>\<open>char_indices().find(|&(_, ch)| !predicate(ch))\<close>.\<close>

datatype 'a search = Panicked | NotFound | Found 'a

primrec find_removed ::
  "(nat \<Rightarrow> uchar \<Rightarrow> bool option) \<Rightarrow> nat \<Rightarrow> nat \<Rightarrow> uchar list \<Rightarrow> (nat \<times> nat \<times> uchar) search"
where
  "find_removed p k idx [] = NotFound"
| "find_removed p k idx (ch # cs) =
    (case p k ch of
       None \<Rightarrow> Panicked
     | Some False \<Rightarrow> Found (Suc k, idx, ch)
     | Some True \<Rightarrow> find_removed p (Suc k) (idx + len_utf8 ch) cs)"

text \<open>The loop returns \<open>dst_idx\<close> and whether the predicate panicked; the guard
  \<^verbatim>\<open>SetLenOnDrop\<close> sets the length in both cases. The loop ends because
  every round consumes at least one byte.\<close>

function retain_loop ::
  "target \<Rightarrow> place \<Rightarrow> (nat \<Rightarrow> uchar \<Rightarrow> bool option) \<Rightarrow> nat \<Rightarrow> nat \<Rightarrow> nat \<Rightarrow> nat \<Rightarrow>
    (repr st, nat \<times> bool) prog"
where
  "retain_loop t ptr p k len src_idx dst_idx =
    (if src_idx < len then
       bind (place_read ptr src_idx (len - src_idx)) (\<lambda>suffix.
       bind (first_char suffix) (\<lambda>ch.
       let ch_len = len_utf8 ch in
       case p k ch of
         None \<Rightarrow> ret (dst_idx, True)
       | Some True \<Rightarrow>
           bind (if dst_idx \<noteq> src_idx then place_copy t ptr src_idx dst_idx ch_len else ret ()) (\<lambda>_.
           retain_loop t ptr p (Suc k) len (src_idx + ch_len) (dst_idx + ch_len))
       | Some False \<Rightarrow> retain_loop t ptr p (Suc k) len (src_idx + ch_len) dst_idx))
     else ret (dst_idx, False))"
  by pat_completeness auto
termination
  by (relation "measure (\<lambda>(t, ptr, p, k, len, src_idx, dst_idx). len - src_idx)") (simp_all add: diff_less_mono2)

declare retain_loop.simps [simp del]

definition retain :: "target \<Rightarrow> (nat \<Rightarrow> uchar \<Rightarrow> bool option) \<Rightarrow> (repr st, unit) prog" where
  "retain t p =
    bind (gets self) (\<lambda>r.
    bind (as_str t Mutable r) (\<lambda>text.
    case find_removed p 0 0 (chars text) of
      Panicked \<Rightarrow> panic
    | NotFound \<Rightarrow> ret ()
    | Found (k, removed_idx, removed) \<Rightarrow>
        bind (ensure_modifiable t) (\<lambda>_.
        bind (gets self) (\<lambda>r.
        bind (repr_len t Mutable r) (\<lambda>len.
        bind (as_mut_ptr t) (\<lambda>ptr.
        bind (retain_loop t ptr p k len (removed_idx + len_utf8 removed) removed_idx)
          (\<lambda>(dst_idx, panicked).
        bind (set_len t dst_idx) (\<lambda>_.
        if panicked then panic else ret ()))))))))"

section \<open>Conversions between the mutabilities\<close>

text \<open>\<open>Inl\<close> is \<^verbatim>\<open>Err((self, ReserveError))\<close>.\<close>

definition into_immutable :: "target \<Rightarrow> repr \<Rightarrow> ('r st, repr + repr) prog" where
  "into_immutable t r =
    bind (is_heap_buffer t r) (\<lambda>heap.
    if \<not> heap then ret (Inr r)
    else
      bind (as_heap_buffer t r) (\<lambda>hb.
      bind (heap_as_str t Mutable hb) (\<lambda>heap_str.
      bind (heap_is_unique t Mutable hb) (\<lambda>unique.
      if unique then
        if length heap_str \<le> MAX_INLINE_SIZE t then
          bind (bind (inline_new t heap_str) (from_inline t)) (\<lambda>inline.
          bind (release t Mutable hb) (\<lambda>_. ret (Inr inline)))
        else
          bind (into_exact t hb) (\<lambda>res. case res of
            Inr exact \<Rightarrow> bind (from_heap t exact) (\<lambda>x. ret (Inr x))
          | Inl heap \<Rightarrow> bind (from_heap t heap) (\<lambda>x. ret (Inl x)))
      else
        bind (attempt (from_str t Immutable heap_str)) (\<lambda>res. case res of
          Some next \<Rightarrow> bind (release t Mutable hb) (\<lambda>_. ret (Inr next))
        | None \<Rightarrow> bind (from_heap t hb) (\<lambda>x. ret (Inl x)))))))"

definition into_mutable :: "target \<Rightarrow> repr \<Rightarrow> ('r st, repr + repr) prog" where
  "into_mutable t r =
    bind (is_heap_buffer t r) (\<lambda>heap.
    if \<not> heap then ret (Inr r)
    else
      bind (as_heap_buffer t r) (\<lambda>hb.
      bind (heap_is_unique t Immutable hb) (\<lambda>unique.
      if unique then
        bind (into_growable t hb) (\<lambda>res. case res of
          Inr growable \<Rightarrow> bind (from_heap t growable) (\<lambda>x. ret (Inr x))
        | Inl heap \<Rightarrow> bind (from_heap t heap) (\<lambda>x. ret (Inl x)))
      else
        bind (heap_as_str t Immutable hb) (\<lambda>heap_str.
        bind (attempt (from_str t Mutable heap_str)) (\<lambda>res. case res of
          Some next \<Rightarrow> bind (release t Immutable hb) (\<lambda>_. ret (Inr next))
        | None \<Rightarrow> bind (from_heap t hb) (\<lambda>x. ret (Inl x)))))))"

end
