(* ===== verification/ReprGrow.thy ===== *)
theory ReprGrow
  imports ReprMut
begin

text \<open>
  Capacity and growth of a mutable value. The value behind \<open>self\<close> is one owner among others;
  growing it, making it modifiable or shrinking it keeps its text and every other owner, gives it
  a buffer of its own, and leaves everything as it was when the allocator refuses.
\<close>

section \<open>Vocabulary\<close>

lemma wp_Ret_iff: "wp m (\<lambda>x s'. x = a \<and> s' = s0) (\<lambda>_. False) (\<lambda>_. False) s \<longleftrightarrow> m s = Ret a s0"
  by (auto simp: wp_def split: outcome.split)

definition later :: "'r st \<Rightarrow> 'r st \<Rightarrow> bool" where
  "later s s' \<longleftrightarrow> oom s' = oom s \<and> calls s \<le> calls s'"

text \<open>\<open>self\<close> holds \<open>xs\<close> among the other owners \<open>R\<close>.\<close>

definition holds :: "target \<Rightarrow> owner multiset \<Rightarrow> byte list \<Rightarrow> repr st \<Rightarrow> bool" where
  "holds t R xs s \<longleftrightarrow> sound t (add_mset (Mutable, self s, xs) R) s"

text \<open>How a method fails: the text is as before, in the same value, and the allocator is why.\<close>

definition rejected :: "target \<Rightarrow> owner multiset \<Rightarrow> byte list \<Rightarrow> nat \<Rightarrow> repr st \<Rightarrow> repr st \<Rightarrow> bool" where
  "rejected t R xs c s s' \<longleftrightarrow>
    holds t R xs s' \<and> self s' = self s \<and> later s s' \<and> refused t Mutable c s s'"

lemma later_refl [simp]: "later s s"
  by (simp add: later_def)

lemma later_trans: "later s s' \<Longrightarrow> later s' s'' \<Longrightarrow> later s s''"
  by (simp add: later_def)

lemma mem_only_later: "mem_only s s' \<Longrightarrow> later s s'"
  by (simp add: mem_only_def later_def)

lemma later_self [simp]: "later s (s'\<lparr>self := r\<rparr>) = later s s'" "later (s\<lparr>self := r\<rparr>) s' = later s s'"
  by (simp_all add: later_def)

lemma refused_mono:
  "refused t h c s1 s2 \<Longrightarrow> later s s1 \<Longrightarrow> later s2 s' \<Longrightarrow> refused t h c s s'"
  by (auto simp: refused_def oom_between_def later_def) (meson le_trans less_le_trans)

lemma refused_self [simp]: "refused t h c s (s'\<lparr>self := r\<rparr>) = refused t h c s s'"
  by (simp add: refused_def oom_between_def)

lemma holds_valid: "holds t R xs s \<Longrightarrow> valid_utf8 xs"
  unfolding holds_def by (rule sound_valid) auto

lemma holds_repr_len: "holds t R xs s \<Longrightarrow> wp (repr_len t Mutable (self s)) Q E P s = Q (length xs) s"
  unfolding holds_def by (rule sound_repr_len) auto

lemma holds_as_str: "holds t R xs s \<Longrightarrow> wp (as_str t Mutable (self s)) Q E P s = Q xs s"
  unfolding holds_def by (rule sound_as_str) auto

lemma holds_is_unique:
  "holds t R xs s \<Longrightarrow> wp (is_unique t Mutable (self s)) Q E P s = Q (alone R (self s)) s"
  unfolding holds_def by (rule sound_is_unique)

lemma holds_is_heap_buffer: "holds t R xs s \<Longrightarrow> is_heap_buffer t (self s) = ret (block_of (self s) \<noteq> None)"
  unfolding holds_def by (rule sound_is_heap_buffer) auto

text \<open>The three variants of \<open>self\<close>, with the heap it lives in.\<close>

lemma holds_cases [consumes 1, case_names inline static heap]:
  assumes "holds t R xs s"
  obtains B where "self s = repr_of_inline t B" "inline_holds t B xs" "inline_word t B" "sound t R s"
  | sb where "self s = repr_of_static t sb" "static_holds t sb xs" "static_word t sb" "sound t R s"
  | H hb b v where "self s = repr_of_heap t hb" "buf_holds t Mutable hb b v xs" "heap_word t hb"
      "heap_rep t H s" "H b = Some v" "owns t H (add_mset (Mutable, self s, xs) R)"
      "live t s Mutable hb b v" "block_of (self s) = Some b"
proof -
  from assms obtain H where H: "heap_rep t H s" "owns t H (add_mset (Mutable, self s, xs) R)"
    unfolding holds_def by (rule soundE)
  have "denotes t H Mutable (self s) xs" using owns_denotes [OF H(2)] by simp
  then show ?thesis
  proof (cases rule: denotes_cases)
    case (inline B)
    then have "sound t R s" using H owns_add_plain [of "self s"] by (auto simp: sound_def)
    with inline that(1) show ?thesis by blast
  next
    case (static sb)
    then have "sound t R s"
      using H owns_add_plain [of "self s"] static_holds_block by (auto simp: sound_def)
    with static that(2) show ?thesis by blast
  next
    case (heap hb b v)
    have "live t s Mutable hb b v" using H(1) heap(2,3) by (rule live_intro)
    moreover have "block_of (self s) = Some b" using heap(1,3) by (simp add: buf_holds_block)
    ultimately show ?thesis using heap H that(3) by blast
  qed
qed

lemma holds_is_static_buffer:
  assumes "holds t R xs s"
  shows "is_static_buffer t (self s) = ret (static_repr (self s))"
  using assms by (cases rule: holds_cases) (auto simp: static_holds_def buf_holds_def)

lemma holds_is_modifiable:
  "holds t R xs s \<Longrightarrow> wp (is_modifiable t (self s)) Q E P s = Q (modifiable R (self s)) s"
  by (simp add: is_modifiable_def holds_is_static_buffer holds_is_unique modifiable_def)

section \<open>Capacity\<close>

definition has_capacity :: "target \<Rightarrow> repr st \<Rightarrow> nat \<Rightarrow> bool" where
  "has_capacity t s c \<longleftrightarrow> repr_capacity t (self s) s = Ret c s"

lemma has_capacity_wp: "has_capacity t s c \<Longrightarrow> wp (repr_capacity t (self s)) Q E P s = Q c s"
  by (simp add: has_capacity_def wp_def)

lemma capacity_heap:
  "live t s Mutable hb b v \<Longrightarrow> heap_word t hb \<Longrightarrow> self s = repr_of_heap t hb \<Longrightarrow>
    has_capacity t s (vcap v)"
  unfolding has_capacity_def wp_Ret_iff [symmetric]
  by (simp add: repr_capacity_def heap_capacity_def wp_header_capacity)

lemma capacity_inline: "inline_word t B \<Longrightarrow> self s = repr_of_inline t B \<Longrightarrow> has_capacity t s (MAX_INLINE_SIZE t)"
  unfolding has_capacity_def wp_Ret_iff [symmetric] by (simp add: repr_capacity_def)

lemma capacity_static:
  "static_holds t sb xs \<Longrightarrow> self s = repr_of_static t sb \<Longrightarrow> has_capacity t s (length xs)"
  unfolding has_capacity_def wp_Ret_iff [symmetric]
  by (simp add: repr_capacity_def static_holds_word static_holds_len)

lemma has_capacity_unique: "has_capacity t s c \<Longrightarrow> has_capacity t s c' \<Longrightarrow> c = c'"
  by (simp add: has_capacity_def)

lemma holds_capacity:
  assumes "holds t R xs s"
  shows "\<exists>c. has_capacity t s c \<and> length xs \<le> c \<and> (static_repr (self s) \<longrightarrow> c = length xs) \<and>
    (block_of (self s) = None \<longrightarrow> \<not> static_repr (self s) \<longrightarrow> c = MAX_INLINE_SIZE t) \<and>
    c \<le> USIZE_MAX t"
  using assms
proof (cases rule: holds_cases)
  case (inline B)
  have "MAX_INLINE_SIZE t \<le> USIZE_MAX t"
    by (cases "pointer_width t") (simp_all add: MAX_INLINE_SIZE_cases target_numbers_32 target_numbers_64)
  with inline(2) capacity_inline [OF inline(3,1)] show ?thesis
    by (auto simp: inline(1) inline_holds_def)
next
  case (static sb)
  have "length xs < 256 ^ len_bytes t" using static(2) by (simp add: static_holds_def Static_MAX_LENGTH_short)
  then have "length xs \<le> USIZE_MAX t" using short_less_usize by (simp add: USIZE_MAX_less_power)
  moreover have "static_repr (self s)" using static(1,2) by (auto simp: static_holds_def)
  ultimately show ?thesis using capacity_static [OF static(2,1)] by auto
next
  case (heap H hb b v)
  have "vcap v \<le> USIZE_MAX t"
    using view_ok_cap [OF heap_rep_ok [OF heap(4,5)]] Capacity_MAX_ISIZE_MAX [of t] ISIZE_MAX_USIZE_MAX [of t]
    by linarith
  moreover have "\<not> static_repr (self s)" using heap(1,2) by (simp add: buf_holds_def)
  ultimately show ?thesis
    using capacity_heap [OF heap(7,3,1)] buf_holds_le_cap [OF heap(2) heap_rep_ok [OF heap(4,5)]] heap(8)
    by auto
qed

lemma holds_capacityE:
  assumes "holds t R xs s"
  obtains c where "has_capacity t s c" "length xs \<le> c" "static_repr (self s) \<Longrightarrow> c = length xs"
    "block_of (self s) = None \<Longrightarrow> \<not> static_repr (self s) \<Longrightarrow> c = MAX_INLINE_SIZE t" "c \<le> USIZE_MAX t"
proof -
  from holds_capacity [OF assms] obtain c where c: "has_capacity t s c" "length xs \<le> c"
    "static_repr (self s) \<longrightarrow> c = length xs"
    "block_of (self s) = None \<longrightarrow> \<not> static_repr (self s) \<longrightarrow> c = MAX_INLINE_SIZE t" "c \<le> USIZE_MAX t"
    by (elim exE conjE)
  then show ?thesis by (intro that [of c]) simp_all
qed

lemma wp_spare_capacity:
  assumes h: "holds t R xs s" and c: "has_capacity t s c"
  shows "wp (spare_capacity t (self s)) Q E P s = Q (c - length xs) s"
  using h
proof (cases rule: holds_cases)
  case (inline B)
  have "c = MAX_INLINE_SIZE t" using has_capacity_unique [OF c capacity_inline [OF inline(3,1)]] .
  moreover have "length xs \<le> MAX_INLINE_SIZE t" using inline(2) by (simp add: inline_holds_def)
  moreover have "(spare_capacity t (self s) :: (repr st, nat) prog) =
      bind (repr_len t Mutable (self s)) (\<lambda>n. usize_sub t (MAX_INLINE_SIZE t) n)"
    using inline by (simp add: spare_capacity_def)
  ultimately show ?thesis by (simp add: holds_repr_len [OF h])
next
  case (static sb)
  have "c = length xs" using has_capacity_unique [OF c capacity_static [OF static(2,1)]] .
  with static show ?thesis by (simp add: spare_capacity_def)
next
  case (heap H hb b v)
  have "c = vcap v" using has_capacity_unique [OF c capacity_heap [OF heap(7,3,1)]] .
  moreover have "length xs \<le> vcap v"
    using heap(2) heap_rep_ok [OF heap(4,5)] by (rule buf_holds_le_cap)
  moreover have "(spare_capacity t (self s) :: (repr st, nat) prog) = bind (heap_capacity t hb) (\<lambda>c.
      bind (repr_len t Mutable (self s)) (\<lambda>n. usize_sub t c n))"
    using heap by (simp add: spare_capacity_def)
  ultimately show ?thesis
    by (simp add: heap_capacity_def wp_header_capacity [OF heap(7)] holds_repr_len [OF h])
qed

lemma wp_must_grow:
  "holds t R xs s \<Longrightarrow> has_capacity t s c \<Longrightarrow>
    wp (must_grow t n) Q E P s = Q (c - length xs < n \<or> \<not> modifiable R (self s)) s"
  by (simp add: must_grow_def holds_is_modifiable wp_spare_capacity)

section \<open>Growing\<close>

definition grown :: "target \<Rightarrow> owner multiset \<Rightarrow> byte list \<Rightarrow> nat \<Rightarrow> repr st \<Rightarrow> repr st \<Rightarrow> bool" where
  "grown t R xs c s s' \<longleftrightarrow>
    holds t R xs s' \<and> modifiable R (self s') \<and> has_capacity t s' c \<and> later s s'"

lemma sound_commute:
  "sound t (add_mset x (add_mset y R)) s = sound t (add_mset y (add_mset x R)) s"
  by (simp add: add_mset_commute)

lemma holds_replace_inner:
  assumes "sound t (add_mset (Mutable, other, ys) (add_mset (Mutable, self s, xs) R)) s"
  shows "wp (replace_inner t Mutable other)
    (\<lambda>_ s'. holds t R ys s' \<and> self s' = other \<and> later s s' \<and> keeps (self s) s s') E P s"
proof -
  have "sound t (add_mset (Mutable, self s, xs) (add_mset (Mutable, other, ys) R)) s"
    using assms by (simp add: sound_commute)
  from sound_replace_inner [OF this] show ?thesis
    by (rule wp_mono) (auto simp: holds_def later_def)
qed

lemma holds_inline:
  "sound t R s \<Longrightarrow> inline_holds t B xs \<Longrightarrow> valid_utf8 xs \<Longrightarrow> self s = repr_of_inline t B \<Longrightarrow>
    holds t R xs s"
  by (simp add: holds_def sound_add_inline)

lemma sound_move_view:
  assumes rep: "heap_rep t H s" and o: "owns t H (add_mset (h, r, xs) R)"
    and b: "block_of r = Some b" "H b = Some v" "vcount v = 1"
    and v': "view_ok t v'" "vcount v' = 1" and B: "buf_holds t h' hb' (next_id s) v' ys"
    and ys: "valid_utf8 ys"
  shows "sound t (add_mset (h', repr_of_heap t hb', ys) R) (move_view t b v' s)"
    "alone R (repr_of_heap t hb')"
proof -
  have none: "H (next_id s) = None" using rep by (rule heap_rep_fresh)
  have R: "owns t (H(b := None)) R" using o b by (rule owns_take)
  have none': "(H(b := None)) (next_id s) = None" using none by simp
  have "owns t (H(b := None, next_id s \<mapsto> v')) (add_mset (h', repr_of_heap t hb', ys) R)"
    using R none' v'(2) B ys by (intro owns_put) (auto simp: buf_holds_block intro: denotes_heap)
  moreover have "heap_rep t (H(b := None, next_id s \<mapsto> v')) (move_view t b v' s)"
    using rep v'(1) by (rule heap_rep_move_view)
  ultimately show "sound t (add_mset (h', repr_of_heap t hb', ys) R) (move_view t b v' s)"
    unfolding sound_def by blast
  show "alone R (repr_of_heap t hb')"
    using owns_no_handles [OF R none'] B by (simp add: alone_def buf_holds_block)
qed

lemma move_view_sel [simp]:
  "calls (move_view t b v s) = Suc (calls s)" "self (move_view t b v s) = self s"
  "oom (move_view t b v s) = oom s"
  by (simp_all add: move_view_def)

text \<open>\<open>reallocate\<close> gives \<open>self\<close> a modifiable buffer of exactly the requested capacity, or the inline
  buffer when that is enough.\<close>

lemma holds_reallocate:
  assumes h: "holds t R xs s" and c: "length xs \<le> c"
  shows "wp (reallocate t c)
    (\<lambda>_ s'. grown t R xs (max c (MAX_INLINE_SIZE t)) s s')
    (\<lambda>s'. rejected t R xs c s s' \<and> MAX_INLINE_SIZE t < c) P s"
proof -
  have valid: "valid_utf8 xs" using h by (rule holds_valid)
  note start = reallocate_def debug_assert_run_def holds_repr_len [OF h] c
  show ?thesis
  proof (cases "c \<le> MAX_INLINE_SIZE t")
    case True
    let ?r = "repr_of_inline t (inline_bytes t xs)"
    have n: "length xs \<le> MAX_INLINE_SIZE t" using c True by simp
    have "sound t (add_mset (Mutable, ?r, xs) (add_mset (Mutable, self s, xs) R)) s"
      using h n valid unfolding holds_def by (intro sound_add_inline inline_holds_inline_bytes)
    from holds_replace_inner [OF this]
    have "wp (replace_inner t Mutable ?r) (\<lambda>_ s'. grown t R xs (MAX_INLINE_SIZE t) s s') E P s" for E P
      by (rule wp_mono)
        (use n valid in \<open>auto simp: grown_def intro: capacity_inline inline_word_inline_bytes\<close>)
    with True n valid show ?thesis
      by (simp add: start holds_as_str [OF h] inline_new_eq inline_word_inline_bytes max_absorb2)
  next
    case False
    then have lt: "MAX_INLINE_SIZE t < c" "max c (MAX_INLINE_SIZE t) = c" by simp_all
    note rules = start False lt holds_is_heap_buffer [OF h] holds_is_unique [OF h] holds_as_str [OF h]
      wp_from_str_with_capacity [OF c]
    show ?thesis
    proof (cases "block_of (self s) \<noteq> None \<and> alone R (self s)")
      case True
      from h show ?thesis
      proof (cases rule: holds_cases)
        case (heap H hb b v)
        have one: "vcount v = 1"
          using owns_count(1) [OF heap(6,5)] heap(8) True by (simp add: alone_def)
        have fresh: "b \<noteq> next_id s" using heap_rep_fresh [OF heap(4)] heap(5) by auto
        let ?hb = "new_buf t Mutable c xs s" and ?v = "realloc_view t c xs v"
        let ?s = "(move_view t b ?v s)\<lparr>self := repr_of_heap t ?hb\<rparr>"
        have ok: "view_ok t v" using heap_rep_ok [OF heap(4,5)] .
        have kind: "vkind v = Mutable" using heap(2) by (simp add: buf_holds_def)
        have grown: "grown t R xs c s ?s" if fits: "fits t Mutable c"
        proof -
          have v': "view_ok t ?v" using ok kind fits c by (rule view_ok_realloc_view)
          have B: "buf_holds t Mutable ?hb (next_id s) ?v xs"
            using heap(2) ok c by (rule buf_holds_realloc_view)
          have "vcount ?v = 1" using one by simp
          note new = sound_move_view [OF heap(4,6,8,5) one v' this B valid]
          have L: "live t ?s Mutable ?hb (next_id s) ?v"
            using v' B by (simp add: live_def buf_holds_def move_view_def)
          from capacity_heap [OF L buf_holds_word [OF B]] have "has_capacity t ?s c" by simp
          moreover have "modifiable R (self ?s)"
            using new(2) B by (simp add: modifiable_def buf_holds_def)
          ultimately show ?thesis using new(1) by (simp add: grown_def holds_def later_def)
        qed
        have stay: "rejected t R xs c s s'" if "s' = s \<and> \<not> fits t Mutable c \<or>
            s' = s\<lparr>calls := Suc (calls s)\<rparr> \<and> oom s (calls s)" for s'
          using that h by (auto simp: rejected_def holds_def later_def)
        have "(as_heap_buffer t (self s) :: (repr st, heap_buffer) prog) = ret hb" using heap(1,3) by simp
        with True one False c grown stay show ?thesis
          by (simp add: rules wp_heap_realloc [OF heap(7,2) valid c one fresh] set_self_def)
      qed (use True in \<open>auto simp: static_holds_block\<close>)
    next
      case shared: False
      let ?hb = "new_buf t Mutable c xs s" and ?v = "new_view t Mutable c xs"
      let ?R = "add_mset (Mutable, self s, xs) R" and ?s = "add_view t (new_view t Mutable c xs) s"
      have new: "wp (replace_inner t Mutable (repr_of_heap t ?hb)) (\<lambda>_ s'. grown t R xs c s s') E P ?s"
        "heap_word t ?hb" if fits: "fits t Mutable c" for E P
      proof -
        have snd: "sound t ?R s" using h by (simp add: holds_def)
        note add = sound_add_heap [OF snd fits c _ valid, simplified]
        have v: "view_ok t ?v" "vkind ?v = Mutable" using fits c by simp_all
        have B: "buf_holds t Mutable ?hb (next_id s) ?v xs"
          using c by (rule buf_holds_new_view) simp
        have b: "block_of (repr_of_heap t ?hb) = Some (next_id s)" using B by (rule buf_holds_block)
        have old: "block_of (self s) \<noteq> Some (next_id s)" "alone R (repr_of_heap t ?hb)"
          using add(2) b by (auto simp: alone_def modifiable_def)
        show "heap_word t ?hb" by (rule add)
        show "wp (replace_inner t Mutable (repr_of_heap t ?hb)) (\<lambda>_ s'. grown t R xs c s s') E P ?s"
        proof (rule wp_mono [OF holds_replace_inner])
          show "sound t (add_mset (Mutable, repr_of_heap t ?hb, xs) (add_mset (Mutable, self ?s, xs) R)) ?s"
            using add(1) by simp
          fix s' assume s': "holds t R xs s' \<and> self s' = repr_of_heap t ?hb \<and> later ?s s' \<and> keeps (self ?s) ?s s'"
          then have "blocks s' (next_id s) = Some (view_block t ?v)"
            using old(1) by (simp add: keeps_def add_view_def)
          then have "live t s' Mutable ?hb (next_id s) ?v" using v B by (simp add: live_def buf_holds_def)
          from capacity_heap [OF this add(3)] s' have "has_capacity t s' c" by simp
          moreover have "modifiable R (self s')" using s' old(2) B by (simp add: modifiable_def buf_holds_def)
          ultimately show "grown t R xs c s s'" using s' by (simp add: grown_def later_def)
        qed
      qed
      have stay: "rejected t R xs c s s'" if "s' = s \<and> \<not> fits t Mutable c \<or>
          s' = s\<lparr>calls := Suc (calls s)\<rparr> \<and> oom s (calls s)" for s'
        using that h by (auto simp: rejected_def holds_def later_def)
      from shared False c new stay show ?thesis by (auto simp: rules)
    qed
  qed
qed

section \<open>Amortised growth\<close>

lemma holds_len:
  assumes "holds t R xs s"
  shows "length xs \<le> ISIZE_MAX t"
  using assms
proof (cases rule: holds_cases)
  case (inline B)
  then have "length xs \<le> 16" using MAX_INLINE_SIZE_le [of t] by (simp add: inline_holds_def)
  then show ?thesis by (cases "pointer_width t") (simp_all add: target_numbers_32 target_numbers_64)
next
  case (static sb)
  then have "length xs < 256 ^ len_bytes t" by (simp add: static_holds_def Static_MAX_LENGTH_short)
  then show ?thesis
    by (cases "pointer_width t") (simp_all add: len_bytes_numeral target_numbers_32 target_numbers_64)
next
  case (heap H hb b v)
  then show ?thesis using buf_holds_len_bounds(2) heap_rep_ok by blast
qed

definition amortized :: "target \<Rightarrow> nat \<Rightarrow> nat \<Rightarrow> nat" where
  "amortized t len additional =
    (if len + additional \<le> MAX_INLINE_SIZE t then len + additional
     else max (len + additional) (len + len div 2))"

lemma amortized_ge: "len + additional \<le> amortized t len additional"
  by (simp add: amortized_def)

lemma refused_overflow: "USIZE_MAX t < n \<Longrightarrow> n \<le> c \<Longrightarrow> refused t h c s s'"
  using fits_ISIZE_MAX [of t h c] ISIZE_MAX_USIZE_MAX [of t] by (auto simp: refused_def)

lemma rejected_refl: "holds t R xs s \<Longrightarrow> refused t Mutable c s s \<Longrightarrow> rejected t R xs c s s"
  by (simp add: rejected_def)

lemma holds_grow_amortized:
  fixes n :: nat
  assumes h: "holds t R xs s"
  defines "c \<equiv> amortized t (length xs) n"
  shows "wp (grow_amortized t n)
    (\<lambda>_ s'. grown t R xs (max c (MAX_INLINE_SIZE t)) s s')
    (\<lambda>s'. rejected t R xs c s s') P s"
proof (cases "length xs + n \<le> USIZE_MAX t")
  case False
  then have "rejected t R xs c s s"
    using h amortized_ge [of "length xs" n t] refused_overflow [of t "length xs + n" c]
    by (auto simp: c_def intro: rejected_refl)
  with False show ?thesis
    by (simp add: grow_amortized_def holds_repr_len [OF h] checked_add_def)
next
  case True
  have le: "length xs \<le> c" using amortized_ge [of "length xs" n t] by (simp add: c_def)
  have "length xs + length xs div 2 \<le> USIZE_MAX t"
    using holds_len [OF h] ISIZE_MAX_USIZE_MAX [of t] by linarith
  moreover have "wp (reallocate t c) (\<lambda>_ s'. grown t R xs (max c (MAX_INLINE_SIZE t)) s s')
      (\<lambda>s'. rejected t R xs c s s') P s"
    by (rule wp_mono [OF holds_reallocate [OF h le]]) auto
  ultimately show ?thesis
    using True by (cases "length xs + n \<le> MAX_INLINE_SIZE t")
      (simp_all add: grow_amortized_def holds_repr_len [OF h] checked_add_def c_def amortized_def)
qed

lemma holds_grow_exact:
  fixes n :: nat
  assumes h: "holds t R xs s"
  defines "c \<equiv> length xs + n"
  shows "wp (grow_exact t n)
    (\<lambda>_ s'. grown t R xs (max c (MAX_INLINE_SIZE t)) s s')
    (\<lambda>s'. rejected t R xs c s s') P s"
proof (cases "c \<le> USIZE_MAX t")
  case False
  then have "rejected t R xs c s s" using h refused_overflow [of t c c] by (auto intro: rejected_refl)
  with False show ?thesis
    by (simp add: grow_exact_def holds_repr_len [OF h] checked_add_def c_def)
next
  case True
  have le: "length xs \<le> c" by (simp add: c_def)
  have "wp (reallocate t c) (\<lambda>_ s'. grown t R xs (max c (MAX_INLINE_SIZE t)) s s')
      (\<lambda>s'. rejected t R xs c s s') P s"
    by (rule wp_mono [OF holds_reallocate [OF h le]]) auto
  then show ?thesis
    using True by (simp add: grow_exact_def holds_repr_len [OF h] checked_add_def c_def)
qed

text \<open>Room for \<open>n\<close> more bytes in a buffer that may be written.\<close>

definition roomy :: "target \<Rightarrow> owner multiset \<Rightarrow> byte list \<Rightarrow> nat \<Rightarrow> repr st \<Rightarrow> repr st \<Rightarrow> bool" where
  "roomy t R xs n s s' \<longleftrightarrow>
    holds t R xs s' \<and> modifiable R (self s') \<and> later s s' \<and> (\<exists>c. has_capacity t s' c \<and> length xs + n \<le> c)"

lemma grown_roomy: "grown t R xs c s s' \<Longrightarrow> length xs + n \<le> c \<Longrightarrow> roomy t R xs n s s'"
  by (auto simp: grown_def roomy_def)

lemma roomy_refl:
  "holds t R xs s \<Longrightarrow> modifiable R (self s) \<Longrightarrow> has_capacity t s c \<Longrightarrow> length xs \<le> c \<Longrightarrow>
    \<not> c - length xs < n \<Longrightarrow> roomy t R xs n s s"
  by (auto simp: roomy_def)

lemma make_room:
  assumes h: "holds t R xs s"
    and go: "\<And>s'. roomy t R xs n s s' \<Longrightarrow> wp rest Q E P s'"
    and stop: "\<And>s'. rejected t R xs (amortized t (length xs) n) s s' \<Longrightarrow> E s'"
  shows "wp (bind (must_grow t n) (\<lambda>g. bind (if g then grow_amortized t n else ret ()) (\<lambda>_. rest))) Q E P s"
proof -
  obtain c where c: "has_capacity t s c" "length xs \<le> c" using h by (rule holds_capacityE)
  have "wp (grow_amortized t n) (\<lambda>_. wp rest Q E P) E P s"
    by (rule wp_mono [OF holds_grow_amortized [OF h]])
      (use amortized_ge [of "length xs" n t] in \<open>auto intro!: go stop elim!: grown_roomy\<close>)
  moreover have "wp rest Q E P s" if "\<not> (c - length xs < n \<or> \<not> modifiable R (self s))"
    using that by (intro go roomy_refl [OF h _ c]) simp_all
  ultimately show ?thesis by (simp add: wp_must_grow [OF h c(1)])
qed

text \<open>\<open>reserve\<close> and \<open>reserve_exact\<close>: room for the bytes asked for, or nothing changed. Zero bytes
  keep a shared or static buffer as it is.\<close>

lemma holds_reserve:
  assumes h: "holds t R xs s" and n: "n \<noteq> 0"
  shows "wp (reserve t n) (\<lambda>_ s'. roomy t R xs n s s')
    (\<lambda>s'. rejected t R xs (amortized t (length xs) n) s s') P s"
proof -
  have eq: "reserve t n = bind (must_grow t n) (\<lambda>g. bind (if g then grow_amortized t n else ret ()) (\<lambda>_. ret ()))"
    using n by (simp add: reserve_def bind_def ret_def fun_eq_iff split: outcome.split)
  show ?thesis unfolding eq by (rule make_room [OF h]) simp_all
qed

lemma holds_reserve_exact:
  assumes h: "holds t R xs s" and n: "n \<noteq> 0"
  shows "wp (reserve_exact t n) (\<lambda>_ s'. roomy t R xs n s s')
    (\<lambda>s'. rejected t R xs (length xs + n) s s') P s"
proof -
  obtain c where c: "has_capacity t s c" "length xs \<le> c" using h by (rule holds_capacityE)
  have "wp (grow_exact t n) (\<lambda>_ s'. roomy t R xs n s s') (\<lambda>s'. rejected t R xs (length xs + n) s s') P s"
    by (rule wp_mono [OF holds_grow_exact [OF h]]) (auto elim: grown_roomy)
  with c n h show ?thesis
    by (auto simp: reserve_exact_def wp_must_grow [OF h c(1)] intro: roomy_refl)
qed

lemma holds_ensure_modifiable:
  assumes h: "holds t R xs s"
  shows "wp (ensure_modifiable t)
    (\<lambda>_ s'. holds t R xs s' \<and> modifiable R (self s') \<and> later s s' \<and> (modifiable R (self s) \<longrightarrow> s' = s))
    (\<lambda>s'. rejected t R xs (length xs) s s') P s"
proof (cases "modifiable R (self s)")
  case True
  with h show ?thesis by (simp add: ensure_modifiable_def holds_is_modifiable)
next
  case False
  have valid: "valid_utf8 xs" using h by (rule holds_valid)
  have snd: "sound t (add_mset (Mutable, self s, xs) R) s" using h by (simp add: holds_def)
  have "wp (from_str t Mutable xs)
      (\<lambda>r s1. wp (replace_inner t Mutable r)
        (\<lambda>_ s'. holds t R xs s' \<and> modifiable R (self s') \<and> later s s' \<and> (modifiable R (self s) \<longrightarrow> s' = s))
        (\<lambda>s'. rejected t R xs (length xs) s s') P s1)
      (\<lambda>s'. rejected t R xs (length xs) s s') P s"
  proof (rule wp_mono [OF sound_from_str [OF snd valid, where h = Mutable]])
    fix r s1
    assume s1: "sound t (add_mset (Mutable, r, xs) (add_mset (Mutable, self s, xs) R)) s1 \<and>
      mem_only s s1 \<and> modifiable (add_mset (Mutable, self s, xs) R) r"
    then have "self s1 = self s" "later s s1" "modifiable R r"
      by (auto simp: mem_only_def later_def modifiable_def alone_def)
    moreover from this s1
    have "sound t (add_mset (Mutable, r, xs) (add_mset (Mutable, self s1, xs) R)) s1" by simp
    note replaced = holds_replace_inner [OF this]
    ultimately show "wp (replace_inner t Mutable r)
        (\<lambda>_ s'. holds t R xs s' \<and> modifiable R (self s') \<and> later s s' \<and> (modifiable R (self s) \<longrightarrow> s' = s))
        (\<lambda>s'. rejected t R xs (length xs) s s') P s1"
      using False by (intro wp_mono [OF replaced]) (auto intro: later_trans)
  qed (use h in \<open>auto simp: rejected_def holds_def mem_only_def later_def\<close>)
  with False show ?thesis
    by (simp add: ensure_modifiable_def holds_is_modifiable [OF h] holds_as_str [OF h])
qed

end
