(* ===== verification/ReprEdit.thy ===== *)
theory ReprEdit
  imports ReprGrow
begin

text \<open>
  Editing in place. Between \<open>as_mut_ptr\<close> and \<open>set_len\<close> the value behind \<open>self\<close> is a plain array of
  bytes: \<open>editing\<close> gives its content, the rules for the accesses say how it changes, and
  \<open>editing_set_len\<close> turns it back into a value. All rules are in the form that a
  specification is proved by running the method from its first statement to its last.
\<close>

definition editing :: "target \<Rightarrow> owner multiset \<Rightarrow> place \<Rightarrow> byte option list \<Rightarrow> repr st \<Rightarrow> bool" where
  "editing t R pl d s \<longleftrightarrow>
    (pl = InSelf \<and> sound t R s \<and>
      (\<exists>B. self s = repr_of_inline t B \<and> length B = MAX_INLINE_SIZE t \<and> d = map Some B)) \<or>
    (\<exists>H hb b v. pl = OnHeap (hptr hb) \<and> self s = repr_of_heap t hb \<and> heap_word t hb \<and>
      heap_rep t H s \<and> H b = Some v \<and> live t s Mutable hb b v \<and> vcount v = 1 \<and> vdata v = d \<and>
      owns t (H(b := None)) R)"

text \<open>The last byte of an inline buffer still says that it is one.\<close>

definition tail_ok :: "place \<Rightarrow> byte option list \<Rightarrow> bool" where
  "tail_ok pl d \<longleftrightarrow> (pl = InSelf \<longrightarrow> (\<exists>x. d \<noteq> [] \<and> last d = Some x \<and> unat x < 0xD0))"

lemma editing_cases [consumes 1, case_names inline heap]:
  assumes "editing t R pl d s"
  obtains B where "pl = InSelf" "sound t R s" "self s = repr_of_inline t B"
      "length B = MAX_INLINE_SIZE t" "d = map Some B"
  | H hb b v where "pl = OnHeap (hptr hb)" "self s = repr_of_heap t hb" "heap_word t hb"
      "heap_rep t H s" "H b = Some v" "live t s Mutable hb b v" "vcount v = 1" "vdata v = d"
      "owns t (H(b := None)) R"
  using assms unfolding editing_def by blast

lemma editing_inline:
  "sound t R s \<Longrightarrow> self s = repr_of_inline t B \<Longrightarrow> length B = MAX_INLINE_SIZE t \<Longrightarrow> d = map Some B \<Longrightarrow>
    editing t R InSelf d s"
  by (auto simp: editing_def)

lemma editing_heap:
  "self s = repr_of_heap t hb \<Longrightarrow> heap_word t hb \<Longrightarrow> heap_rep t H s \<Longrightarrow> H b = Some v \<Longrightarrow>
    live t s Mutable hb b v \<Longrightarrow> vcount v = 1 \<Longrightarrow> vdata v = d \<Longrightarrow> owns t (H(b := None)) R \<Longrightarrow>
    editing t R (OnHeap (hptr hb)) d s"
  by (auto simp: editing_def)

section \<open>Entering\<close>

lemma holds_as_mut_ptr:
  assumes h: "holds t R xs s" and m: "modifiable R (self s)" and c: "has_capacity t s c"
    and go: "\<And>pl d. editing t R pl d s \<Longrightarrow> length d = c \<Longrightarrow> take (length xs) d = map Some xs \<Longrightarrow>
      tail_ok pl d \<Longrightarrow> Q pl s"
  shows "wp (as_mut_ptr t) Q E P s"
  using h
proof (cases rule: holds_cases)
  case (inline B)
  have len: "length B = MAX_INLINE_SIZE t" using inline(3) by (simp add: inline_word_def)
  have cap: "c = MAX_INLINE_SIZE t" using has_capacity_unique [OF c capacity_inline [OF inline(3,1)]] .
  have "B \<noteq> []" using len MAX_INLINE_SIZE_pos [of t] by (metis less_numeral_extra(3) list.size(3))
  then have "tail_ok InSelf (map Some B)" using inline(3) by (simp add: tail_ok_def inline_word_def last_map)
  moreover have "take (length xs) (map Some B) = map Some xs"
    using inline(2) by (simp add: inline_holds_def take_map)
  ultimately have "Q InSelf s" using inline len cap by (intro go [of InSelf "map Some B"] editing_inline) simp_all
  with inline show ?thesis by (simp add: as_mut_ptr_def debug_assert_run_def)
next
  case (static sb)
  with m show ?thesis by (auto simp: modifiable_def static_holds_def)
next
  case (heap H hb b v)
  have one: "vcount v = 1" using owns_count(1) [OF heap(6,5)] heap(8) m by (simp add: modifiable_def alone_def)
  have cap: "c = vcap v" using has_capacity_unique [OF c capacity_heap [OF heap(7,3,1)]] .
  have "editing t R (OnHeap (hptr hb)) (vdata v) s"
    using heap one owns_take [OF heap(6,8,5) one] by (intro editing_heap) simp_all
  moreover have "length (vdata v) = c" using heap_rep_ok [OF heap(4,5)] cap by (simp add: view_ok_def)
  moreover have "take (length xs) (vdata v) = map Some xs" using heap(2) unfolding buf_holds_def by blast
  ultimately have "Q (OnHeap (hptr hb)) s" by (rule go) (simp add: tail_ok_def)
  with heap one show ?thesis
    by (simp add: as_mut_ptr_def debug_assert_run_def wp_heap_is_unique [OF heap(7)])
      (simp add: repr_of_heap_def)
qed

section \<open>Accesses\<close>

lemma overwrite_map: "overwrite (map f xs) off (map f ys) = map f (overwrite xs off ys)"
  by (simp add: overwrite_def take_map drop_map)

lemma window_map: "window (map f xs) off n = map f (window xs off n)"
  by (simp add: window_def take_map drop_map)

lemma repr_of_inline_sel [simp]:
  "word0 (repr_of_inline t B) = Bytes (take (USIZE_SIZE t) B)"
  "take (USIZE_SIZE t) B @ word1 (repr_of_inline t B) = B"
  by (simp_all add: repr_of_inline_def)

lemma wp_self_bytes:
  "self s = repr_of_inline t B \<Longrightarrow> wp self_bytes Q E P s = Q B s"
  by (simp add: self_bytes_def)

lemma editing_write:
  assumes e: "editing t R pl d s" and n: "off + length ys \<le> length d"
    and go: "\<And>s'. editing t R pl (overwrite d off (map Some ys)) s' \<Longrightarrow> later s s' \<Longrightarrow> Q () s'"
  shows "wp (place_write t pl off ys) Q E P s"
  using e
proof (cases rule: editing_cases)
  case (inline B)
  let ?s = "s\<lparr>self := repr_of_inline t (overwrite B off ys)\<rparr>"
  have "editing t R InSelf (overwrite d off (map Some ys)) ?s"
    using inline n by (intro editing_inline) (simp_all add: overwrite_map)
  with inline n go [of ?s] show ?thesis
    by (simp add: place_write_def wp_self_bytes set_self_def)
next
  case (heap H hb b v)
  have v: "blocks s b = Some (view_block t v)" "view_ok t v" "hptr hb = HeapPtr b (data_off t v)"
    using heap(6) by (simp_all add: live_def)
  let ?v = "v\<lparr>vdata := overwrite d off (map Some ys)\<rparr>"
  have cap: "vcap v = length d" using v(2) heap(8) by (simp add: view_ok_def)
  have v': "view_ok t ?v" using v(2) n cap by simp
  have "editing t R (OnHeap (hptr hb)) (overwrite d off (map Some ys)) (put_view t b ?v s)"
    using heap v' heap_rep_put_view [OF heap(4,5) v']
    by (intro editing_heap [where H = "H(b \<mapsto> ?v)" and b = b and v = ?v]) simp_all
  then have "Q () (put_view t b ?v s)" using heap(1) by (intro go) (simp_all add: later_def)
  then show ?thesis
    using heap(1,8) v n cap data_off_le [OF v(2)] view_data_overwrite [OF v(2), of off "map Some ys"]
    by (simp add: place_write_def put_view_def)
qed

lemma editing_copy:
  assumes e: "editing t R pl d s" and n: "src + n \<le> length d" "dst + n \<le> length d"
    and go: "\<And>s'. editing t R pl (overwrite d dst (window d src n)) s' \<Longrightarrow> later s s' \<Longrightarrow> Q () s'"
  shows "wp (place_copy t pl src dst n) Q E P s"
  using e
proof (cases rule: editing_cases)
  case (inline B)
  let ?s = "s\<lparr>self := repr_of_inline t (overwrite B dst (window B src n))\<rparr>"
  have "editing t R InSelf (overwrite d dst (window d src n)) ?s"
    using inline n by (intro editing_inline) (simp_all add: overwrite_map window_map)
  with inline n go [of ?s] show ?thesis
    by (simp add: place_copy_def wp_self_bytes set_self_def)
next
  case (heap H hb b v)
  have v: "blocks s b = Some (view_block t v)" "view_ok t v" "hptr hb = HeapPtr b (data_off t v)"
    using heap(6) by (simp_all add: live_def)
  let ?ys = "window d src n"
  let ?v = "v\<lparr>vdata := overwrite d dst ?ys\<rparr>"
  have cap: "vcap v = length d" using v(2) heap(8) by (simp add: view_ok_def)
  have v': "view_ok t ?v" using v(2) n cap by simp
  have "editing t R (OnHeap (hptr hb)) (overwrite d dst ?ys) (put_view t b ?v s)"
    using heap v' heap_rep_put_view [OF heap(4,5) v']
    by (intro editing_heap [where H = "H(b \<mapsto> ?v)" and b = b and v = ?v]) simp_all
  then have "Q () (put_view t b ?v s)" using heap(1) by (intro go) (simp_all add: later_def)
  then show ?thesis
    using heap(1,8) v n cap data_off_le [OF v(2)] view_data_window [OF v(2), of src n]
      view_data_overwrite [OF v(2), of dst ?ys]
    by (simp add: place_copy_def ptr_copy_def put_view_def)
qed

lemma editing_read:
  assumes e: "editing t R pl d s" and n: "off + length ys \<le> length d"
    and ys: "window d off (length ys) = map Some ys"
  shows "wp (place_read pl off (length ys)) Q E P s = Q ys s"
  using e
proof (cases rule: editing_cases)
  case (inline B)
  then have "map Some (window B off (length ys)) = map Some ys" using ys by (simp add: window_map)
  then have "window B off (length ys) = ys" by (simp add: inj_map_eq_map)
  with inline n show ?thesis by (simp add: place_read_def wp_self_bytes)
next
  case (heap H hb b v)
  have v: "blocks s b = Some (view_block t v)" "view_ok t v" "hptr hb = HeapPtr b (data_off t v)"
    using heap(6) by (simp_all add: live_def)
  have cap: "vcap v = length d" using v(2) heap(8) by (simp add: view_ok_def)
  have "wp (read_bytes (HeapPtr b (data_off t v + off)) (length ys)) Q E P s = Q ys s"
    using ys n cap heap(8) by (intro wp_read_data [OF heap(6)]) (simp_all add: window_def)
  then show ?thesis
    using heap(1) v n cap data_off_le [OF v(2)] by (simp add: place_read_def)
qed

section \<open>Leaving\<close>

lemma editing_inline_word:
  assumes "length B = MAX_INLINE_SIZE t" "take (length ys) (map Some B) = map Some ys" "valid_utf8 ys"
    and "length ys < length B \<Longrightarrow> tail_ok InSelf (map Some B)" "length ys \<le> length B"
  shows "inline_word t B"
proof (cases "length ys < length B")
  case True
  with assms(1,4) show ?thesis by (auto simp: tail_ok_def inline_word_def last_map)
next
  case False
  then have n: "length ys = length B" using assms(5) by simp
  then have "map Some B = map Some ys" using assms(2) by simp
  then have eq: "B = ys" by (simp add: inj_map_eq_map)
  have "ys \<noteq> []" using n assms(1) MAX_INLINE_SIZE_pos [of t] by (metis less_numeral_extra(3) list.size(3))
  with valid_utf8_last [OF assms(3)] assms(1) show ?thesis by (simp add: eq inline_word_def)
qed

text \<open>The state after the length of the only handle of a growable buffer was set.\<close>

lemma holds_set_len_unique:
  assumes rep: "heap_rep t H s" "H b = Some v" and L: "live t s Mutable hb b v" and one: "vcount v = 1"
    and o: "owns t (H(b := None)) R"
    and ys: "take (length ys) (vdata v) = map Some ys" "valid_utf8 ys" and n: "length ys \<le> vcap v"
  defines "s' \<equiv> (put_view t b (with_len t (length ys) v) s)
    \<lparr>self := repr_of_heap t (hb\<lparr>hlen := text_len t (length ys)\<rparr>)\<rparr>"
  shows "holds t R ys s'" "modifiable R (self s')" "has_capacity t s' (vcap v)" "later s s'"
proof -
  have v: "blocks s b = Some (view_block t v)" "view_ok t v" "hptr hb = HeapPtr b (data_off t v)"
    "vkind v = Mutable"
    using L by (simp_all add: live_def)
  let ?v = "with_len t (length ys) v" and ?hb = "hb\<lparr>hlen := text_len t (length ys)\<rparr>"
  have v': "view_ok t ?v" using v(2) n by (simp add: view_ok_with_len)
  have B: "buf_holds t Mutable ?hb b ?v ys"
    using v ys(1) by (simp add: buf_holds_def with_len_prefix)
  have blk: "block_of (repr_of_heap t ?hb) = Some b" using B by (rule buf_holds_block)
  have "owns t ((H(b := None))(b \<mapsto> ?v)) (add_mset (Mutable, repr_of_heap t ?hb, ys) R)"
    using o blk B ys(2) one by (intro owns_put) (auto intro: denotes_heap)
  then show "holds t R ys s'"
    using heap_rep_put_view [OF rep v'] unfolding holds_def sound_def s'_def by auto
  show "modifiable R (self s')"
    using owns_no_handles [OF o, of b] blk v(3) by (simp add: s'_def modifiable_def alone_def)
  have "live t s' Mutable ?hb b ?v" using v v' by (simp add: s'_def live_def put_view_def)
  from capacity_heap [OF this buf_holds_word [OF B]] show "has_capacity t s' (vcap v)" by (simp add: s'_def)
  show "later s s'" by (simp add: s'_def later_def)
qed

lemma editing_set_len:
  assumes e: "editing t R pl d s" and ys: "take (length ys) d = map Some ys" "valid_utf8 ys"
    and n: "length ys \<le> length d" and tail: "length ys < length d \<Longrightarrow> tail_ok pl d"
  shows "wp (set_len t (length ys))
    (\<lambda>_ s'. holds t R ys s' \<and> modifiable R (self s') \<and> has_capacity t s' (length d) \<and> later s s') E P s"
  using e
proof (cases rule: editing_cases)
  case (inline B)
  have w: "inline_word t B"
    using inline ys n tail by (intro editing_inline_word [of B t ys]) simp_all
  have take: "take (length ys) B = ys"
    using ys(1) inline(5) by (simp add: take_map inj_map_eq_map)
  have unique: "wp (is_modifiable t (repr_of_inline t B)) Q' E' P' s = Q' True s" for Q' E' P'
    using w by (simp add: is_modifiable_def is_unique_def)
  have cap: "wp (repr_capacity t (repr_of_inline t B)) Q' E' P' s = Q' (MAX_INLINE_SIZE t) s" for Q' E' P'
    using w by (simp add: repr_capacity_def)
  have "wp (inline_set_len t B (length ys)) (\<lambda>B' s'. s' = s \<and> inline_holds t B' ys) E P s"
    using inline(4) take by (rule inline_set_len_holds)
  then have "wp (inline_set_len t B (length ys))
    (\<lambda>B' s'. let s'' = s'\<lparr>self := repr_of_inline t B'\<rparr> in
       holds t R ys s'' \<and> modifiable R (self s'') \<and> has_capacity t s'' (length d) \<and> later s s'') E P s"
    using inline ys(2)
    by (elim wp_mono) (auto simp: Let_def intro: holds_inline capacity_inline inline_holds_word)
  then show ?thesis
    using inline n w
    by (simp add: set_len_def debug_assert_run_def unique cap set_self_def Let_def)
next
  case (heap H hb b v)
  have v: "blocks s b = Some (view_block t v)" "view_ok t v" "hptr hb = HeapPtr b (data_off t v)"
    "vkind v = Mutable"
    using heap(6) by (simp_all add: live_def)
  have capd: "vcap v = length d" using v(2) heap(8) by (simp add: view_ok_def)
  note new = holds_set_len_unique [OF heap(4,5,6,7,9) ys(1) [folded heap(8)] ys(2)] 
  show ?thesis
    using heap v n capd new
    by (simp add: set_len_def debug_assert_run_def is_modifiable_def is_unique_def
        wp_heap_is_unique [OF heap(6)] repr_capacity_def heap_capacity_def wp_header_capacity [OF heap(6)]
        wp_heap_set_len [OF heap(6)] set_self_def)
qed

end
