(* ===== verification/ReprAppend.thy ===== *)
theory ReprAppend
  imports ReprEdit
begin

text \<open>
  The methods that add text: \<open>push_str\<close>, \<open>push_char\<close>, \<open>extend_from_within\<close>, \<open>insert_str\<close> and
  \<open>insert_char\<close>. Each either leaves the expected text behind \<open>self\<close>, or is rejected with the old
  text; it never panics for a valid index.
\<close>

section \<open>Finishing an edit\<close>

definition edited :: "target \<Rightarrow> owner multiset \<Rightarrow> byte list \<Rightarrow> repr st \<Rightarrow> repr st \<Rightarrow> bool" where
  "edited t R zs s s' \<longleftrightarrow> holds t R zs s' \<and> later s s'"

lemma edited_refl: "holds t R xs s \<Longrightarrow> edited t R xs s s"
  by (simp add: edited_def)

lemma finish_edit:
  assumes "editing t R pl d s1" "later s s1" "take n d = map Some zs" "length zs = n" "valid_utf8 zs"
    and "n \<le> length d" "n < length d \<Longrightarrow> tail_ok pl d"
  shows "wp (set_len t n) (\<lambda>_ s'. edited t R zs s s') E P s1"
proof -
  have "wp (set_len t (length zs))
      (\<lambda>_ s'. holds t R zs s' \<and> modifiable R (self s') \<and> has_capacity t s' (length d) \<and> later s1 s') E P s1"
    using assms by (intro editing_set_len) simp_all
  then show ?thesis
    using assms(2,4) by (auto simp: edited_def elim!: wp_mono intro: later_trans)
qed

lemma tail_ok_overwrite:
  assumes "tail_ok pl d" "off + length ys < length d"
  shows "tail_ok pl (overwrite d off ys)"
proof -
  have "drop (off + length ys) d \<noteq> []" using assms(2) by simp
  then have "last (overwrite d off ys) = last d" "overwrite d off ys \<noteq> []"
    by (auto simp: overwrite_def last_append last_drop)
  with assms(1) show ?thesis by (auto simp: tail_ok_def)
qed

lemma has_capacity_usize: "holds t R xs s \<Longrightarrow> has_capacity t s c \<Longrightarrow> c \<le> USIZE_MAX t"
  using holds_capacityE has_capacity_unique by metis

lemma write_char_eq: "write_char t pl off ch = place_write t pl off (encode_utf8 ch)"
proof -
  have "len_utf8 ch \<in> {1, 2, 3, 4}" by (simp add: len_utf8_def)
  moreover have "take (len_utf8 ch) (encode_utf8 ch) = encode_utf8 ch" by simp
  ultimately show ?thesis by (auto simp: write_char_def Let_def simp del: take_all_iff)
qed

section \<open>Replacing a piece of the text\<close>

lemma replace_data:
  assumes "take (length xs) d = map Some xs" "i \<le> j" "j \<le> length xs"
    and "i + length ys + (length xs - j) \<le> length d"
  shows "take (i + length ys + (length xs - j))
      (overwrite (overwrite d (i + length ys) (window d j (length xs - j))) i (map Some ys)) =
    map Some (take i xs @ ys @ drop j xs)"
proof -
  obtain rest where d: "d = map Some xs @ rest" using assms(1) by (metis append_take_drop_id)
  have w: "window d j (length xs - j) = map Some (drop j xs)"
    using assms(3) by (simp add: d window_def drop_map)
  have "take i (take (i + length ys) d @ zs) = map Some (take i xs)" for zs
    using assms by (simp add: d take_map)
  then show ?thesis using assms(2-4) by (simp add: w overwrite_def take_map drop_map)
qed

text \<open>Moving the tail to its new place, writing the new piece and setting the length. The bytes
  from \<open>i\<close> to \<open>j\<close> go; with \<open>i = j\<close> this opens a gap.\<close>

lemma run_replace:
  assumes e: "editing t R pl d s1" "take (length xs) d = map Some xs" "tail_ok pl d" "later s s1"
    and ij: "i \<le> j" "j \<le> length xs" and n: "n = i + length ys + (length xs - j)" "n \<le> length d"
    and ys: "valid_utf8 (take i xs @ ys @ drop j xs)"
  shows "wp (place_copy t pl j (i + length ys) (length xs - j))
    (\<lambda>_. wp (place_write t pl i ys)
      (\<lambda>_. wp (set_len t n) (\<lambda>_. edited t R (take i xs @ ys @ drop j xs) s) E P) E P) E P s1"
proof -
  let ?w = "window d j (length xs - j)"
  let ?d1 = "overwrite d (i + length ys) ?w"
  let ?d2 = "overwrite ?d1 i (map Some ys)"
  have le: "length xs \<le> length d" using e(2) by (metis length_map length_take min.cobounded1)
  have w: "length ?w = length xs - j" using le ij(2) by simp
  have len: "length ?d1 = length d" "length ?d2 = length d" using w n by simp_all
  show ?thesis
  proof (rule editing_copy [OF e(1)])
    fix s2 assume e2: "editing t R pl ?d1 s2" "later s1 s2"
    show "wp (place_write t pl i ys)
      (\<lambda>_. wp (set_len t n) (\<lambda>_. edited t R (take i xs @ ys @ drop j xs) s) E P) E P s2"
    proof (rule editing_write [OF e2(1)])
      fix s3 assume e3: "editing t R pl ?d2 s3" "later s2 s3"
      show "wp (set_len t n) (\<lambda>_. edited t R (take i xs @ ys @ drop j xs) s) E P s3"
      proof (rule finish_edit [OF e3(1)])
        show "later s s3" using e(4) e2(2) e3(2) later_trans by blast
        show "take n ?d2 = map Some (take i xs @ ys @ drop j xs)"
          using replace_data [OF e(2) ij] n by simp
        show "tail_ok pl ?d2" if "n < length ?d2"
        proof (rule tail_ok_overwrite)
          show "tail_ok pl ?d1" using e(3) that len w n(1) by (intro tail_ok_overwrite) simp_all
        qed (use that len n(1) in simp)
      qed (use ij len n ys in simp_all)
    qed (use len n in simp)
  qed (use ij le n in simp_all)
qed

lemma run_insert:
  assumes h: "roomy t R xs (length ys) s s1" and idx: "idx \<le> length xs"
    and ys: "valid_utf8 (take idx xs @ ys @ drop idx xs)"
  shows "wp (bind (as_mut_ptr t) (\<lambda>data.
      bind (place_copy t data idx (idx + length ys) (length xs - idx)) (\<lambda>_.
      bind (place_write t data idx ys) (\<lambda>_.
      bind (usize_add t (length xs) (length ys)) (\<lambda>new_len.
      set_len t new_len)))))
    (\<lambda>_ s'. edited t R (take idx xs @ ys @ drop idx xs) s s') E P s1"
proof -
  from h obtain c where r: "holds t R xs s1" "modifiable R (self s1)" "later s s1"
    "has_capacity t s1 c" "length xs + length ys \<le> c" by (auto simp: roomy_def)
  have usize: "length xs + length ys \<le> USIZE_MAX t"
    using has_capacity_usize [OF r(1,4)] r(5) by simp
  show ?thesis
  proof (simp only: wp_bind wp_usize_add [OF usize], rule holds_as_mut_ptr [OF r(1,2,4)])
    fix pl d
    assume e: "editing t R pl d s1" "length d = c" "take (length xs) d = map Some xs" "tail_ok pl d"
    show "wp (place_copy t pl idx (idx + length ys) (length xs - idx))
      (\<lambda>_. wp (place_write t pl idx ys)
        (\<lambda>_. wp (set_len t (length xs + length ys))
          (\<lambda>_. edited t R (take idx xs @ ys @ drop idx xs) s) E P) E P) E P s1"
      by (rule run_replace [OF e(1,3,4) r(3) _ idx]) (use idx e(2) r(5) ys in simp_all)
  qed
qed

section \<open>Appending\<close>

lemma append_data:
  assumes "take (length xs) d = map Some xs" "length xs + length ys \<le> length d"
  shows "take (length xs + length ys) (overwrite d (length xs) (map Some ys)) = map Some (xs @ ys)"
  using assms by (simp add: overwrite_def)

lemma run_append:
  assumes h: "roomy t R xs (length ys) s s1" and ys: "valid_utf8 (xs @ ys)"
  shows "wp (bind (as_mut_ptr t) (\<lambda>data.
      bind (place_write t data (length xs) ys) (\<lambda>_.
      bind (usize_add t (length xs) (length ys)) (\<lambda>new_len.
      set_len t new_len))))
    (\<lambda>_ s'. edited t R (xs @ ys) s s') E P s1"
proof -
  from h obtain c where r: "holds t R xs s1" "modifiable R (self s1)" "later s s1"
    "has_capacity t s1 c" "length xs + length ys \<le> c" by (auto simp: roomy_def)
  have usize: "length xs + length ys \<le> USIZE_MAX t"
    using has_capacity_usize [OF r(1,4)] r(5) by simp
  show ?thesis
  proof (simp only: wp_bind, rule holds_as_mut_ptr [OF r(1,2,4)])
    fix pl d
    assume e: "editing t R pl d s1" "length d = c" "take (length xs) d = map Some xs" "tail_ok pl d"
    let ?d = "overwrite d (length xs) (map Some ys)"
    show "wp (place_write t pl (length xs) ys)
        (\<lambda>_. wp (usize_add t (length xs) (length ys))
          (\<lambda>n. wp (set_len t n) (\<lambda>_. edited t R (xs @ ys) s) E P) E P) E P s1"
    proof (rule editing_write [OF e(1)])
      fix s2 assume e2: "editing t R pl ?d s2" "later s1 s2"
      have "wp (set_len t (length xs + length ys)) (\<lambda>_. edited t R (xs @ ys) s) E P s2"
      proof (rule finish_edit [OF e2(1)])
        show "later s s2" using r(3) e2(2) by (rule later_trans)
        show "take (length xs + length ys) ?d = map Some (xs @ ys)"
          using e(2,3) r(5) by (intro append_data) simp_all
        show "tail_ok pl ?d" if "length xs + length ys < length ?d"
          using that e r(5) by (intro tail_ok_overwrite) simp_all
      qed (use e(2) r(5) ys in simp_all)
      with usize show "wp (usize_add t (length xs) (length ys))
          (\<lambda>n. wp (set_len t n) (\<lambda>_. edited t R (xs @ ys) s) E P) E P s2"
        by simp
    qed (use e(2) r(5) in simp_all)
  qed
qed

lemma holds_push_str:
  assumes h: "holds t R xs s" and ys: "valid_utf8 ys"
  shows "wp (push_str t ys) (\<lambda>_ s'. edited t R (xs @ ys) s s')
    (\<lambda>s'. rejected t R xs (amortized t (length xs) (length ys)) s s') P s"
proof (cases "ys = []")
  case True
  with h show ?thesis by (simp add: push_str_def edited_refl)
next
  case False
  have v: "valid_utf8 (xs @ ys)" using holds_valid [OF h] ys by simp
  from make_room [OF h run_append [OF _ v, where E = "\<lambda>s'. rejected t R xs (amortized t (length xs) (length ys)) s s'"]]
  show ?thesis using False by (simp add: push_str_def holds_repr_len [OF h] Let_def)
qed

lemma holds_push_char:
  assumes h: "holds t R xs s" and c: "scalar c"
  shows "wp (push_char t c) (\<lambda>_ s'. edited t R (xs @ encode_utf8 c) s s')
    (\<lambda>s'. rejected t R xs (amortized t (length xs) (len_utf8 c)) s s') P s"
proof -
  have v: "valid_utf8 (xs @ encode_utf8 c)" using holds_valid [OF h] c by simp
  from make_room [OF h run_append [OF _ v, where E = "\<lambda>s'. rejected t R xs (amortized t (length xs) (len_utf8 c)) s s'"]]
  show ?thesis by (simp add: push_char_def holds_repr_len [OF h] Let_def write_char_eq)
qed

section \<open>Inserting\<close>

lemma valid_utf8_insert:
  assumes "valid_utf8 xs" "is_char_boundary xs idx" "valid_utf8 ys"
  shows "valid_utf8 (take idx xs @ ys @ drop idx xs)"
  using assms valid_utf8_take valid_utf8_drop by blast

lemma holds_insert_str:
  assumes h: "holds t R xs s" and ys: "valid_utf8 ys"
  shows "wp (insert_str t idx ys)
    (\<lambda>_ s'. is_char_boundary xs idx \<and> edited t R (take idx xs @ ys @ drop idx xs) s s')
    (\<lambda>s'. rejected t R xs (amortized t (length xs) (length ys)) s s')
    (\<lambda>s'. \<not> is_char_boundary xs idx \<and> s' = s) s"
proof (cases "is_char_boundary xs idx")
  case False
  then show ?thesis by (simp add: insert_str_def holds_as_str [OF h])
next
  case b: True
  have idx: "idx \<le> length xs" using b by (rule is_char_boundary_le)
  show ?thesis
  proof (cases "ys = []")
    case True
    with h b show ?thesis by (simp add: insert_str_def holds_as_str [OF h] edited_refl)
  next
    case False
    have v: "valid_utf8 (take idx xs @ ys @ drop idx xs)"
      using holds_valid [OF h] b ys by (rule valid_utf8_insert)
    from make_room [OF h run_insert [OF _ idx v, where
        E = "\<lambda>s'. rejected t R xs (amortized t (length xs) (length ys)) s s'"]] b
    show ?thesis using False
      by (simp add: insert_str_def holds_repr_len [OF h] holds_as_str [OF h] Let_def)
  qed
qed

lemma holds_insert_char:
  assumes h: "holds t R xs s" and c: "scalar c"
  shows "wp (insert_char t idx c)
    (\<lambda>_ s'. is_char_boundary xs idx \<and> edited t R (take idx xs @ encode_utf8 c @ drop idx xs) s s')
    (\<lambda>s'. rejected t R xs (amortized t (length xs) (len_utf8 c)) s s')
    (\<lambda>s'. \<not> is_char_boundary xs idx \<and> s' = s) s"
proof (cases "is_char_boundary xs idx")
  case False
  then show ?thesis by (simp add: insert_char_def holds_as_str [OF h])
next
  case b: True
  have idx: "idx \<le> length xs" using b by (rule is_char_boundary_le)
  have v: "valid_utf8 (take idx xs @ encode_utf8 c @ drop idx xs)"
    using holds_valid [OF h] b c by (intro valid_utf8_insert) simp_all
  from make_room [OF h run_insert [OF _ idx v, where
      E = "\<lambda>s'. rejected t R xs (amortized t (length xs) (len_utf8 c)) s s'"]] b
  show ?thesis
    by (simp add: insert_char_def holds_repr_len [OF h] holds_as_str [OF h] Let_def write_char_eq)
qed

section \<open>Ranges\<close>

definition range_start :: "target \<Rightarrow> bound \<times> bound \<Rightarrow> nat" where
  "range_start t rng = (case fst rng of
     Included n \<Rightarrow> n | Excluded n \<Rightarrow> saturating_add t n 1 | Unbounded \<Rightarrow> 0)"

definition range_end :: "target \<Rightarrow> nat \<Rightarrow> bound \<times> bound \<Rightarrow> nat" where
  "range_end t len rng = (case snd rng of
     Included n \<Rightarrow> saturating_add t n 1 | Excluded n \<Rightarrow> n | Unbounded \<Rightarrow> len)"

definition range_ok :: "target \<Rightarrow> byte list \<Rightarrow> bound \<times> bound \<Rightarrow> bool" where
  "range_ok t xs rng \<longleftrightarrow>
    is_char_boundary xs (range_start t rng) \<and> is_char_boundary xs (range_end t (length xs) rng) \<and>
    range_start t rng \<le> range_end t (length xs) rng"

lemma wp_slice_range:
  "wp (slice_range t xs rng) Q E P s =
    (if range_ok t xs rng then Q (range_start t rng, range_end t (length xs) rng) s else P s)"
  by (simp add: slice_range_def Let_def range_ok_def range_start_def range_end_def)

lemma wp_case_prod [simp]: "wp (case p of (a, b) \<Rightarrow> f a b) Q E P s = wp (f (fst p) (snd p)) Q E P s"
  by (simp add: case_prod_beta)

text \<open>\<open>extend_from_within\<close> appends a copy of a range of the text itself.\<close>

lemma run_extend:
  assumes h: "roomy t R xs n s s1" and r1: "start + n \<le> length xs"
    and ys: "valid_utf8 (xs @ window xs start n)"
  shows "wp (bind (as_mut_ptr t) (\<lambda>data.
      bind (place_copy_nonoverlapping t data start (length xs) n) (\<lambda>_.
      bind (usize_add t (length xs) n) (\<lambda>new_len.
      set_len t new_len))))
    (\<lambda>_ s'. edited t R (xs @ window xs start n) s s') E P s1"
proof -
  from h obtain c where r: "holds t R xs s1" "modifiable R (self s1)" "later s s1"
    "has_capacity t s1 c" "length xs + n \<le> c" by (auto simp: roomy_def)
  have usize: "length xs + n \<le> USIZE_MAX t"
    using has_capacity_usize [OF r(1,4)] r(5) by simp
  let ?ys = "window xs start n"
  show ?thesis
  proof (simp only: wp_bind, rule holds_as_mut_ptr [OF r(1,2,4)])
    fix pl d
    assume e: "editing t R pl d s1" "length d = c" "take (length xs) d = map Some xs" "tail_ok pl d"
    have "window d start n = window (take (length xs) d) start n"
      using r1 by (simp add: window_def drop_take min_absorb1)
    then have w: "window d start n = map Some ?ys" by (simp add: e(3) window_map)
    let ?d = "overwrite d (length xs) (map Some ?ys)"
    have "wp (place_copy t pl start (length xs) n)
        (\<lambda>_. wp (usize_add t (length xs) n)
          (\<lambda>n. wp (set_len t n) (\<lambda>_. edited t R (xs @ ?ys) s) E P) E P) E P s1"
    proof (rule editing_copy [OF e(1)])
      fix s2 assume "editing t R pl (overwrite d (length xs) (window d start n)) s2" "later s1 s2"
      then have e2: "editing t R pl ?d s2" "later s1 s2" by (simp_all add: w)
      have "wp (set_len t (length xs + n)) (\<lambda>_. edited t R (xs @ ?ys) s) E P s2"
      proof (rule finish_edit [OF e2(1)])
        show "later s s2" using r(3) e2(2) by (rule later_trans)
        show "take (length xs + n) ?d = map Some (xs @ ?ys)"
          using e(2,3) r(5) r1 append_data [of xs d ?ys] by simp
        show "tail_ok pl ?d" if "length xs + n < length ?d"
          using that e r(5) r1 by (intro tail_ok_overwrite) simp_all
      qed (use e(2) r(5) r1 ys in simp_all)
      with usize show "wp (usize_add t (length xs) n)
          (\<lambda>n. wp (set_len t n) (\<lambda>_. edited t R (xs @ ?ys) s) E P) E P s2"
        by simp
    qed (use e(2) r(5) r1 in simp_all)
    then show "wp (place_copy_nonoverlapping t pl start (length xs) n)
        (\<lambda>_. wp (usize_add t (length xs) n)
          (\<lambda>n. wp (set_len t n) (\<lambda>_. edited t R (xs @ ?ys) s) E P) E P) E P s1"
      using r1 by (simp add: place_copy_nonoverlapping_def)
  qed
qed

lemma valid_utf8_window:
  "valid_utf8 xs \<Longrightarrow> is_char_boundary xs i \<Longrightarrow> is_char_boundary xs j \<Longrightarrow> i \<le> j \<Longrightarrow>
    valid_utf8 (window xs i (j - i))"
  using valid_utf8_between [of xs i j] by (simp add: window_def)

lemma holds_extend_from_within:
  fixes rng :: "bound \<times> bound"
  assumes h: "holds t R xs s"
  defines "i \<equiv> range_start t rng" and "n \<equiv> range_end t (length xs) rng - range_start t rng"
  shows "wp (extend_from_within t rng)
    (\<lambda>_ s'. range_ok t xs rng \<and> edited t R (xs @ window xs i n) s s')
    (\<lambda>s'. rejected t R xs (amortized t (length xs) n) s s')
    (\<lambda>s'. \<not> range_ok t xs rng \<and> s' = s) s"
proof (cases "range_ok t xs rng")
  case False
  then show ?thesis by (simp add: extend_from_within_def holds_as_str [OF h] wp_slice_range)
next
  case True
  then have b: "is_char_boundary xs i" "is_char_boundary xs (range_end t (length xs) rng)"
    "i \<le> range_end t (length xs) rng" by (simp_all add: range_ok_def i_def)
  have j: "range_end t (length xs) rng = i + n" using b(3) by (simp add: n_def i_def)
  have le: "i + n \<le> length xs" using is_char_boundary_le [OF b(2)] j by simp
  have v: "valid_utf8 (xs @ window xs i n)"
    using holds_valid [OF h] valid_utf8_window [OF _ b] j by simp
  show ?thesis
  proof (cases "n = 0")
    case z: True
    have "window xs i n = []" using z by (simp add: window_def)
    with True z show ?thesis
      by (simp add: extend_from_within_def holds_repr_len [OF h] holds_as_str [OF h] wp_slice_range
          i_def [symmetric] j edited_refl [OF h])
  next
    case False
    have "wp (bind (must_grow t n) (\<lambda>g. bind (if g then grow_amortized t n else ret ()) (\<lambda>_.
        bind (as_mut_ptr t) (\<lambda>data.
        bind (place_copy_nonoverlapping t data i (length xs) n) (\<lambda>_.
        bind (usize_add t (length xs) n) (\<lambda>new_len.
        set_len t new_len))))))
      (\<lambda>_ s'. edited t R (xs @ window xs i n) s s')
      (\<lambda>s'. rejected t R xs (amortized t (length xs) n) s s') (\<lambda>_. False) s"
      by (rule make_room [OF h run_extend [OF _ le v]])
    with True False
    show ?thesis
      by (simp add: extend_from_within_def holds_repr_len [OF h] holds_as_str [OF h] wp_slice_range
          i_def [symmetric] j cong: if_cong split del: if_split)
  qed
qed

end
