(* ===== verification/ReprRemove.thy ===== *)
theory ReprRemove
  imports ReprAppend
begin

text \<open>
  The methods that take text away: \<open>truncate\<close>, \<open>pop\<close>, \<open>clear\<close>, \<open>remove\<close>, \<open>shrink_to\<close> and
  \<open>replace_range\<close>. A shared or static value is copied only where bytes have to move.
\<close>

section \<open>Owners that change in place\<close>

lemma owns_same_block:
  assumes o: "owns t H (add_mset (h, r, xs) R)" and b: "block_of r' = block_of r"
    and d: "denotes t H h r' ys"
  shows "owns t H (add_mset (h, r', ys) R)"
proof (rule ownsI)
  fix h' q zs assume "(h', q, zs) \<in># add_mset (h, r', ys) R"
  then show "denotes t H h' q zs" using d owns_denotes [OF o] by auto
next
  fix c v assume "H c = Some v"
  from owns_count_ok [OF o this] show "count_ok t (handles (add_mset (h, r', ys) R) c) v"
    by (simp add: b)
qed

section \<open>Truncating\<close>

lemma take_shorter: "take m ys = zs \<Longrightarrow> n \<le> m \<Longrightarrow> take n ys = take n zs"
  by (auto simp: min_absorb1)

lemma holds_shared_prefix:
  assumes h: "holds t R xs s" and r: "self s = repr_of_heap t hb"
    and L: "heap_rep t H s" "H b = Some v" "owns t H (add_mset (Mutable, self s, xs) R)"
    and B: "buf_holds t Mutable hb b v xs" and n: "n \<le> length xs" "n \<le> MAX_LEN t" "valid_utf8 (take n xs)"
  shows "holds t R (take n xs) (s\<lparr>self := repr_of_heap t (hb\<lparr>hlen := text_len t n\<rparr>)\<rparr>)"
proof -
  let ?hb = "hb\<lparr>hlen := text_len t n\<rparr>"
  have "take (length xs) (vdata v) = map Some xs" using B unfolding buf_holds_def by blast
  from take_shorter [OF this n(1)] have "take n (vdata v) = map Some (take n xs)" by (simp add: take_map)
  then have "buf_holds t Mutable ?hb b v (take n xs)"
    using B n by (simp add: buf_holds_def min_absorb1)
  moreover from this have "block_of (repr_of_heap t ?hb) = block_of (self s)"
    using B r by (simp add: buf_holds_block)
  moreover have "denotes t H Mutable (repr_of_heap t ?hb) (take n xs)"
    using calculation(1) L(2) n(3) by (intro denotes_heap)
  ultimately have "owns t H (add_mset (Mutable, repr_of_heap t ?hb, take n xs) R)"
    using owns_same_block [OF L(3)] by simp
  with L(1) show ?thesis unfolding holds_def sound_def by auto
qed

lemma shared_copy:
  assumes h: "holds t R xs s" and v: "valid_utf8 ys"
  shows "wp (from_str t Mutable ys)
    (\<lambda>r s1. wp (drop_in t Mutable (self s)) (\<lambda>_ s'. edited t R ys s (s'\<lparr>self := r\<rparr>)) E P s1)
    (rejected t R xs (length ys) s) P s"
proof -
  have snd: "sound t (add_mset (Mutable, self s, xs) R) s" using h by (simp add: holds_def)
  show ?thesis
  proof (rule wp_mono [OF sound_from_str [OF snd v, where h = Mutable]])
    fix r s1
    assume s1: "sound t (add_mset (Mutable, r, ys) (add_mset (Mutable, self s, xs) R)) s1 \<and>
      mem_only s s1 \<and> modifiable (add_mset (Mutable, self s, xs) R) r"
    then have "sound t (add_mset (Mutable, self s, xs) (add_mset (Mutable, r, ys) R)) s1"
      by (simp add: sound_commute)
    from sound_drop_in [OF this]
    show "wp (drop_in t Mutable (self s)) (\<lambda>_ s'. edited t R ys s (s'\<lparr>self := r\<rparr>)) E P s1"
      by (rule wp_mono) (use s1 in \<open>auto simp: edited_def holds_def intro: later_trans mem_only_later\<close>)
  qed (use h in \<open>auto simp: rejected_def holds_def mem_only_def later_def\<close>)
qed

lemma holds_truncate_unchecked:
  assumes h: "holds t R xs s" and b: "is_char_boundary xs n"
  shows "wp (truncate_unchecked t n) (\<lambda>_ s'. edited t R (take n xs) s s')
    (\<lambda>s'. rejected t R xs n s s' \<and> MAX_LEN t < length xs \<and> \<not> modifiable R (self s)) P s"
proof -
  have n: "n \<le> length xs" using b by (rule is_char_boundary_le)
  have v: "valid_utf8 (take n xs)" using holds_valid [OF h] b by (rule valid_utf8_take)
  note start = truncate_unchecked_def debug_assert_run_def holds_repr_len [OF h] holds_as_str [OF h] b n
  from h show ?thesis
  proof (cases rule: holds_cases)
    case (inline B)
    have B: "length B = MAX_INLINE_SIZE t" "take (length (take n xs)) B = take n xs"
      using inline(2) take_shorter [of "length xs" B xs, OF _ n] n by (auto simp: inline_holds_def min_absorb1)
    have "wp (inline_set_len t B n)
      (\<lambda>B s'. edited t R (take n xs) s (s'\<lparr>self := repr_of_inline t B\<rparr>)) E P s" for E
      using inline_set_len_holds [OF B, where E = E and P = P and s = s] inline(4) v n
      by (auto simp: edited_def min_absorb1 elim!: wp_mono intro: holds_inline)
    with inline show ?thesis by (simp add: start start [unfolded inline(1)] set_self_def)
  next
    case (static sb)
    let ?sb = "sb\<lparr>slen := static_text_len t n\<rparr>"
    have "static_holds t ?sb (take n xs)" using static(2) n by (rule static_holds_set_len)
    with static(4) v have "edited t R (take n xs) s (s\<lparr>self := repr_of_static t ?sb\<rparr>)"
      by (auto simp: edited_def holds_def static_holds_block intro!: sound_add_plain denotes_static)
    with static n show ?thesis
      by (simp add: start start [unfolded static(1)] static_set_len_eq [OF static(2)] set_self_def static_holds_word)
  next
    case (heap H hb b v)
    have ok: "view_ok t v" using heap_rep_ok [OF heap(4,5)] .
    have cap: "n \<le> vcap v" using n buf_holds_le_cap [OF heap(2) ok] by simp
    have long: "heap_is_len_on_heap t hb \<longleftrightarrow> MAX_LEN t < length xs"
      using TextLen_is_heap_buf [OF heap(2) ok] by (simp add: heap_is_len_on_heap_def)
    have one: "vcount v = 1 \<longleftrightarrow> modifiable R (self s)"
      using owns_count(1) [OF heap(6,5)] heap(1,2,8) by (auto simp: modifiable_def alone_def buf_holds_def)
    have data: "take n (vdata v) = map Some (take n xs)"
      using heap(2) take_shorter [of "length xs" "vdata v", OF _ n] by (simp add: buf_holds_def take_map)
    note run = start start [unfolded heap(1)] heap(1,3) long set_self_def wp_heap_set_len [OF heap(7) cap]
    show ?thesis
    proof (cases "modifiable R (self s)")
      case True
      have "edited t R (take n xs) s ((put_view t b (with_len t n v) s)
          \<lparr>self := repr_of_heap t (hb\<lparr>hlen := text_len t n\<rparr>)\<rparr>)"
        using holds_set_len_unique [OF heap(4,5,7) _ owns_take [OF heap(6,8,5)], of "take n xs"]
          True one data v n cap by (simp add: edited_def min_absorb1)
      with True one show ?thesis
        by (simp add: run wp_heap_is_unique [OF heap(7)])
    next
      case shared: False
      show ?thesis
      proof (cases "MAX_LEN t < length xs")
        case False
        with n have short: "n \<le> MAX_LEN t" by simp
        then have "put_view t b (with_len t n v) s = s"
          using heap(7) by (simp add: with_len_def put_view_same live_def)
        moreover have "edited t R (take n xs) s (s\<lparr>self := repr_of_heap t (hb\<lparr>hlen := text_len t n\<rparr>)\<rparr>)"
          using holds_shared_prefix [OF h heap(1,4,5,6,2) n short v] by (simp add: edited_def)
        ultimately show ?thesis using False short by (simp add: run)
      next
        case True
        have drop: "release t Mutable hb = drop_in t Mutable (repr_of_heap t hb)"
          using heap(3) by (simp add: drop_in_def)
        have "wp (from_str t Mutable (take n xs))
          (\<lambda>r s1. wp (drop_in t Mutable (self s))
            (\<lambda>_ s'. edited t R (take n xs) s (s'\<lparr>self := r\<rparr>)) (rejected t R xs n s) P s1)
          (rejected t R xs n s) P s"
          using shared_copy [OF h v] n by (simp add: min_absorb1)
        with True shared one n show ?thesis
          by (simp add: run wp_heap_is_unique [OF heap(7)] wp_heap_read [OF heap(7,2)] v drop)
      qed
    qed
  qed
qed


lemma holds_truncate:
  assumes h: "holds t R xs s"
  shows "wp (truncate t n)
    (\<lambda>_ s'. if length xs \<le> n then s' = s else is_char_boundary xs n \<and> edited t R (take n xs) s s')
    (\<lambda>s'. rejected t R xs n s s' \<and> n < length xs \<and> MAX_LEN t < length xs \<and> \<not> modifiable R (self s))
    (\<lambda>s'. n < length xs \<and> \<not> is_char_boundary xs n \<and> s' = s) s"
proof (cases "length xs \<le> n \<or> \<not> is_char_boundary xs n")
  case True
  then show ?thesis by (auto simp: truncate_def holds_repr_len [OF h] holds_as_str [OF h])
next
  case False
  then have "wp (truncate_unchecked t n)
    (\<lambda>_ s'. if length xs \<le> n then s' = s else is_char_boundary xs n \<and> edited t R (take n xs) s s')
    (\<lambda>s'. rejected t R xs n s s' \<and> n < length xs \<and> MAX_LEN t < length xs \<and> \<not> modifiable R (self s))
    (\<lambda>s'. n < length xs \<and> \<not> is_char_boundary xs n \<and> s' = s) s"
    by (intro wp_mono [OF holds_truncate_unchecked [OF h]]) simp_all
  with False show ?thesis by (simp add: truncate_def holds_repr_len [OF h] holds_as_str [OF h])
qed

text \<open>\<open>pop\<close> takes the last character off.\<close>

lemma holds_pop:
  assumes h: "holds t R xs s"
  shows "wp (pop t)
    (\<lambda>r s'. if xs = [] then r = None \<and> s' = s
      else r = Some (last (chars xs)) \<and> edited t R (str_of (butlast (chars xs))) s s')
    (\<lambda>s'. rejected t R xs (length (str_of (butlast (chars xs)))) s s' \<and> \<not> modifiable R (self s)) P s"
proof (cases "xs = []")
  case True
  with h show ?thesis by (simp add: pop_def holds_as_str [OF h])
next
  case False
  with holds_valid [OF h] obtain ys c where ys: "valid_utf8 ys" "scalar c" "xs = ys @ encode_utf8 c"
    "next_back xs = Some c" "chars xs = chars ys @ [c]" by (rule valid_utf8_lastE)
  have "is_char_boundary xs (length ys)" using ys by (intro boundary_of_split) simp_all
  note cut = holds_truncate_unchecked [OF h this]
  have "wp (truncate_unchecked t (length ys))
    (\<lambda>_ s'. if xs = [] then Some c = None \<and> s' = s
      else Some c = Some (last (chars xs)) \<and> edited t R (str_of (butlast (chars xs))) s s')
    (\<lambda>s'. rejected t R xs (length (str_of (butlast (chars xs)))) s s' \<and> \<not> modifiable R (self s)) P s"
    by (rule wp_mono [OF cut]) (use False ys in simp_all)
  with ys show ?thesis by (simp add: pop_def holds_as_str [OF h] holds_repr_len [OF h])
qed

text \<open>\<open>clear\<close> never allocates: a shared buffer is given back and replaced by the empty inline
  string, every other value is shortened in place.\<close>

lemma wp_witness: "wp m Q (\<lambda>_. False) (\<lambda>_. False) s \<Longrightarrow> \<exists>x s'. Q x s'"
  by (auto simp: wp_def split: outcome.splits)

lemma holds_editing:
  assumes h: "holds t R xs s" and m: "modifiable R (self s)" and c: "has_capacity t s c"
  shows "\<exists>pl d. editing t R pl d s \<and> length d = c \<and> take (length xs) d = map Some xs \<and> tail_ok pl d"
proof -
  have "wp (as_mut_ptr t)
    (\<lambda>pl s'. \<exists>d. editing t R pl d s \<and> length d = c \<and> take (length xs) d = map Some xs \<and> tail_ok pl d)
    (\<lambda>_. False) (\<lambda>_. False) s"
    by (rule holds_as_mut_ptr [OF h m c]) blast
  from wp_witness [OF this] show ?thesis by blast
qed

lemma holds_set_len_0:
  assumes h: "holds t R xs s" and m: "modifiable R (self s)"
  shows "wp (set_len t 0) (\<lambda>_ s'. edited t R [] s s') E P s"
proof -
  obtain c where c: "has_capacity t s c" using h by (rule holds_capacityE)
  from holds_editing [OF h m c] obtain pl d where e: "editing t R pl d s" "tail_ok pl d" by blast
  from finish_edit [OF this(1), of s 0 "[]"] this(2) show ?thesis by simp
qed

lemma holds_clear:
  assumes h: "holds t R xs s"
  shows "wp (clear t) (\<lambda>_ s'. edited t R [] s s') E P s"
proof -
  note start = clear_def holds_is_static_buffer [OF h] holds_is_unique [OF h]
  show ?thesis
  proof (cases "static_repr (self s)")
    case True
    from h show ?thesis
    proof (cases rule: holds_cases)
      case (static sb)
      have "static_holds t (sb\<lparr>slen := static_text_len t 0\<rparr>) []"
        using static_holds_set_len [OF static(2), of 0] by simp
      with static(4) have "edited t R [] s (s\<lparr>self := repr_of_static t (sb\<lparr>slen := static_text_len t 0\<rparr>)\<rparr>)"
        by (auto simp: edited_def holds_def static_holds_block intro!: sound_add_plain denotes_static)
      with static show ?thesis
        by (simp add: start start [unfolded static(1)] True [unfolded static(1)] set_self_def
            static_set_len_eq [OF static(2)] static_holds_word)
    qed (use True in \<open>auto simp: buf_holds_def\<close>)
  next
    case plain: False
    show ?thesis
    proof (cases "alone R (self s)")
      case True
      with plain have "modifiable R (self s)" by (simp add: modifiable_def)
      with holds_set_len_0 [OF h] plain True show ?thesis by (simp add: start)
    next
      case False
      let ?r = "repr_of_inline t (inline_bytes t [])"
      have "sound t (add_mset (Mutable, ?r, []) (add_mset (Mutable, self s, xs) R)) s"
        using h unfolding holds_def by (intro sound_add_inline inline_holds_inline_bytes) simp_all
      from holds_replace_inner [OF this]
      have "wp (replace_inner t Mutable ?r) (\<lambda>_ s'. edited t R [] s s') E P s"
        by (rule wp_mono) (auto simp: edited_def)
      with plain False show ?thesis by (simp add: start repr_new_eq inline_empty_eq)
    qed
  qed
qed

section \<open>Removing one character\<close>

lemma first_char_encode:
  "scalar c \<Longrightarrow> valid_utf8 xs \<Longrightarrow> xs = encode_utf8 c @ ys \<Longrightarrow> wp (first_char xs) Q E P s = Q c s"
  by (simp add: first_char_def)

text \<open>Closing the gap of \<open>n\<close> bytes at \<open>idx\<close>.\<close>

lemma delete_data:
  assumes "take (length xs) d = map Some xs" "idx + n \<le> length xs"
  shows "take (length xs - n) (overwrite d idx (window d (idx + n) (length xs - idx - n))) =
    map Some (take idx xs @ drop (idx + n) xs)"
proof -
  obtain rest where d: "d = map Some xs @ rest" using assms(1) by (metis append_take_drop_id)
  have w: "window d (idx + n) (length xs - (idx + n)) = map Some (drop (idx + n) xs)"
    using assms(2) by (simp add: d window_def drop_map)
  have "take idx d = map Some (take idx xs)" using assms(2) by (simp add: d take_map)
  then show ?thesis using assms(2) by (simp add: w overwrite_def take_map drop_map)
qed

lemma run_delete:
  assumes e: "editing t R pl d s1" "take (length xs) d = map Some xs" "tail_ok pl d" "later s s1"
    and n: "0 < n" "idx + n \<le> length xs" and ys: "valid_utf8 (take idx xs @ drop (idx + n) xs)"
  shows "wp (place_copy t pl (idx + n) idx (length xs - idx - n))
    (\<lambda>_. wp (set_len t (length xs - n)) (\<lambda>_. edited t R (take idx xs @ drop (idx + n) xs) s) E P) E P s1"
proof -
  have len: "length xs \<le> length d" using e(2) by (metis length_map length_take min.cobounded1)
  let ?w = "window d (idx + n) (length xs - idx - n)"
  have w: "length ?w = length xs - idx - n" using len n(2) by simp
  show ?thesis
  proof (rule editing_copy [OF e(1)])
    fix s2 assume e2: "editing t R pl (overwrite d idx ?w) s2" "later s1 s2"
    show "wp (set_len t (length xs - n)) (\<lambda>_. edited t R (take idx xs @ drop (idx + n) xs) s) E P s2"
    proof (rule finish_edit [OF e2(1)])
      show "later s s2" using e(4) e2(2) by (rule later_trans)
      show "tail_ok pl (overwrite d idx ?w)" if "length xs - n < length (overwrite d idx ?w)"
        using e(3) len n w by (intro tail_ok_overwrite) simp_all
    qed (use delete_data [OF e(2) n(2)] w len n ys in simp_all)
  qed (use len n in simp_all)
qed

lemma valid_utf8_firstE:
  assumes "valid_utf8 xs" "xs \<noteq> []"
  obtains c ys where "scalar c" "valid_utf8 ys" "xs = encode_utf8 c @ ys" "chars xs = c # chars ys"
proof -
  from assms(1) obtain cs where cs: "\<forall>c \<in> set cs. scalar c" "xs = str_of cs" by (rule valid_utf8E)
  with assms(2) obtain c ds where "cs = c # ds" by (cases cs) auto
  with cs show ?thesis by (intro that [of c "str_of ds"]) simp_all
qed

lemma holds_remove:
  assumes h: "holds t R xs s"
  defines "in_text \<equiv> \<lambda>i. is_char_boundary xs i \<and> i < length xs"
  shows "wp (remove t idx)
    (\<lambda>c s'. in_text idx \<and> c = hd (chars (drop idx xs)) \<and>
      edited t R (take idx xs @ str_of (tl (chars (drop idx xs)))) s s')
    (\<lambda>s'. rejected t R xs (length xs) s s') (\<lambda>s'. \<not> in_text idx \<and> s' = s) s"
proof (cases "in_text idx")
  case False
  then show ?thesis
    by (auto simp: remove_def holds_as_str [OF h] holds_repr_len [OF h] in_text_def)
next
  case True
  then have b: "is_char_boundary xs idx" "idx < length xs" by (simp_all add: in_text_def)
  have "valid_utf8 (drop idx xs)" "drop idx xs \<noteq> []"
    using valid_utf8_drop [OF holds_valid [OF h] b(1)] b(2) by simp_all
  then obtain c ys where c: "scalar c" "valid_utf8 ys" "drop idx xs = encode_utf8 c @ ys"
    "chars (drop idx xs) = c # chars ys" by (rule valid_utf8_firstE)
  let ?n = "len_utf8 c"
  have ys: "drop (idx + ?n) xs = ys" using c(3) by (metis add.commute append_eq_conv_conj drop_drop length_encode_utf8)
  have n: "idx + ?n \<le> length xs" using arg_cong [OF c(3), of length] b(2) by simp
  have v: "valid_utf8 (take idx xs @ drop (idx + ?n) xs)"
    using valid_utf8_take [OF holds_valid [OF h] b(1)] c(2) ys by simp
  let ?Q = "\<lambda>ch s'. in_text idx \<and> ch = hd (chars (drop idx xs)) \<and>
      edited t R (take idx xs @ str_of (tl (chars (drop idx xs)))) s s'"
  let ?E = "\<lambda>s'. rejected t R xs (length xs) s s'" and ?P = "\<lambda>s'. \<not> in_text idx \<and> s' = s"
  have "wp (as_mut_ptr t) (\<lambda>ptr. wp (place_read ptr idx (length xs - idx))
      (\<lambda>suffix. wp (first_char suffix) (\<lambda>ch.
        wp (place_copy t ptr (idx + len_utf8 ch) idx (length xs - idx - len_utf8 ch)) (\<lambda>_.
        wp (set_len t (length xs - len_utf8 ch)) (\<lambda>_. ?Q ch) ?E ?P) ?E ?P) ?E ?P) ?E ?P) ?E ?P s1"
    if s1: "holds t R xs s1" "modifiable R (self s1)" "later s s1" for s1
  proof -
    obtain cap where cap: "has_capacity t s1 cap" "length xs \<le> cap" using s1(1) by (rule holds_capacityE)
    show ?thesis
    proof (rule holds_as_mut_ptr [OF s1(1,2) cap(1)])
      fix pl d
      assume e: "editing t R pl d s1" "length d = cap" "take (length xs) d = map Some xs" "tail_ok pl d"
      have "window d idx (length (drop idx xs)) = drop idx (take (length xs) d)"
        using b(2) by (simp add: window_def drop_take)
      then have w: "window d idx (length (drop idx xs)) = map Some (drop idx xs)"
        by (simp add: e(3) drop_map)
      have del: "wp (place_copy t pl (idx + ?n) idx (length xs - idx - ?n))
        (\<lambda>_. wp (set_len t (length xs - ?n)) (\<lambda>_. ?Q c) ?E ?P) ?E ?P s1"
        using run_delete [OF e(1,3,4) s1(3) len_utf8_pos n v, where E = ?E and P = ?P] True c ys by simp
      have "wp (first_char (drop idx xs)) (\<lambda>ch.
        wp (place_copy t pl (idx + len_utf8 ch) idx (length xs - idx - len_utf8 ch)) (\<lambda>_.
        wp (set_len t (length xs - len_utf8 ch)) (\<lambda>_. ?Q ch) ?E ?P) ?E ?P) ?E ?P s1"
        using del by (subst first_char_encode [OF c(1) _ c(3)]) (use c in simp_all)
      with editing_read [OF e(1) _ w] e(2) cap(2) b(2)
      show "wp (place_read pl idx (length xs - idx))
      (\<lambda>suffix. wp (first_char suffix) (\<lambda>ch.
        wp (place_copy t pl (idx + len_utf8 ch) idx (length xs - idx - len_utf8 ch)) (\<lambda>_.
        wp (set_len t (length xs - len_utf8 ch)) (\<lambda>_. ?Q ch) ?E ?P) ?E ?P) ?E ?P) ?E ?P s1"
        by simp
    qed
  qed
  then have "wp (ensure_modifiable t) (\<lambda>_. wp (as_mut_ptr t) (\<lambda>ptr. wp (place_read ptr idx (length xs - idx))
      (\<lambda>suffix. wp (first_char suffix) (\<lambda>ch.
        wp (place_copy t ptr (idx + len_utf8 ch) idx (length xs - idx - len_utf8 ch)) (\<lambda>_.
        wp (set_len t (length xs - len_utf8 ch)) (\<lambda>_. ?Q ch) ?E ?P) ?E ?P) ?E ?P) ?E ?P) ?E ?P) ?E ?P s"
    by (intro wp_mono [OF holds_ensure_modifiable [OF h]]) auto
  with b show ?thesis
    by (simp add: remove_def holds_as_str [OF h] holds_repr_len [OF h] Let_def)
qed

section \<open>Replacing a range\<close>

lemma replace_init_eq:
  assumes "i \<le> j" "j \<le> length xs" "length dst = i + length ys + (length xs - j)"
  shows "replace_init xs i j ys dst = ret (map Some (take i xs @ ys @ drop j xs))"
proof -
  have "overwrite (overwrite (overwrite dst 0 (map Some (take i xs))) i (map Some ys)) (i + length ys)
      (map Some (window xs j (length xs - j))) = map Some (take i xs @ ys @ drop j xs)"
    using assms by (simp add: overwrite_def window_def take_map)
  moreover have "i \<le> length dst" "i + length ys \<le> length dst" "i \<le> length xs"
    using assms by simp_all
  ultimately show ?thesis using assms(3) by (simp add: replace_init_def Let_def assert_unchecked_def)
qed

lemma replaced_length:
  "i \<le> j \<Longrightarrow> j \<le> length xs \<Longrightarrow> length (take i xs @ ys @ drop j xs) = i + length ys + (length xs - j)"
  by simp

text \<open>The capacity the method asks the allocator for.\<close>

definition replace_room :: "target \<Rightarrow> bool \<Rightarrow> nat \<Rightarrow> nat \<Rightarrow> nat \<Rightarrow> nat" where
  "replace_room t writable len removed added =
    (if writable then amortized t len (added - removed) else len - removed + added)"

lemma holds_replace_fresh:
  assumes h: "holds t R xs s" and v: "valid_utf8 zs"
    and init: "\<And>d. length d = length zs \<Longrightarrow> init d = ret (map Some zs)"
  shows "wp (new_with t Mutable (length zs) init)
    (\<lambda>r s1. wp (replace_inner t Mutable r) (\<lambda>_ s'. edited t R zs s s') E P s1)
    (rejected t R xs (length zs) s) P s"
proof -
  have snd: "sound t (add_mset (Mutable, self s, xs) R) s" using h by (simp add: holds_def)
  show ?thesis
  proof (rule wp_mono [OF sound_new_with [OF snd v init, where h = Mutable]])
    fix r s1
    assume s1: "sound t (add_mset (Mutable, r, zs) (add_mset (Mutable, self s, xs) R)) s1 \<and>
      mem_only s s1 \<and> modifiable (add_mset (Mutable, self s, xs) R) r"
    then have eq: "self s1 = self s" "later s s1" by (auto simp: mem_only_def later_def)
    with s1 have "sound t (add_mset (Mutable, r, zs) (add_mset (Mutable, self s1, xs) R)) s1" by simp
    from holds_replace_inner [OF this]
    show "wp (replace_inner t Mutable r) (\<lambda>_ s'. edited t R zs s s') E P s1"
      by (rule wp_mono) (use eq in \<open>auto simp: edited_def intro: later_trans\<close>)
  qed (use h in \<open>auto simp: rejected_def holds_def mem_only_def later_def\<close>)
qed

lemma holds_replace_in_place:
  assumes h: "holds t R xs s" and m: "modifiable R (self s)" and ij: "i \<le> j" "j \<le> length xs"
    and v: "valid_utf8 (take i xs @ ys @ drop j xs)" and n: "n = i + length ys + (length xs - j)"
    and k: "k = length ys - (j - i)" and c: "has_capacity t s c"
  shows "wp (if c - length xs < k then grow_amortized t k else ret ())
    (\<lambda>_. wp (as_mut_ptr t) (\<lambda>pl. wp (place_copy t pl j (i + length ys) (length xs - j))
      (\<lambda>_. wp (place_write t pl i ys)
        (\<lambda>_. wp (set_len t n) (\<lambda>_. edited t R (take i xs @ ys @ drop j xs) s)
          E P) E P) E P) E P)
    (rejected t R xs (amortized t (length xs) k) s) P s"
    (is "wp ?grow ?go ?E P s")
proof -
  have go: "?go () s1" if r: "roomy t R xs k s s1" for s1
  proof -
    from r obtain c where r: "holds t R xs s1" "modifiable R (self s1)" "later s s1"
      "has_capacity t s1 c" "length xs + k \<le> c" by (auto simp: roomy_def)
    show ?thesis
    proof (rule holds_as_mut_ptr [OF r(1,2,4)])
      fix pl d
      assume e: "editing t R pl d s1" "length d = c" "take (length xs) d = map Some xs" "tail_ok pl d"
      show "wp (place_copy t pl j (i + length ys) (length xs - j))
        (\<lambda>_. wp (place_write t pl i ys)
          (\<lambda>_. wp (set_len t n) (\<lambda>_. edited t R (take i xs @ ys @ drop j xs) s) E P) E P) E P s1"
        by (rule run_replace [OF e(1,3,4) r(3) ij n _ v]) (use n k e(2) r(5) ij in linarith)
    qed
  qed
  have "wp (grow_amortized t k) ?go ?E P s"
    by (rule wp_mono [OF holds_grow_amortized [OF h]])
      (use amortized_ge [of "length xs" k t] in \<open>auto intro!: go elim!: grown_roomy\<close>)
  moreover have "?go () s" if "\<not> c - length xs < k"
  proof -
    obtain c' where "has_capacity t s c'" "length xs \<le> c'" using h by (rule holds_capacityE)
    with c have "length xs \<le> c" using has_capacity_unique by blast
    with that show ?thesis by (intro go roomy_refl [OF h m c]) simp_all
  qed
  ultimately show ?thesis by simp
qed

lemma holds_replace_range:
  fixes rng :: "bound \<times> bound"
  assumes h: "holds t R xs s" and ys: "valid_utf8 ys" "length ys \<le> ISIZE_MAX t"
  defines "i \<equiv> range_start t rng" and "j \<equiv> range_end t (length xs) rng"
  shows "wp (replace_range t rng ys)
    (\<lambda>_ s'. range_ok t xs rng \<and> edited t R (take i xs @ ys @ drop j xs) s s')
    (rejected t R xs (replace_room t (modifiable R (self s)) (length xs) (j - i) (length ys)) s)
    (\<lambda>s'. \<not> range_ok t xs rng \<and> s' = s) s"
    (is "wp _ ?Q ?E ?P s")
proof (cases "range_ok t xs rng")
  case False
  then show ?thesis
    by (simp add: replace_range_def holds_repr_len [OF h] holds_as_str [OF h] wp_slice_range)
next
  case True
  then have b: "is_char_boundary xs i" "is_char_boundary xs j" "i \<le> j"
    by (simp_all add: range_ok_def i_def j_def)
  have j: "j \<le> length xs" using b(2) by (rule is_char_boundary_le)
  let ?zs = "take i xs @ ys @ drop j xs"
  define k where "k = length ys - (j - i)"
  have k: "saturating_sub (length ys) (j - i) = k" "j - i \<le> length xs"
    using j by (simp_all add: k_def saturating_sub_def)
  have v: "valid_utf8 ?zs"
    using valid_utf8_take [OF holds_valid [OF h] b(1)] valid_utf8_drop [OF holds_valid [OF h] b(2)] ys(1)
    by simp
  define n where "n = length xs + i - j + length ys"
  have n: "n = i + length ys + (length xs - j)" "n = length ?zs" using b(3) j by (simp_all add: n_def)
  have usize: "n \<le> USIZE_MAX t" "length xs - (j - i) = length xs + i - j"
    using holds_len [OF h] ys(2) ISIZE_MAX_USIZE_MAX [of t] b(3) by (simp_all add: n_def)
  obtain c where c: "has_capacity t s c" using h by (rule holds_capacityE)
  note start = replace_range_def holds_repr_len [OF h] holds_as_str [OF h] wp_slice_range True b(3) j
    i_def [symmetric] j_def [symmetric] holds_is_modifiable [OF h] wp_spare_capacity [OF h c]
    replace_room_def usize k k_def [symmetric] Let_def n_def [symmetric]
  show ?thesis
  proof (cases "j = i \<and> ys = []")
    case none: True
    with h True show ?thesis by (simp add: start edited_refl)
  next
    case False
    then have some: "\<not> (j \<le> i \<and> ys = [])" using b(3) by auto
    show ?thesis
    proof (cases "modifiable R (self s)")
      case m: True
      have "wp (if c - length xs < k then grow_amortized t k else ret ())
        (\<lambda>_. wp (as_mut_ptr t) (\<lambda>pl. wp (place_copy t pl j (i + length ys) (length xs - j))
          (\<lambda>_. wp (place_write t pl i ys)
            (\<lambda>_. wp (set_len t n) ?Q ?E ?P) ?E ?P) ?E ?P) ?E ?P) ?E ?P s"
        using holds_replace_in_place [OF h m b(3) j v n(1) k_def c, where P = ?P] True m
        by (simp add: replace_room_def k_def [symmetric] cong: if_cong split del: if_split)
      with m show ?thesis by (simp add: start some cong: if_cong split del: if_split)
    next
      case shared: False
      have init: "replace_init xs i j ys d = ret (map Some ?zs)" if "length d = length ?zs" for d
        by (rule replace_init_eq [OF b(3) j]) (simp only: that n(1) [symmetric] n(2) [symmetric])
      have "wp (new_with t Mutable n (replace_init xs i j ys))
        (\<lambda>r s1. wp (replace_inner t Mutable r) ?Q ?E ?P s1) ?E ?P s"
        using holds_replace_fresh [OF h v init, folded n(2), where E = ?E and P = ?P] True shared
        by (simp add: replace_room_def usize n_def [symmetric])
      with shared show ?thesis by (simp add: start some cong: if_cong split del: if_split)
    qed
  qed
qed

section \<open>Shrinking\<close>

text \<open>\<open>shrink_to\<close> never grows a buffer and never fails below the size of the text; a value that
  has no heap buffer, or one that is small enough, stays as it is.\<close>

lemma holds_shrink_to:
  fixes m :: nat
  assumes h: "holds t R xs s" and c: "has_capacity t s c"
  defines "n \<equiv> max (length xs) m"
  shows "wp (shrink_to t m)
    (\<lambda>_ s'. if block_of (self s) = None \<or> c \<le> n then s' = s
      else grown t R xs (max n (MAX_INLINE_SIZE t)) s s')
    (\<lambda>s'. rejected t R xs n s s' \<and> MAX_INLINE_SIZE t < n \<and> n < c) P s"
proof -
  note start = shrink_to_def holds_is_heap_buffer [OF h] holds_repr_len [OF h] has_capacity_wp [OF c]
    n_def [symmetric] Let_def
  show ?thesis
  proof (cases "block_of (self s) = None \<or> c \<le> n")
    case True
    then show ?thesis by (auto simp: start simp del: max_less_iff_conj)
  next
    case False
    have "length xs \<le> n" by (simp add: n_def)
    from holds_reallocate [OF h this] False show ?thesis
      by (auto simp: start simp del: max_less_iff_conj elim!: wp_mono)
  qed
qed

end
