(* ===== verification/ReprRetain.thy ===== *)
theory ReprRetain
  imports ReprRemove
begin

text \<open>
  \<open>retain\<close> keeps the characters its predicate accepts. The predicate may answer differently on
  every call and may panic; then the characters kept so far are the text, because the guard sets
  the length while unwinding.
\<close>

section \<open>The text that is kept\<close>

text \<open>The characters kept before the predicate panics or the text ends, and whether it panicked.
  \<open>k\<close> counts the calls.\<close>

primrec kept :: "(nat \<Rightarrow> uchar \<Rightarrow> bool option) \<Rightarrow> nat \<Rightarrow> uchar list \<Rightarrow> uchar list \<times> bool" where
  "kept p k [] = ([], False)"
| "kept p k (c # cs) = (case p k c of
     None \<Rightarrow> ([], True)
   | Some b \<Rightarrow> ((if b then [c] else []) @ fst (kept p (Suc k) cs), snd (kept p (Suc k) cs)))"

text \<open>For a predicate that depends on the character only, this is \<open>filter\<close>.\<close>

lemma kept_pure: "kept (\<lambda>_ c. Some (f c)) k cs = (filter f cs, False)"
  by (induction cs arbitrary: k) auto

text \<open>The search for the first character to remove.\<close>

lemma find_removed_NotFound:
  "find_removed p k idx cs = NotFound \<Longrightarrow> kept p k cs = (cs, False)"
  by (induction cs arbitrary: k idx) (auto split: option.splits if_splits bool.splits)

lemma find_removed_Panicked:
  "find_removed p k idx cs = Panicked \<Longrightarrow> snd (kept p k cs)"
  by (induction cs arbitrary: k idx) (auto split: option.splits if_splits bool.splits)

lemma find_removed_Found:
  "find_removed p k idx cs = Found (k', i, c) \<Longrightarrow>
    \<exists>as bs. cs = as @ c # bs \<and> i = idx + length (str_of as) \<and>
      kept p k cs = (as @ fst (kept p k' bs), snd (kept p k' bs))"
proof (induction cs arbitrary: k idx)
  case (Cons d ds)
  show ?case
  proof (cases "p k d = Some True")
    case True
    with Cons.prems have "find_removed p (Suc k) (idx + len_utf8 d) ds = Found (k', i, c)" by simp
    from Cons.IH [OF this] obtain as bs where "ds = as @ c # bs" "i = idx + len_utf8 d + length (str_of as)"
      "kept p (Suc k) ds = (as @ fst (kept p k' bs), snd (kept p k' bs))" by blast
    with True show ?thesis by (intro exI [of _ "d # as"] exI [of _ bs]) simp
  next
    case False
    with Cons.prems have "p k d = Some False" "k' = Suc k" "i = idx" "c = d"
      by (auto split: option.splits bool.splits)
    then show ?thesis by (intro exI [of _ "[]"] exI [of _ ds]) simp
  qed
qed simp

section \<open>The loop\<close>

text \<open>One copy to the left: the bytes before the target, the copied ones, and what lies behind the
  source.\<close>

lemma copy_left:
  assumes "dst < src" "src + n \<le> length d"
  shows "take (dst + n) (overwrite d dst (window d src n)) = take dst d @ window d src n"
    and "src + n \<le> k \<Longrightarrow> window (overwrite d dst (window d src n)) k m = window d k m"
proof -
  have w: "length (window d src n) = n" using assms(2) by simp
  then show "take (dst + n) (overwrite d dst (window d src n)) = take dst d @ window d src n"
    using take_overwrite [of dst "window d src n" d] assms by simp
  show "window (overwrite d dst (window d src n)) k m = window d k m" if "src + n \<le> k"
    using assms w that by (simp add: window_def overwrite_def)
qed

text \<open>What the loop finds at the top: \<open>ds\<close> is kept at the front, \<open>cs\<close> is still to be read.\<close>

definition retaining ::
  "target \<Rightarrow> owner multiset \<Rightarrow> place \<Rightarrow> nat \<Rightarrow> uchar list \<Rightarrow> uchar list \<Rightarrow> nat \<Rightarrow> nat \<Rightarrow> byte option list \<Rightarrow>
    repr st \<Rightarrow> bool"
where
  "retaining t R pl len ds cs src dst d s \<longleftrightarrow>
    editing t R pl d s \<and> tail_ok pl d \<and> len \<le> length d \<and> src + length (str_of cs) = len \<and> dst < src \<and>
    dst = length (str_of ds) \<and> take (length (str_of ds)) d = map Some (str_of ds) \<and>
    window d src (length (str_of cs)) = map Some (str_of cs)"

definition retained ::
  "target \<Rightarrow> owner multiset \<Rightarrow> place \<Rightarrow> nat \<Rightarrow> uchar list \<Rightarrow> nat \<Rightarrow> repr st \<Rightarrow> repr st \<Rightarrow> bool"
where
  "retained t R pl n zs dst s s' \<longleftrightarrow> (\<exists>d. editing t R pl d s' \<and> tail_ok pl d \<and> n = length d \<and>
     dst < n \<and> dst = length (str_of zs) \<and> take (length (str_of zs)) d = map Some (str_of zs) \<and>
     later s s')"

lemma retaining_skip:
  "retaining t R pl len ds (c # cs) src dst d s \<Longrightarrow>
    retaining t R pl len ds cs (src + len_utf8 c) dst d s"
proof -
  assume h: "retaining t R pl len ds (c # cs) src dst d s"
  have "window d (src + len_utf8 c) (length (str_of cs)) =
      drop (len_utf8 c) (window d src (length (str_of (c # cs))))"
    by (simp add: window_def drop_take add.commute)
  with h show ?thesis by (simp add: retaining_def)
qed

lemma retaining_first:
  assumes "retaining t R pl len ds (c # cs) src dst d s"
  shows "window d src (len_utf8 c) = map Some (encode_utf8 c)"
proof -
  have "window d src (len_utf8 c) = take (len_utf8 c) (window d src (length (str_of (c # cs))))"
    by (simp add: window_def min_absorb1)
  with assms show ?thesis by (simp add: retaining_def)
qed

lemma retaining_keep:
  assumes h: "retaining t R pl len ds (c # cs) src dst d s"
    and go: "\<And>d' s'. retaining t R pl len (ds @ [c]) cs (src + len_utf8 c) (dst + len_utf8 c) d' s' \<Longrightarrow>
      length d' = length d \<Longrightarrow> later s s' \<Longrightarrow> Q () s'"
  shows "wp (place_copy t pl src dst (len_utf8 c)) Q E P s"
proof -
  let ?n = "len_utf8 c"
  let ?d = "overwrite d dst (window d src ?n)"
  from h have lt: "dst < src" "src + ?n \<le> length d" and e: "editing t R pl d s"
    by (simp_all add: retaining_def)
  show ?thesis
  proof (rule editing_copy [OF e])
    fix s' assume s': "editing t R pl ?d s'" "later s s'"
    have len: "length ?d = length d" using lt by simp
    have "tail_ok pl ?d" using h lt by (intro tail_ok_overwrite) (simp_all add: retaining_def)
    moreover have "take (dst + ?n) ?d = map Some (str_of (ds @ [c]))"
      using copy_left(1) [OF lt] retaining_first [OF h] h by (simp add: retaining_def)
    moreover have "window ?d (src + ?n) (length (str_of cs)) = map Some (str_of cs)"
      using copy_left(2) [OF lt order.refl] retaining_skip [OF h] by (simp add: retaining_def)
    ultimately have "retaining t R pl len (ds @ [c]) cs (src + ?n) (dst + ?n) ?d s'"
      using h s'(1) len by (simp add: retaining_def)
    then show "Q () s'" using len s'(2) by (rule go)
  qed (use lt in simp_all)
qed

lemma wp_retain_loop:
  assumes "retaining t R pl len ds cs src dst d s" "\<forall>c \<in> set cs. scalar c"
  shows "wp (retain_loop t pl p k len src dst)
    (\<lambda>(n, panicked) s'. retained t R pl (length d) (ds @ fst (kept p k cs)) n s s' \<and>
      panicked = snd (kept p k cs)) E P s"
  using assms
proof (induction cs arbitrary: k ds src dst d s)
  case Nil
  then have "\<not> src < len" by (simp add: retaining_def)
  moreover have "retained t R pl (length d) ds dst s s"
    using Nil.prems by (auto simp: retained_def retaining_def)
  ultimately show ?case by (simp add: retain_loop.simps)
next
  case (Cons c cs)
  note h = Cons.prems(1)
  have c: "scalar c" "\<forall>c \<in> set cs. scalar c" using Cons.prems(2) by simp_all
  have lt: "src < len" "dst \<noteq> src" "len - src = length (str_of (c # cs))" "len \<le> length d"
    and e: "editing t R pl d s"
    and w: "window d src (length (str_of (c # cs))) = map Some (str_of (c # cs))"
    using h by (auto simp: retaining_def)
  have read: "wp (place_read pl src (len - src)) Q E P s = Q (str_of (c # cs)) s" for Q
    unfolding lt(3) by (rule editing_read [OF e _ w]) (use lt(1,3,4) in simp)
  have first: "wp (first_char (encode_utf8 c @ str_of cs)) Q E P s = Q c s" for Q
    using c by (intro first_char_encode [of c]) simp_all
  have same: "retained t R pl (length d) ds dst s s"
    using h by (auto simp: retained_def retaining_def)
  note run = retain_loop.simps [of t pl p k len src dst] lt(1,2) read first Let_def
  show ?case
  proof (cases "p k c")
    case None
    with same show ?thesis by (simp add: run)
  next
    case (Some b)
    show ?thesis
    proof (cases b)
      case False
      from Cons.IH [OF retaining_skip [OF h] c(2)] Some False
      show ?thesis by (simp add: run)
    next
      case True
      have "wp (place_copy t pl src dst (len_utf8 c))
        (\<lambda>_. wp (retain_loop t pl p (Suc k) len (src + len_utf8 c) (dst + len_utf8 c))
          (\<lambda>(n, panicked) s'. retained t R pl (length d) (ds @ fst (kept p k (c # cs))) n s s' \<and>
            panicked = snd (kept p k (c # cs))) E P) E P s"
      proof (rule retaining_keep [OF h])
        fix d' s' assume d': "retaining t R pl len (ds @ [c]) cs (src + len_utf8 c) (dst + len_utf8 c) d' s'"
          "length d' = length d" "later s s'"
        show "wp (retain_loop t pl p (Suc k) len (src + len_utf8 c) (dst + len_utf8 c))
          (\<lambda>(n, panicked) s'. retained t R pl (length d) (ds @ fst (kept p k (c # cs))) n s s' \<and>
            panicked = snd (kept p k (c # cs))) E P s'"
          by (rule wp_mono [OF Cons.IH [OF d'(1) c(2)]])
            (use Some True d' in \<open>auto simp: retained_def intro: later_trans\<close>)
      qed
      with Some True show ?thesis by (simp add: run)
    qed
  qed
qed

section \<open>The whole method\<close>

text \<open>If the predicate panics before it rejected anything the text is as it was; later, what was
  kept so far is the text.\<close>

lemma retained_set_len:
  assumes r: "retained t R pl n zs dst s1 s2" and l: "later s s1" and z: "\<forall>c \<in> set zs. scalar c"
  shows "wp (set_len t dst) (\<lambda>_. edited t R (str_of zs) s) E P s2"
proof -
  from r obtain d where d: "editing t R pl d s2" "tail_ok pl d" "dst < length d" "dst = length (str_of zs)"
    "take (length (str_of zs)) d = map Some (str_of zs)" "later s1 s2" unfolding retained_def by blast
  show ?thesis
    by (rule finish_edit [OF d(1)]) (use d z l in \<open>auto intro: later_trans\<close>)
qed

lemma enter_retaining:
  assumes e: "editing t R pl d s" "take (length xs) d = map Some xs" "tail_ok pl d" "length xs \<le> length d"
    and xs: "xs = str_of (as @ c # bs)" and i: "i = length (str_of as)"
  shows "retaining t R pl (length xs) as bs (i + len_utf8 c) i d s"
proof -
  have "take i (take (length xs) d) = map Some (str_of as)" by (simp add: e(2)) (simp add: xs i)
  then have "take (length (str_of as)) d = map Some (str_of as)" by (simp add: xs i min_absorb1)
  moreover have "drop (i + len_utf8 c) (take (length xs) d) = map Some (str_of bs)"
    by (simp add: e(2)) (simp add: xs i)
  then have "window d (i + len_utf8 c) (length (str_of bs)) = map Some (str_of bs)"
    by (simp add: window_def drop_take xs i)
  ultimately show ?thesis using e by (simp add: retaining_def xs i)
qed

lemma kept_scalar: "\<forall>c \<in> set cs. scalar c \<Longrightarrow> c \<in> set (fst (kept p k cs)) \<Longrightarrow> scalar c"
  by (induction cs arbitrary: k) (auto split: option.splits if_splits)

lemma holds_retain:
  assumes h: "holds t R xs s"
  shows "wp (retain t p)
    (\<lambda>_ s'. \<not> snd (kept p 0 (chars xs)) \<and> edited t R (str_of (fst (kept p 0 (chars xs)))) s s' \<and>
      (find_removed p 0 0 (chars xs) = NotFound \<longrightarrow> s' = s))
    (\<lambda>s'. rejected t R xs (length xs) s s')
    (\<lambda>s'. snd (kept p 0 (chars xs)) \<and> (if find_removed p 0 0 (chars xs) = Panicked then s' = s
      else edited t R (str_of (fst (kept p 0 (chars xs)))) s s')) s"
    (is "wp _ ?Q ?E ?P s")
proof (cases "find_removed p 0 0 (chars xs)")
  case Panicked
  with find_removed_Panicked [OF this] show ?thesis by (simp add: retain_def holds_as_str [OF h])
next
  case NotFound
  with find_removed_NotFound [OF this] h holds_valid [OF h] show ?thesis
    by (simp add: retain_def holds_as_str [OF h] edited_refl)
next
  case (Found q)
  obtain k i c where q: "q = (k, i, c)" by (cases q) auto
  from find_removed_Found [OF Found [unfolded q]] obtain as bs where
    cs: "chars xs = as @ c # bs" "i = length (str_of as)"
      "kept p 0 (chars xs) = (as @ fst (kept p k bs), snd (kept p k bs))" by auto
  have scalar: "\<forall>c \<in> set (as @ c # bs). scalar c"
    using chars_scalar [OF holds_valid [OF h]] cs(1) by auto
  have xs: "xs = str_of (as @ c # bs)" using str_of_chars [OF holds_valid [OF h]] cs(1) by simp
  let ?src = "i + len_utf8 c"
  have go: "wp (as_mut_ptr t) (\<lambda>ptr. wp (retain_loop t ptr p k (length xs) ?src i)
      (\<lambda>res s2. wp (set_len t (fst res)) (\<lambda>_ s'. if snd res then ?P s' else ?Q () s') ?E ?P s2)
      ?E ?P) ?E ?P s1"
    if s1: "holds t R xs s1" "modifiable R (self s1)" "later s s1" for s1
  proof -
    obtain cap where cap: "has_capacity t s1 cap" "length xs \<le> cap" using s1(1) by (rule holds_capacityE)
    show ?thesis
    proof (rule holds_as_mut_ptr [OF s1(1,2) cap(1)])
      fix pl d
      assume e: "editing t R pl d s1" "length d = cap" "take (length xs) d = map Some xs" "tail_ok pl d"
      have r: "retaining t R pl (length xs) as bs ?src i d s1"
        using e cap(2) xs cs(2) by (intro enter_retaining) simp_all
      have "wp (retain_loop t pl p k (length xs) ?src i)
        (\<lambda>(n, panicked) s'. retained t R pl (length d) (as @ fst (kept p k bs)) n s1 s' \<and>
          panicked = snd (kept p k bs)) ?E ?P s1"
        by (rule wp_retain_loop [OF r]) (use scalar in simp)
      then show "wp (retain_loop t pl p k (length xs) ?src i)
        (\<lambda>res s2. wp (set_len t (fst res)) (\<lambda>_ s'. if snd res then ?P s' else ?Q () s') ?E ?P s2)
        ?E ?P s1"
      proof (rule wp_mono)
        fix res s2
        assume "(\<lambda>(n, panicked) s'. retained t R pl (length d) (as @ fst (kept p k bs)) n s1 s' \<and>
          panicked = snd (kept p k bs)) res s2"
        then have ret: "retained t R pl (length d) (as @ fst (kept p k bs)) (fst res) s1 s2"
          "snd res = snd (kept p k bs)" by (simp_all add: case_prod_beta)
        have "\<forall>c \<in> set (as @ fst (kept p k bs)). scalar c" using kept_scalar [of bs _ p k] scalar by auto
        from retained_set_len [OF ret(1) s1(3) this]
        have "wp (set_len t (fst res)) (\<lambda>_. edited t R (str_of (as @ fst (kept p k bs))) s) ?E ?P s2" .
        with ret(2) cs(3) Found show "wp (set_len t (fst res)) (\<lambda>_ s'. if snd res then ?P s' else ?Q () s') ?E ?P s2"
          by (auto simp: case_prod_beta elim!: wp_mono)
      qed
    qed
  qed
  have "wp (ensure_modifiable t)
    (\<lambda>_ s1. wp (repr_len t Mutable (self s1)) (\<lambda>len. wp (as_mut_ptr t) (\<lambda>ptr.
      wp (retain_loop t ptr p k len ?src i)
      (\<lambda>res s2. wp (set_len t (fst res)) (\<lambda>_ s'. if snd res then ?P s' else ?Q () s') ?E ?P s2)
      ?E ?P) ?E ?P) ?E ?P s1) ?E ?P s"
  proof (rule wp_mono [OF holds_ensure_modifiable [OF h]])
    fix u s1
    assume "holds t R xs s1 \<and> modifiable R (self s1) \<and> later s s1 \<and> (modifiable R (self s) \<longrightarrow> s1 = s)"
    then have s1: "holds t R xs s1" "modifiable R (self s1)" "later s s1" by blast+
    from go [OF s1] show "wp (repr_len t Mutable (self s1)) (\<lambda>len. wp (as_mut_ptr t) (\<lambda>ptr.
      wp (retain_loop t ptr p k len ?src i)
      (\<lambda>res s2. wp (set_len t (fst res)) (\<lambda>_ s'. if snd res then ?P s' else ?Q () s') ?E ?P s2)
      ?E ?P) ?E ?P) ?E ?P s1"
      by (simp only: holds_repr_len [OF s1(1)])
  qed
  then show ?thesis
    by (simp add: retain_def holds_as_str [OF h] Found q case_prod_beta cong: if_cong split del: if_split)
qed

end
