(* ===== verification/ReprConv.thy ===== *)
theory ReprConv
  imports ReprRetain
begin

text \<open>
  \<open>into_immutable\<close> and \<open>into_mutable\<close> move a value to the other mutability. Both keep the text and
  every other owner. When the allocator refuses, the value comes back as it was.
\<close>

section \<open>What a conversion promises\<close>

definition converted ::
  "target \<Rightarrow> owner multiset \<Rightarrow> header \<Rightarrow> header \<Rightarrow> repr \<Rightarrow> byte list \<Rightarrow> 'r st \<Rightarrow> repr + repr \<Rightarrow> 'r st \<Rightarrow> bool"
where
  "converted t R h h' r xs s res s' \<longleftrightarrow> mem_only s s' \<and> (case res of
     Inr r' \<Rightarrow> sound t (add_mset (h', r', xs) R) s'
   | Inl r' \<Rightarrow> r' = r \<and> sound t (add_mset (h, r, xs) R) s' \<and> refused t h' (length xs) s s')"

lemma converted_plain:
  assumes "sound t (add_mset (h, r, xs) R) s" "block_of r = None"
  shows "converted t R h h' r xs s (Inr r) s"
proof -
  from assms(1) obtain H where H: "heap_rep t H s" "owns t H (add_mset (h, r, xs) R)" by (rule soundE)
  have "denotes t H h' r xs"
    using owns_denotes [OF H(2), of h r xs] assms(2) buf_holds_block by (fastforce simp: denotes_def)
  with H assms(2) show ?thesis by (auto simp: converted_def mem_only_def sound_def owns_add_plain)
qed

text \<open>Copying the text into a value of the other mutability and giving the reference back.\<close>

lemma converted_copy:
  assumes snd: "sound t (add_mset (h, r, xs) R) s" and v: "valid_utf8 xs"
  shows "wp (from_str t h' xs)
    (\<lambda>r' s1. wp (drop_in t h r) (\<lambda>_. converted t R h h' r xs s (Inr r')) E P s1)
    (converted t R h h' r xs s (Inl r)) P s"
proof (rule wp_mono [OF sound_from_str [OF snd v, where h = h']])
  fix r' s1
  assume s1: "sound t (add_mset (h', r', xs) (add_mset (h, r, xs) R)) s1 \<and> mem_only s s1 \<and>
    modifiable (add_mset (h, r, xs) R) r'"
  then have "sound t (add_mset (h, r, xs) (add_mset (h', r', xs) R)) s1" by (simp add: add_mset_commute)
  from sound_drop_in [OF this] show "wp (drop_in t h r) (\<lambda>_. converted t R h h' r xs s (Inr r')) E P s1"
    by (rule wp_mono) (use s1 in \<open>auto simp: converted_def mem_only_def\<close>)
qed (auto simp: converted_def)

section \<open>A block that changed under its only owner\<close>

lemma sound_put_unique:
  assumes rep: "heap_rep t H s" and o: "owns t H (add_mset (h, repr_of_heap t hb, xs) R)"
    and b: "H b = Some v" "vcount v = 1"
    and v': "view_ok t v'" "vcount v' = 1" and B: "buf_holds t h hb b v' ys" and ys: "valid_utf8 ys"
  shows "sound t (add_mset (h, repr_of_heap t hb, ys) R) (put_view t b v' s)"
proof -
  have blk: "block_of (repr_of_heap t hb) = Some b" using B by (rule buf_holds_block)
  have "owns t ((H(b := None))(b \<mapsto> v')) (add_mset (h, repr_of_heap t hb, ys) R)"
    using owns_take [OF o blk b] blk v'(2) B ys by (intro owns_put) (auto intro: denotes_heap)
  then have "owns t (H(b \<mapsto> v')) (add_mset (h, repr_of_heap t hb, ys) R)" by simp
  with heap_rep_put_view [OF rep b(1) v'(1)] show ?thesis by (auto simp: sound_def)
qed

lemma sound_moved:
  assumes rep: "heap_rep t H s" and o: "owns t H (add_mset (h, r, xs) R)"
    and b: "block_of r = Some b" "H b = Some v" "vcount v = 1"
    and fits: "fits t h' (length xs)" and xs: "valid_utf8 xs"
  shows "converted t R h h' r xs s (Inr (repr_of_heap t (new_buf t h' (length xs) xs s)))
      (move_view t b (new_view t h' (length xs) xs) s)"
    "heap_word t (new_buf t h' (length xs) xs s)"
proof -
  have B: "buf_holds t h' (new_buf t h' (length xs) xs s) (next_id s) (new_view t h' (length xs) xs) xs"
    by (rule buf_holds_new_view) simp_all
  from buf_holds_word [OF B] show "heap_word t (new_buf t h' (length xs) xs s)" .
  have "view_ok t (new_view t h' (length xs) xs)" "vcount (new_view t h' (length xs) xs) = 1"
    using fits by simp_all
  from sound_move_view(1) [OF rep o b this B xs]
  show "converted t R h h' r xs s (Inr (repr_of_heap t (new_buf t h' (length xs) xs s)))
      (move_view t b (new_view t h' (length xs) xs) s)"
    by (simp add: converted_def)
qed

section \<open>The two conversions\<close>

lemma sound_into_mutable:
  assumes snd: "sound t (add_mset (Immutable, r, xs) R) s"
  shows "wp (into_mutable t r) (converted t R Immutable Mutable r xs s) E P s"
proof -
  from snd obtain H where H: "heap_rep t H s" "owns t H (add_mset (Immutable, r, xs) R)" by (rule soundE)
  have d: "denotes t H Immutable r xs" using owns_denotes [OF H(2)] by simp
  note is_heap = sound_is_heap_buffer [OF snd, of Immutable r xs, simplified]
  show ?thesis
  proof (cases "block_of r = None")
    case True
    with converted_plain [OF snd True] show ?thesis by (simp add: into_mutable_def is_heap)
  next
    case False
    from d show ?thesis
    proof (cases rule: denotes_cases)
      case (heap hb b v)
      have L: "live t s Immutable hb b v" using H(1) heap(2,3) by (rule live_intro)
      have blk: "block_of r = Some b" using heap(1,3) by (simp add: buf_holds_block)
      have drop: "release t Immutable hb = drop_in t Immutable r"
        using heap by (simp add: drop_in_def)
      note start = into_mutable_def is_heap blk heap(4) heap(1) wp_heap_is_unique [OF L]
      show ?thesis
      proof (cases "vcount v = 1")
        case True
        note moved = sound_moved [OF H blk heap(2) True _ heap(5), of Mutable]
        have "converted t R Immutable Mutable r xs s (Inl r) s" if "\<not> fits t Mutable (length xs)"
          using snd that by (simp add: converted_def mem_only_def)
        moreover have "converted t R Immutable Mutable r xs s (Inl r) (s\<lparr>calls := Suc (calls s)\<rparr>)"
          if "oom s (calls s)"
          using snd that by (simp add: converted_def)
        ultimately show ?thesis
          using True moved heap(1) by (simp add: start wp_into_growable [OF L heap(3) True])
      next
        case False
        with heap(1) show ?thesis
          by (simp add: start wp_heap_as_str [OF L heap(3,5)] drop)
            (rule wp_mono [OF converted_copy [OF snd [unfolded heap(1)] heap(5)]]; simp)
      qed
    qed (use False static_holds_block in auto)
  qed
qed

lemma sound_into_immutable:
  assumes snd: "sound t (add_mset (Mutable, r, xs) R) s"
  shows "wp (into_immutable t r) (converted t R Mutable Immutable r xs s) E P s"
proof -
  from snd obtain H where H: "heap_rep t H s" "owns t H (add_mset (Mutable, r, xs) R)" by (rule soundE)
  have d: "denotes t H Mutable r xs" using owns_denotes [OF H(2)] by simp
  note is_heap = sound_is_heap_buffer [OF snd, of Mutable r xs, simplified]
  show ?thesis
  proof (cases "block_of r = None")
    case True
    with converted_plain [OF snd True] show ?thesis by (simp add: into_immutable_def is_heap)
  next
    case False
    from d show ?thesis
    proof (cases rule: denotes_cases)
      case (heap hb b v)
      have L: "live t s Mutable hb b v" using H(1) heap(2,3) by (rule live_intro)
      have blk: "block_of r = Some b" using heap(1,3) by (simp add: buf_holds_block)
      have drop: "release t Mutable hb = drop_in t Mutable r"
        using heap by (simp add: drop_in_def)
      have ok: "view_ok t v" using heap_rep_ok [OF H(1) heap(2)] .
      note start = into_immutable_def is_heap blk heap(4) heap(1) wp_heap_is_unique [OF L]
        wp_heap_as_str [OF L heap(3,5)]
      show ?thesis
      proof (cases "vcount v = 1")
        case one: True
        show ?thesis
        proof (cases "length xs \<le> MAX_INLINE_SIZE t")
          case True
          have "wp (drop_in t Mutable r)
            (\<lambda>_. converted t R Mutable Immutable r xs s (Inr (repr_of_inline t (inline_bytes t xs)))) E P s"
            by (rule wp_mono [OF sound_drop_in [OF snd]])
              (use True heap(5) in \<open>auto simp: converted_def sound_add_inline inline_holds_inline_bytes\<close>)
          with one True heap(1,5) show ?thesis
            by (simp add: start drop inline_new_eq inline_word_inline_bytes)
        next
          case False
          let ?v = "v\<lparr>vprefix := prefix_bytes t (vcap v) (length xs)\<rparr>"
          have fits: "fits t Immutable (length xs)"
            using buf_holds_le_cap [OF heap(3) ok] ok heap(3)
            by (intro fits_exact [of t "vcap v"]) (simp_all add: view_ok_def buf_holds_def)
          note moved = sound_moved [OF H blk heap(2) one fits heap(5)]
          have rep: "heap_rep t H (s\<lparr>calls := Suc (calls s)\<rparr>)" using H(1) by (simp add: heap_rep_def)
          have "view_ok t ?v" using ok by simp
          moreover have "vcount ?v = 1" "buf_holds t Mutable hb b ?v xs"
            using ok one heap(3) long_layout [OF buf_holds_le_cap [OF heap(3) ok] ok]
            by (auto simp: buf_holds_def prefix_bytes_def prefix_len_nonzero)
          ultimately have "sound t (add_mset (Mutable, r, xs) R) (put_view t b ?v (s\<lparr>calls := Suc (calls s)\<rparr>))"
            using sound_put_unique [OF rep H(2) [unfolded heap(1)] heap(2) one _ _ _ heap(5)]
            by (simp add: heap(1))
          then have "converted t R Mutable Immutable r xs s (Inl r) (put_view t b ?v (s\<lparr>calls := Suc (calls s)\<rparr>))"
            if "oom s (calls s)"
            using that by (auto simp: converted_def refused_def oom_between_def put_view_def mem_only_def)
          with one False moved heap(1) show ?thesis
            by (simp add: start wp_into_exact [OF L heap(3) one])
        qed
      next
        case False
        with heap(1) show ?thesis
          by (simp add: start drop)
            (rule wp_mono [OF converted_copy [OF snd [unfolded heap(1)] heap(5)]]; simp)
      qed
    qed (use False static_holds_block in auto)
  qed
qed

end
