(* ===== verification/Sinks.thy ===== *)
theory Sinks
  imports ReprConv
begin

text \<open>
  Local variables and loops. \<open>with_local\<close> runs a method on a local variable, \<open>scoped\<close> one that is
  dropped when its scope is left by an error or by unwinding, \<open>unwrap_with_msg\<close> is the
  \<^verbatim>\<open>Err(e) => panic!("{e}")\<close> of \<open>src/src/lib.rs\<close>. The locale \<open>text_sink\<close> is the contract of
  everything that a text can be written to piece by piece; its one law is what a piece adds, and
  its lemma is what a loop over pieces adds. \<open>push_str\<close> and \<open>push\<close>, with an error or with a panic,
  are its instances.
\<close>

section \<open>Running out of memory\<close>

lemma fits_less: "fits t Mutable n \<Longrightarrow> m \<le> n \<Longrightarrow> fits t h m"
proof (induction h)
  case GrowableHeader
  then show ?case using prefix_len_mono [of m n t] by (auto simp: fits_def buffer_size_def)
qed (rule fits_exact)

lemma refused_more: "refused t h m s s' \<Longrightarrow> m \<le> n \<Longrightarrow> refused t Mutable n s s'"
  by (auto simp: refused_def dest: fits_less)

text \<open>Building a text of \<open>n\<close> bytes step by step never asks for more than one and a half times \<open>n\<close>.\<close>

definition out_of_memory :: "target \<Rightarrow> nat \<Rightarrow> 'r st \<Rightarrow> 'r st \<Rightarrow> bool" where
  "out_of_memory t n s s' \<longleftrightarrow> refused t Mutable (n + n div 2) s s'"

lemma out_of_memoryI: "refused t h m s s' \<Longrightarrow> m \<le> n + n div 2 \<Longrightarrow> out_of_memory t n s s'"
  unfolding out_of_memory_def by (rule refused_more)

lemma out_of_memory_mono:
  "out_of_memory t m s1 s2 \<Longrightarrow> m \<le> n \<Longrightarrow> later s s1 \<Longrightarrow> later s2 s' \<Longrightarrow> out_of_memory t n s s'"
  unfolding out_of_memory_def
  by (rule refused_mono [OF refused_more]) (auto intro: add_le_mono div_le_mono)

lemma out_of_memory_self [simp]:
  "out_of_memory t n s (s'\<lparr>self := r\<rparr>) = out_of_memory t n s s'"
  "out_of_memory t n (s\<lparr>self := r\<rparr>) s' = out_of_memory t n s s'"
  by (simp_all add: out_of_memory_def) (simp add: refused_def oom_between_def)

lemma amortized_le: "len + add \<le> n \<Longrightarrow> amortized t len add \<le> n + n div 2"
  using div_le_mono [of len n 2] by (auto simp: amortized_def)

lemma rejected_out_of_memory:
  "rejected t R xs c s s' \<Longrightarrow> c \<le> n + n div 2 \<Longrightarrow> out_of_memory t n s s'"
  by (auto simp: rejected_def intro: out_of_memoryI)

section \<open>Panicking variants\<close>

definition unwrap_with_msg :: "('s, 'a) prog \<Rightarrow> ('s, 'a) prog" where
  "unwrap_with_msg m = bind (attempt m) (\<lambda>r. case r of Some x \<Rightarrow> ret x | None \<Rightarrow> panic)"

lemma wp_unwrap_with_msg [simp]: "wp (unwrap_with_msg m) Q E P s = wp m Q P P s"
  by (simp add: unwrap_with_msg_def wp_def bind_def attempt_def ret_def panic_def split: outcome.split)

section \<open>Local variables\<close>

text \<open>A method called on a local variable: \<open>self\<close> is the variable while it runs.\<close>

definition with_local :: "repr \<Rightarrow> (repr st, 'a) prog \<Rightarrow> (repr st, 'a \<times> repr) prog" where
  "with_local r m = (\<lambda>s. case m (s\<lparr>self := r\<rparr>) of
     Ret x s' \<Rightarrow> Ret (x, self s') (s'\<lparr>self := self s\<rparr>)
   | Fail s' \<Rightarrow> Fail (s'\<lparr>self := self s\<rparr>)
   | Panic s' \<Rightarrow> Panic (s'\<lparr>self := self s\<rparr>)
   | Undef \<Rightarrow> Undef)"

text \<open>Code that runs when \<open>m\<close> is left by an error or a panic, and only then.\<close>

definition on_unwind :: "('s, 'a) prog \<Rightarrow> ('s, unit) prog \<Rightarrow> ('s, 'a) prog" where
  "on_unwind m d = (\<lambda>s. case m s of
     Ret x s' \<Rightarrow> Ret x s'
   | Fail s' \<Rightarrow> bind d (\<lambda>_. fail) s'
   | Panic s' \<Rightarrow> bind d (\<lambda>_. panic) s'
   | Undef \<Rightarrow> Undef)"

definition scoped :: "target \<Rightarrow> repr \<Rightarrow> (repr st, 'a) prog \<Rightarrow> (repr st, 'a \<times> repr) prog" where
  "scoped t r m = with_local r (on_unwind m (bind (gets self) (drop_in t Mutable)))"

lemma wp_with_local:
  "wp (with_local r m) Q E P s =
    wp m (\<lambda>x s'. Q (x, self s') (s'\<lparr>self := self s\<rparr>)) (\<lambda>s'. E (s'\<lparr>self := self s\<rparr>))
      (\<lambda>s'. P (s'\<lparr>self := self s\<rparr>)) (s\<lparr>self := r\<rparr>)"
  by (simp add: wp_def with_local_def split: outcome.split)

lemma wp_on_unwind [simp]:
  "wp (on_unwind m d) Q E P s = wp m Q (wp d (\<lambda>_. E) E P) (wp d (\<lambda>_. P) E P) s"
  by (cases "m s") (auto simp: on_unwind_def wp_def bind_def fail_def panic_def split: outcome.split)

lemma holds_local: "holds t R xs (s\<lparr>self := r\<rparr>) = sound t (add_mset (Mutable, r, xs) R) s"
  by (simp add: holds_def)

lemma later_mem_only: "later (s\<lparr>self := r\<rparr>) s' \<Longrightarrow> mem_only s (s'\<lparr>self := self s\<rparr>)"
  by (simp add: later_def mem_only_def)

lemma edited_local:
  "edited t R xs (s\<lparr>self := r\<rparr>) s' \<longleftrightarrow>
    sound t (add_mset (Mutable, self s', xs) R) (s'\<lparr>self := self s\<rparr>) \<and> later s s'"
  by (simp add: edited_def holds_def)

text \<open>A value that could not be completed, and what is left of it when it has been dropped.\<close>

definition stuck :: "target \<Rightarrow> owner multiset \<Rightarrow> nat \<Rightarrow> repr st \<Rightarrow> repr st \<Rightarrow> bool" where
  "stuck t R n s s' \<longleftrightarrow> (\<exists>ys. holds t R ys s') \<and> later s s' \<and> out_of_memory t n s s'"

definition gave_up :: "target \<Rightarrow> owner multiset \<Rightarrow> nat \<Rightarrow> 'r st \<Rightarrow> 'r st \<Rightarrow> bool" where
  "gave_up t R n s s' \<longleftrightarrow> sound t R s' \<and> mem_only s s' \<and> out_of_memory t n s s'"

lemma gave_up_from: "gave_up t R m s1 s' \<Longrightarrow> m \<le> n \<Longrightarrow> mem_only s s1 \<Longrightarrow> gave_up t R n s s'"
  unfolding gave_up_def using mem_only_later [of s s1]
  by (auto intro: mem_only_trans out_of_memory_mono)

lemma stuck_from: "stuck t R m s1 s' \<Longrightarrow> m \<le> n \<Longrightarrow> later s s1 \<Longrightarrow> stuck t R n s s'"
  unfolding stuck_def by (auto intro: later_trans out_of_memory_mono)

lemma gave_upI:
  "sound t R s' \<Longrightarrow> mem_only s s' \<Longrightarrow> refused t h m s s' \<Longrightarrow> m \<le> n + n div 2 \<Longrightarrow> gave_up t R n s s'"
  by (simp add: gave_up_def out_of_memoryI)

lemma stuck_drop:
  assumes "stuck t R n (s\<lparr>self := r\<rparr>) s1"
  shows "wp (drop_in t Mutable (self s1)) (\<lambda>_ s'. gave_up t R n s (s'\<lparr>self := self s\<rparr>)) E P s1"
proof -
  from assms obtain ys where s1: "sound t (add_mset (Mutable, self s1, ys) R) s1"
    "later s s1" "out_of_memory t n s s1" by (auto simp: stuck_def holds_def)
  show ?thesis
  proof (rule wp_mono [OF sound_drop_in [OF s1(1)]])
    fix x s' assume s': "sound t R s' \<and> mem_only s1 s' \<and> calls s' = calls s1 \<and> keeps (self s1) s1 s'"
    then have l: "later s1 s'" by (blast intro: mem_only_later)
    from s1(2) l have "mem_only s (s'\<lparr>self := self s\<rparr>)" by (auto simp: later_def mem_only_def)
    with s' out_of_memory_mono [OF s1(3) _ _ l] show "gave_up t R n s (s'\<lparr>self := self s\<rparr>)"
      by (simp add: gave_up_def)
  qed
qed

lemma stuck_drop_local:
  assumes "stuck t R n (s\<lparr>self := r\<rparr>) s1"
  shows "wp (drop_in t Mutable (self s1)) (\<lambda>_. gave_up t R n s) E P (s1\<lparr>self := self s\<rparr>)"
proof -
  from assms obtain ys where s1: "sound t (add_mset (Mutable, self s1, ys) R) (s1\<lparr>self := self s\<rparr>)"
    "later s s1" "out_of_memory t n s s1" by (auto simp: stuck_def holds_def)
  show ?thesis
  proof (rule wp_mono [OF sound_drop_in [OF s1(1)]])
    fix x s' assume s': "sound t R s' \<and> mem_only (s1\<lparr>self := self s\<rparr>) s' \<and>
      calls s' = calls (s1\<lparr>self := self s\<rparr>) \<and> keeps (self s1) (s1\<lparr>self := self s\<rparr>) s'"
    then have l: "later s1 s'" and m: "mem_only s s'" using s1(2) by (auto simp: later_def mem_only_def)
    with s' out_of_memory_mono [OF s1(3) _ _ l] show "gave_up t R n s s'" by (simp add: gave_up_def)
  qed
qed

lemma wp_scoped:
  assumes "wp m (\<lambda>x s'. Q (x, self s') (s'\<lparr>self := self s\<rparr>))
      (stuck t R n (s\<lparr>self := r\<rparr>)) (stuck t R n (s\<lparr>self := r\<rparr>)) (s\<lparr>self := r\<rparr>)"
  shows "wp (scoped t r m) Q (gave_up t R n s) (gave_up t R n s) s"
  by (simp add: scoped_def wp_with_local, rule wp_mono [OF assms]) (auto intro: stuck_drop)

lemma wp_scoped_panic:
  assumes "wp m (\<lambda>x s'. Q (x, self s') (s'\<lparr>self := self s\<rparr>)) (\<lambda>_. False) (stuck t R n (s\<lparr>self := r\<rparr>))
    (s\<lparr>self := r\<rparr>)"
  shows "wp (scoped t r m) Q E (gave_up t R n s) s"
  by (simp add: scoped_def wp_with_local, rule wp_mono [OF assms]) (auto intro: stuck_drop)

section \<open>Writing piece by piece\<close>

locale text_sink =
  fixes put :: "'a \<Rightarrow> ('s, unit) prog"
    and piece :: "'a \<Rightarrow> byte list"
    and writable :: "'a \<Rightarrow> bool"
    and held :: "byte list \<Rightarrow> 's \<Rightarrow> bool"
    and onward :: "'s \<Rightarrow> 's \<Rightarrow> bool"
    and fails panics :: "nat \<Rightarrow> 's \<Rightarrow> 's \<Rightarrow> bool"
  assumes put: "held xs s \<Longrightarrow> writable x \<Longrightarrow> length xs + length (piece x) \<le> n \<Longrightarrow>
      wp (put x) (\<lambda>_ s'. held (xs @ piece x) s' \<and> onward s s') (fails n s) (panics n s) s"
    and onward_refl: "onward s s"
    and onward_trans: "onward s s1 \<Longrightarrow> onward s1 s2 \<Longrightarrow> onward s s2"
    and fails_trans: "onward s s1 \<Longrightarrow> fails n s1 s2 \<Longrightarrow> fails n s s2"
    and panics_trans: "onward s s1 \<Longrightarrow> panics n s1 s2 \<Longrightarrow> panics n s s2"
begin

definition pieces :: "'a list \<Rightarrow> byte list" where
  "pieces xs = concat (map piece xs)"

lemma put_all:
  "held xs s \<Longrightarrow> list_all writable as \<Longrightarrow> length xs + length (pieces as) \<le> n \<Longrightarrow>
    wp (for_each as put) (\<lambda>_ s'. held (xs @ pieces as) s' \<and> onward s s') (fails n s) (panics n s) s"
proof (induction as arbitrary: xs s)
  case Nil
  then show ?case by (simp add: pieces_def onward_refl)
next
  case (Cons a as)
  have a: "writable a" "list_all writable as" "length xs + length (piece a) \<le> n"
    "length (xs @ piece a) + length (pieces as) \<le> n" using Cons.prems(2,3) by (simp_all add: pieces_def)
  have "wp (put a) (\<lambda>_. wp (for_each as put) (\<lambda>_ s'. held (xs @ pieces (a # as)) s' \<and> onward s s')
    (fails n s) (panics n s)) (fails n s) (panics n s) s"
  proof (rule wp_mono [OF put [OF Cons.prems(1) a(1,3)]])
    fix u s1 assume s1: "held (xs @ piece a) s1 \<and> onward s s1"
    show "wp (for_each as put) (\<lambda>_ s'. held (xs @ pieces (a # as)) s' \<and> onward s s')
      (fails n s) (panics n s) s1"
      by (rule wp_mono [OF Cons.IH [of "xs @ piece a"]])
        (use s1 a in \<open>auto simp: pieces_def intro: onward_trans fails_trans panics_trans\<close>)
  qed simp_all
  then show ?case by simp
qed

end

text \<open>Two kinds of pieces: characters, and strings. Each gives the contract above.\<close>

locale char_sink =
  fixes push :: "uchar \<Rightarrow> ('s, unit) prog"
    and held :: "byte list \<Rightarrow> 's \<Rightarrow> bool"
    and onward :: "'s \<Rightarrow> 's \<Rightarrow> bool"
    and fails panics :: "nat \<Rightarrow> 's \<Rightarrow> 's \<Rightarrow> bool"
  assumes push: "held xs s \<Longrightarrow> scalar c \<Longrightarrow> length xs + len_utf8 c \<le> n \<Longrightarrow>
      wp (push c) (\<lambda>_ s'. held (xs @ encode_utf8 c) s' \<and> onward s s') (fails n s) (panics n s) s"
    and onward: "onward s s" "onward s s1 \<Longrightarrow> onward s1 s2 \<Longrightarrow> onward s s2"
    and stops: "onward s s1 \<Longrightarrow> fails n s1 s2 \<Longrightarrow> fails n s s2"
      "onward s s1 \<Longrightarrow> panics n s1 s2 \<Longrightarrow> panics n s s2"

sublocale char_sink \<subseteq> text_sink push encode_utf8 scalar held onward fails panics
  using push onward stops by unfold_locales auto

context char_sink
begin

lemma pieces_chars: "pieces cs = str_of cs"
  by (simp add: pieces_def str_of_def)

lemmas push_chars = put_all [unfolded pieces_chars]

end

locale str_sink =
  fixes push_str :: "byte list \<Rightarrow> ('s, unit) prog"
    and held :: "byte list \<Rightarrow> 's \<Rightarrow> bool"
    and onward :: "'s \<Rightarrow> 's \<Rightarrow> bool"
    and fails panics :: "nat \<Rightarrow> 's \<Rightarrow> 's \<Rightarrow> bool"
  assumes push_str: "held xs s \<Longrightarrow> valid_utf8 ys \<Longrightarrow> length xs + length ys \<le> n \<Longrightarrow>
      wp (push_str ys) (\<lambda>_ s'. held (xs @ ys) s' \<and> onward s s') (fails n s) (panics n s) s"
    and onward: "onward s s" "onward s s1 \<Longrightarrow> onward s1 s2 \<Longrightarrow> onward s s2"
    and stops: "onward s s1 \<Longrightarrow> fails n s1 s2 \<Longrightarrow> fails n s s2"
      "onward s s1 \<Longrightarrow> panics n s1 s2 \<Longrightarrow> panics n s s2"

sublocale str_sink \<subseteq> text_sink push_str "\<lambda>ys. ys" valid_utf8 held onward fails panics
  using push_str onward stops by unfold_locales auto

context str_sink
begin

lemma pieces_strs: "pieces yss = concat yss"
  by (simp add: pieces_def)

lemmas push_strs = put_all [unfolded pieces_strs]

end

lemma rejected_stuck:
  "rejected t R xs c s s' \<Longrightarrow> c \<le> n + n div 2 \<Longrightarrow> stuck t R n s s'"
  by (auto simp: stuck_def intro: rejected_out_of_memory) (auto simp: rejected_def)

lemma push_str_stuck:
  assumes "holds t R xs s" "valid_utf8 ys" "length xs + length ys \<le> n"
  shows "wp (push_str t ys) (\<lambda>_ s'. holds t R (xs @ ys) s' \<and> later s s') (stuck t R n s) P s"
  by (rule wp_mono [OF holds_push_str [OF assms(1,2)]])
    (use assms(3) in \<open>auto simp: edited_def intro: rejected_stuck amortized_le\<close>)

lemma push_char_stuck:
  assumes "holds t R xs s" "scalar c" "length xs + len_utf8 c \<le> n"
  shows "wp (push_char t c) (\<lambda>_ s'. holds t R (xs @ encode_utf8 c) s' \<and> later s s') (stuck t R n s) P s"
  by (rule wp_mono [OF holds_push_char [OF assms(1,2)]])
    (use assms(3) in \<open>auto simp: edited_def intro: rejected_stuck amortized_le\<close>)

interpretation repr_chars: char_sink "push_char t" "holds t R" later "stuck t R" "\<lambda>_ _ _. False" for t R
  by unfold_locales (auto intro: push_char_stuck later_trans stuck_from)

interpretation repr_strs: str_sink "push_str t" "holds t R" later "stuck t R" "\<lambda>_ _ _. False" for t R
  by unfold_locales (auto intro: push_str_stuck later_trans stuck_from)

end
