(* ===== verification/CaseScan.thy ===== *)
theory CaseScan
  imports Utf8
begin

text \<open>
  \<open>src/src/case.rs\<close>: finding the first byte or character that a case conversion changes, in
  chunks of sixteen bytes. The Unicode mappings of \<^verbatim>\<open>char::to_lowercase\<close> and
  \<^verbatim>\<open>char::to_uppercase\<close> are tables of the standard library; they are a parameter with
  the documented facts \<open>unicode_ok\<close>.
\<close>

definition CHUNK_SIZE :: nat where
  "CHUNK_SIZE = 16"

datatype letter_case = Lower | Upper

record unicode =
  to_lower :: "uchar \<Rightarrow> uchar list"
  to_upper :: "uchar \<Rightarrow> uchar list"
  str_lower :: "byte list \<Rightarrow> byte list"

section \<open>ASCII\<close>

definition is_ascii :: "byte \<Rightarrow> bool" where
  "is_ascii b \<longleftrightarrow> unat b < 0x80"

definition is_ascii_uppercase :: "byte \<Rightarrow> bool" where
  "is_ascii_uppercase b \<longleftrightarrow> 0x41 \<le> unat b \<and> unat b \<le> 0x5A"

definition is_ascii_lowercase :: "byte \<Rightarrow> bool" where
  "is_ascii_lowercase b \<longleftrightarrow> 0x61 \<le> unat b \<and> unat b \<le> 0x7A"

definition to_ascii_lowercase :: "byte \<Rightarrow> byte" where
  "to_ascii_lowercase b = (if is_ascii_uppercase b then b + 0x20 else b)"

definition to_ascii_uppercase :: "byte \<Rightarrow> byte" where
  "to_ascii_uppercase b = (if is_ascii_lowercase b then b - 0x20 else b)"

definition ascii_case :: "letter_case \<Rightarrow> byte \<Rightarrow> byte" where
  "ascii_case c b = (case c of Lower \<Rightarrow> to_ascii_lowercase b | Upper \<Rightarrow> to_ascii_uppercase b)"

section \<open>Scanning\<close>

definition count_while :: "(byte \<Rightarrow> bool) \<Rightarrow> byte list \<Rightarrow> nat" where
  "count_while pred bytes = length (takeWhile pred bytes)"

text \<open>Every byte is examined and the answers are summed in a \<open>u8\<close>.\<close>

definition all_bytes :: "byte list \<Rightarrow> (byte \<Rightarrow> bool) \<Rightarrow> bool" where
  "all_bytes chunk pred \<longleftrightarrow>
    unat (sum_list (map (\<lambda>b. if pred b then 1 else (0 :: byte)) chunk)) = CHUNK_SIZE"

function prefix_len_from :: "(byte \<Rightarrow> bool) \<Rightarrow> nat \<Rightarrow> byte list \<Rightarrow> nat" where
  "prefix_len_from pred len bytes =
    (if length bytes < CHUNK_SIZE then len + count_while pred bytes
     else if \<not> all_bytes (take CHUNK_SIZE bytes) pred then len + count_while pred (take CHUNK_SIZE bytes)
     else prefix_len_from pred (len + CHUNK_SIZE) (drop CHUNK_SIZE bytes))"
  by pat_completeness auto

termination
  by (relation "measure (\<lambda>(_, _, bytes). length bytes)") (auto simp: CHUNK_SIZE_def)

declare prefix_len_from.simps [simp del]

definition prefix_len_while :: "byte list \<Rightarrow> (byte \<Rightarrow> bool) \<Rightarrow> nat" where
  "prefix_len_while bytes pred = prefix_len_from pred 0 bytes"

definition byte_changes :: "byte \<Rightarrow> letter_case \<Rightarrow> bool" where
  "byte_changes b c = (case c of Lower \<Rightarrow> is_ascii_uppercase b | Upper \<Rightarrow> is_ascii_lowercase b)"

definition map_char :: "unicode \<Rightarrow> letter_case \<Rightarrow> uchar \<Rightarrow> uchar list" where
  "map_char u c ch = (case c of Lower \<Rightarrow> to_lower u ch | Upper \<Rightarrow> to_upper u ch)"

definition char_changes :: "unicode \<Rightarrow> uchar \<Rightarrow> letter_case \<Rightarrow> bool" where
  "char_changes u ch c \<longleftrightarrow> (case c of Lower \<Rightarrow> to_lower u ch \<noteq> [ch] | Upper \<Rightarrow> to_upper u ch \<noteq> [ch])"

definition split_at_unchecked :: "byte list \<Rightarrow> nat \<Rightarrow> byte list \<times> byte list" where
  "split_at_unchecked text mid = (take mid text, drop mid text)"

text \<open>\<^verbatim>\<open>char_indices().find(...)\<close>.\<close>

primrec find_char :: "(uchar \<Rightarrow> bool) \<Rightarrow> nat \<Rightarrow> uchar list \<Rightarrow> (nat \<times> uchar) option" where
  "find_char f i [] = None"
| "find_char f i (c # cs) = (if f c then Some (i, c) else find_char f (i + len_utf8 c) cs)"

definition split_at_first_change ::
  "unicode \<Rightarrow> byte list \<Rightarrow> letter_case \<Rightarrow> (byte list \<times> byte list) option"
where
  "split_at_first_change u text c =
    (let skipped = prefix_len_while text (\<lambda>b. is_ascii b \<and> \<not> byte_changes b c);
         rest = drop skipped text in
     case find_char (\<lambda>ch. char_changes u ch c) 0 (chars rest) of
       None \<Rightarrow> None
     | Some (off, _) \<Rightarrow> Some (split_at_unchecked text (skipped + off)))"

definition split_at_first_ascii_change :: "byte list \<Rightarrow> letter_case \<Rightarrow> (byte list \<times> byte list) option" where
  "split_at_first_ascii_change text c =
    (let mid = prefix_len_while text (\<lambda>b. \<not> byte_changes b c) in
     if mid = length text then None else Some (split_at_unchecked text mid))"

definition split_ascii_prefix :: "byte list \<Rightarrow> byte list \<times> byte list" where
  "split_ascii_prefix text =
    (let mid = prefix_len_while text is_ascii in split_at_unchecked text mid)"

section \<open>The scan is \<open>takeWhile\<close>\<close>

lemma sum_answers:
  "length chunk < 256 \<Longrightarrow>
    unat (sum_list (map (\<lambda>b. if pred b then 1 else (0 :: byte)) chunk)) = length (filter pred chunk)"
proof (induction chunk)
  case (Cons b chunk)
  have "length (filter pred chunk) < 255"
    using Cons.prems by (intro le_less_trans [OF length_filter_le]) simp
  with Cons show ?case by (auto simp: unat_word_ariths)
qed simp

lemma all_bytes_iff: "length chunk = CHUNK_SIZE \<Longrightarrow> all_bytes chunk pred \<longleftrightarrow> (\<forall>b \<in> set chunk. pred b)"
  using sum_answers [of chunk pred]
  by (auto simp: all_bytes_def CHUNK_SIZE_def) (metis filter_True length_filter_less less_irrefl)

lemma prefix_len_from_eq: "prefix_len_from pred len bytes = len + length (takeWhile pred bytes)"
proof (induction pred len bytes rule: prefix_len_from.induct)
  case (1 pred len bytes)
  let ?a = "take CHUNK_SIZE bytes" and ?b = "drop CHUNK_SIZE bytes"
  have split: "takeWhile pred bytes = takeWhile pred (?a @ ?b)" by simp
  show ?case
  proof (cases "length bytes < CHUNK_SIZE")
    case True
    then show ?thesis by (subst prefix_len_from.simps) (simp add: count_while_def)
  next
    case False
    then have a: "length ?a = CHUNK_SIZE" by simp
    show ?thesis
    proof (cases "\<forall>b \<in> set ?a. pred b")
      case all: True
      then have "takeWhile pred bytes = ?a @ takeWhile pred ?b"
        unfolding split by (intro takeWhile_append2) blast
      with 1 [OF False] all a False show ?thesis
        by (subst prefix_len_from.simps) (simp add: all_bytes_iff)
    next
      case some: False
      then have "takeWhile pred bytes = takeWhile pred ?a"
        unfolding split by (metis takeWhile_append1)
      with some a False show ?thesis
        by (subst prefix_len_from.simps) (simp add: all_bytes_iff count_while_def)
    qed
  qed
qed

lemma prefix_len_while_eq: "prefix_len_while bytes pred = length (takeWhile pred bytes)"
  by (simp add: prefix_len_while_def prefix_len_from_eq)

lemma take_prefix_len: "take (prefix_len_while bytes pred) bytes = takeWhile pred bytes"
  unfolding prefix_len_while_eq by (rule takeWhile_eq_take [symmetric])

lemma drop_prefix_len: "drop (prefix_len_while bytes pred) bytes = dropWhile pred bytes"
  unfolding prefix_len_while_eq by (rule dropWhile_eq_drop [symmetric])

section \<open>Splitting at the first change\<close>

text \<open>An ASCII prefix and what follows it.\<close>

lemma ascii_prefix_char:
  assumes "valid_utf8 (b # xs)" "unat b < 0x80"
  shows "valid_utf8 xs" "chars (b # xs) = unat b # chars xs"
proof -
  have "valid_utf8 ([b] @ xs)" using assms(1) by simp
  moreover have b: "scalar (unat b)" "encode_utf8 (unat b) = [b]"
    using assms(2) by (simp_all add: scalar_ascii encode_utf8_ascii)
  then have "valid_utf8 [b]" by (metis valid_utf8_encode)
  ultimately show "valid_utf8 xs" by (metis valid_utf8_append_cancel)
  with b show "chars (b # xs) = unat b # chars xs"
    by (metis append_Cons append_Nil chars_encode_append)
qed

lemma ascii_prefix_chars:
  "valid_utf8 xs \<Longrightarrow> \<forall>b \<in> set xs. P b \<longrightarrow> unat b < 0x80 \<Longrightarrow>
    valid_utf8 (dropWhile P xs) \<and> valid_utf8 (takeWhile P xs) \<and>
    chars xs = map unat (takeWhile P xs) @ chars (dropWhile P xs)"
proof (induction xs)
  case (Cons b xs)
  show ?case
  proof (cases "P b")
    case True
    then have b: "unat b < 0x80" using Cons.prems(2) by simp
    note ih = Cons.IH [OF ascii_prefix_char(1) [OF Cons.prems(1) b]]
    have "valid_utf8 (takeWhile P (b # xs))"
      using Cons.prems(2) by (intro valid_utf8_ascii) (auto dest: set_takeWhileD)
    with ih True Cons.prems ascii_prefix_char [OF Cons.prems(1) b] show ?thesis by simp
  qed (use Cons in simp)
qed simp

text \<open>The documented facts about the case mappings.\<close>

definition ascii_code :: "letter_case \<Rightarrow> uchar \<Rightarrow> uchar" where
  "ascii_code c ch = unat (ascii_case c (byte_of ch))"

definition CAPITAL_SIGMA :: uchar where
  "CAPITAL_SIGMA = 0x3A3"

definition unicode_ok :: "unicode \<Rightarrow> bool" where
  "unicode_ok u \<longleftrightarrow>
    (\<forall>c ch. ch < 0x80 \<longrightarrow> map_char u c ch = [ascii_code c ch]) \<and>
    (\<forall>c ch. scalar ch \<longrightarrow> list_all scalar (map_char u c ch)) \<and>
    to_lower u CAPITAL_SIGMA \<noteq> [CAPITAL_SIGMA] \<and>
    (\<forall>xs. valid_utf8 xs \<longrightarrow> valid_utf8 (str_lower u xs)) \<and>
    (\<forall>xs. valid_utf8 xs \<longrightarrow> CAPITAL_SIGMA \<notin> set (chars xs) \<longrightarrow>
      str_lower u xs = str_of (concat (map (to_lower u) (chars xs))))"

lemma ascii_code_same: "unat b < 0x80 \<Longrightarrow> ascii_code c (unat b) = unat b \<longleftrightarrow> \<not> byte_changes b c"
  by (cases c) (auto simp: ascii_code_def ascii_case_def to_ascii_lowercase_def to_ascii_uppercase_def
      byte_changes_def is_ascii_uppercase_def is_ascii_lowercase_def unat_word_ariths
      unat_sub_if' split: if_splits)

lemma char_changes_ascii:
  "unicode_ok u \<Longrightarrow> unat b < 0x80 \<Longrightarrow> char_changes u (unat b) c \<longleftrightarrow> byte_changes b c"
proof -
  assume u: "unicode_ok u" and b: "unat b < 0x80"
  have "char_changes u (unat b) c \<longleftrightarrow> map_char u c (unat b) \<noteq> [unat b]"
    by (cases c) (simp_all add: char_changes_def map_char_def)
  with u b show ?thesis by (simp add: unicode_ok_def ascii_code_same)
qed

lemma find_char_None: "find_char f i cs = None \<longleftrightarrow> (\<forall>c \<in> set cs. \<not> f c)"
  by (induction cs arbitrary: i) auto

lemma find_char_Some:
  "find_char f i cs = Some (k, c) \<Longrightarrow>
    \<exists>as bs. cs = as @ c # bs \<and> f c \<and> (\<forall>a \<in> set as. \<not> f a) \<and> k = i + length (str_of as)"
proof (induction cs arbitrary: i)
  case (Cons a cs)
  show ?case
  proof (cases "f a")
    case True
    with Cons.prems show ?thesis by (intro exI [of _ "[]"] exI [of _ cs]) simp
  next
    case False
    with Cons.prems have "find_char f (i + len_utf8 a) cs = Some (k, c)" by simp
    from Cons.IH [OF this] obtain as bs where "cs = as @ c # bs" "f c" "\<forall>a \<in> set as. \<not> f a"
      "k = i + len_utf8 a + length (str_of as)" by blast
    with False show ?thesis by (intro exI [of _ "a # as"] exI [of _ bs]) simp
  qed
qed simp

text \<open>\<open>split_at_first_change\<close> finds the first character that the conversion changes, whatever
  the text starts with.\<close>

lemma split_at_first_change_None:
  assumes u: "unicode_ok u" and v: "valid_utf8 xs"
  shows "split_at_first_change u xs c = None \<longleftrightarrow> (\<forall>ch \<in> set (chars xs). \<not> char_changes u ch c)"
proof -
  let ?P = "\<lambda>b. is_ascii b \<and> \<not> byte_changes b c"
  have pre: "valid_utf8 (dropWhile ?P xs)"
    "chars xs = map unat (takeWhile ?P xs) @ chars (dropWhile ?P xs)"
    using ascii_prefix_chars [OF v, of ?P] by (auto simp: is_ascii_def)
  have "\<not> char_changes u ch c" if "ch \<in> set (map unat (takeWhile ?P xs))" for ch
    using that by (auto simp: char_changes_ascii [OF u] is_ascii_def dest!: set_takeWhileD)
  then show ?thesis
    using find_char_None [of "\<lambda>ch. char_changes u ch c" 0 "chars (dropWhile ?P xs)"]
    by (auto simp: split_at_first_change_def drop_prefix_len pre(2) Let_def split: option.split)
qed

lemma split_at_first_change_Some:
  assumes u: "unicode_ok u" and v: "valid_utf8 xs" and s: "split_at_first_change u xs c = Some (ys, zs)"
  shows "\<exists>as ch bs. chars xs = as @ ch # bs \<and> char_changes u ch c \<and>
    (\<forall>a \<in> set as. \<not> char_changes u a c) \<and> ys = str_of as \<and> zs = str_of (ch # bs)"
proof -
  let ?P = "\<lambda>b. is_ascii b \<and> \<not> byte_changes b c"
  let ?pre = "takeWhile ?P xs" and ?rest = "dropWhile ?P xs"
  have pre: "valid_utf8 ?rest" "valid_utf8 ?pre" "chars xs = map unat ?pre @ chars ?rest"
    using ascii_prefix_chars [OF v, of ?P] by (auto simp: is_ascii_def)
  have same: "\<not> char_changes u ch c" if "ch \<in> set (map unat ?pre)" for ch
    using that by (auto simp: char_changes_ascii [OF u] is_ascii_def dest!: set_takeWhileD)
  from s obtain k ch where k: "find_char (\<lambda>ch. char_changes u ch c) 0 (chars ?rest) = Some (k, ch)"
    "ys = take (length ?pre + k) xs" "zs = drop (length ?pre + k) xs"
    by (auto simp: split_at_first_change_def drop_prefix_len split_at_unchecked_def
        Let_def prefix_len_while_eq [of xs, symmetric] split: option.splits)
  from find_char_Some [OF k(1)] obtain as bs where f: "chars ?rest = as @ ch # bs" "char_changes u ch c"
    "\<forall>a \<in> set as. \<not> char_changes u a c" "k = length (str_of as)" by auto
  have all: "?pre @ ?rest = xs" by simp
  have asc: "str_of (map unat ?pre) = ?pre"
  proof -
    have "\<forall>b \<in> set ?pre. unat b < 0x80" by (auto simp: is_ascii_def dest!: set_takeWhileD)
    moreover have "str_of (map unat zs) = zs" if "\<forall>b \<in> set zs. unat b < 0x80" for zs
      using that by (induction zs) (simp_all add: encode_utf8_ascii)
    ultimately show ?thesis by blast
  qed
  have rest: "?rest = str_of as @ str_of (ch # bs)"
    using str_of_chars [OF pre(1)] by (simp add: f(1))
  have "xs = (?pre @ str_of as) @ str_of (ch # bs)" using all rest by simp
  then have "ys = ?pre @ str_of as" "zs = str_of (ch # bs)"
    using k(2,3) f(4) by (metis append_eq_conv_conj length_append)+
  moreover have "?pre @ str_of as = str_of (map unat ?pre @ as)" by (simp add: asc)
  ultimately have split: "ys = str_of (map unat ?pre @ as)" "zs = str_of (ch # bs)" by simp_all
  have "chars xs = (map unat ?pre @ as) @ ch # bs" using pre(3) f(1) by simp
  moreover have "\<forall>a \<in> set (map unat ?pre @ as). \<not> char_changes u a c" using same f(3) by auto
  ultimately show ?thesis using split f(2) by blast
qed

end
