(* ===== verification/ReprCase.thy ===== *)
theory ReprCase
  imports Sinks CaseScan
begin

text \<open>
  The case conversions of \<open>src/src/repr.rs\<close>: \<open>to_ascii_case\<close> and \<open>make_ascii_case\<close> on bytes,
  \<open>to_case\<close> on characters. Nothing is copied or written when nothing changes.
\<close>

section \<open>Definitions\<close>

text \<open>The closure that fills the new buffer: the unchanged bytes, then the mapped ones one at a
  time.\<close>

primrec write_case ::
  "letter_case \<Rightarrow> byte list \<Rightarrow> nat \<Rightarrow> byte option list \<Rightarrow> ('s, byte option list) prog"
where
  "write_case c [] off dst = ret dst"
| "write_case c (b # bs) off dst =
    bind (assert_unchecked (off < length dst)) (\<lambda>_.
    write_case c bs (Suc off) (dst[off := Some (ascii_case c b)]))"

definition ascii_case_init ::
  "letter_case \<Rightarrow> byte list \<Rightarrow> byte list \<Rightarrow> byte option list \<Rightarrow> ('s, byte option list) prog"
where
  "ascii_case_init c unchanged changed dst =
    bind (assert_unchecked (length unchanged \<le> length dst)) (\<lambda>_.
    write_case c changed (length unchanged) (overwrite dst 0 (map Some unchanged)))"

definition to_ascii_case :: "target \<Rightarrow> header \<Rightarrow> repr \<Rightarrow> letter_case \<Rightarrow> ('r st, repr) prog" where
  "to_ascii_case t h r c =
    bind (as_str t h r) (\<lambda>text.
    case split_at_first_ascii_change text c of
      None \<Rightarrow> make_shallow_clone t h r
    | Some (unchanged, changed) \<Rightarrow>
        new_with t h (length text) (ascii_case_init c unchanged changed))"

definition make_ascii_case :: "target \<Rightarrow> letter_case \<Rightarrow> (repr st, unit) prog" where
  "make_ascii_case t c =
    bind (gets self) (\<lambda>r.
    bind (is_modifiable t r) (\<lambda>modifiable.
    if \<not> modifiable then
      bind (to_ascii_case t Mutable r c) (\<lambda>mapped. replace_inner t Mutable mapped)
    else
      bind (repr_len t Mutable r) (\<lambda>len.
      bind (as_mut_ptr t) (\<lambda>ptr.
      bind (place_read ptr 0 len) (\<lambda>bytes.
      place_write t ptr 0 (map (ascii_case c) bytes))))))"

primrec place_write_case :: "target \<Rightarrow> place \<Rightarrow> letter_case \<Rightarrow> byte list \<Rightarrow> nat \<Rightarrow> (repr st, unit) prog" where
  "place_write_case t dst c [] off = ret ()"
| "place_write_case t dst c (b # bs) off =
    bind (place_write t dst off [ascii_case c b]) (\<lambda>_. place_write_case t dst c bs (Suc off))"

definition to_case_start :: "target \<Rightarrow> letter_case \<Rightarrow> byte list \<Rightarrow> byte list \<Rightarrow> (repr st, unit) prog" where
  "to_case_start t c unchanged ascii =
    bind (as_mut_ptr t) (\<lambda>dst.
    bind (place_write t dst 0 unchanged) (\<lambda>_.
    bind (place_write_case t dst c ascii (length unchanged)) (\<lambda>_.
    set_len t (length unchanged + length ascii))))"

primrec to_case_rest ::
  "target \<Rightarrow> unicode \<Rightarrow> letter_case \<Rightarrow> byte list \<Rightarrow> uchar list \<Rightarrow> repr \<Rightarrow> (repr st, repr option) prog"
where
  "to_case_rest t u case' text [] mapped = ret (Some mapped)"
| "to_case_rest t u case' text (c # cs) mapped =
    (if case' = Lower \<and> c = CAPITAL_SIGMA then
       bind (drop_in t Mutable mapped) (\<lambda>_.
       bind (from_str t Mutable (str_lower u text)) (\<lambda>r. ret (Some r)))
     else
       bind (with_local mapped (attempt (for_each (map_char u case' c) (push_char t)))) (\<lambda>(pushed, mapped).
       case pushed of
         None \<Rightarrow> bind (drop_in t Mutable mapped) (\<lambda>_. fail)
       | Some _ \<Rightarrow> to_case_rest t u case' text cs mapped))"

definition to_case :: "target \<Rightarrow> unicode \<Rightarrow> byte list \<Rightarrow> letter_case \<Rightarrow> (repr st, repr option) prog" where
  "to_case t u text c =
    (case split_at_first_change u text c of
       None \<Rightarrow> ret None
     | Some (unchanged, changed) \<Rightarrow>
         let (ascii, rest) = split_ascii_prefix changed in
         bind (repr_with_capacity t (length text)) (\<lambda>mapped.
         bind (with_local mapped (to_case_start t c unchanged ascii)) (\<lambda>(_, mapped).
         to_case_rest t u c text (chars rest) mapped)))"

section \<open>Bytes\<close>

lemma ascii_case_id: "\<not> byte_changes b c \<Longrightarrow> ascii_case c b = b"
  by (cases c) (simp_all add: ascii_case_def to_ascii_lowercase_def to_ascii_uppercase_def byte_changes_def)

lemma ascii_case_changes: "byte_changes b c \<Longrightarrow> ascii_case c b \<noteq> b"
  by (cases c) (auto simp: ascii_case_def to_ascii_lowercase_def to_ascii_uppercase_def byte_changes_def
      diff_eq_eq)

lemma ascii_case_ascii: "unat b < 0x80 \<Longrightarrow> unat (ascii_case c b) < 0x80"
  by (cases c) (auto simp: ascii_case_def to_ascii_lowercase_def to_ascii_uppercase_def
      is_ascii_uppercase_def is_ascii_lowercase_def unat_word_ariths unat_sub_if' split: if_splits)

lemma ascii_case_high: "0x80 \<le> unat b \<Longrightarrow> ascii_case c b = b"
  by (rule ascii_case_id) (cases c; simp add: byte_changes_def is_ascii_uppercase_def is_ascii_lowercase_def)

lemma encode_utf8_high: "scalar ch \<Longrightarrow> 0x80 \<le> ch \<Longrightarrow> b \<in> set (encode_utf8 ch) \<Longrightarrow> 0x80 \<le> unat b"
  using scalar_less [of ch] by (auto simp: encode_utf8_def unat_byte_of split: if_splits)

definition ascii_char_case :: "letter_case \<Rightarrow> uchar \<Rightarrow> uchar" where
  "ascii_char_case c ch = (if ch < 0x80 then ascii_code c ch else ch)"

lemma ascii_case_encode:
  assumes "scalar ch"
  shows "scalar (ascii_char_case c ch)"
    "map (ascii_case c) (encode_utf8 ch) = encode_utf8 (ascii_char_case c ch)"
proof -
  have b: "unat (ascii_case c (byte_of ch)) < 0x80" if "ch < 0x80"
    using that by (intro ascii_case_ascii) (simp add: unat_byte_of)
  then show "scalar (ascii_char_case c ch)"
    using assms by (auto simp: ascii_char_case_def ascii_code_def intro: scalar_ascii)
  show "map (ascii_case c) (encode_utf8 ch) = encode_utf8 (ascii_char_case c ch)"
  proof (cases "ch < 0x80")
    case True
    with b show ?thesis
      by (simp add: ascii_char_case_def ascii_code_def encode_utf8_ascii) (simp add: encode_utf8_def)
  next
    case False
    then show ?thesis
      using encode_utf8_high [OF assms] by (auto simp: ascii_char_case_def intro!: map_idI ascii_case_high)
  qed
qed

text \<open>Mapping the bytes maps the characters, so the text stays valid.\<close>

lemma ascii_case_str_of:
  "\<forall>ch \<in> set cs. scalar ch \<Longrightarrow> map (ascii_case c) (str_of cs) = str_of (map (ascii_char_case c) cs)"
  by (induction cs) (simp_all add: ascii_case_encode)

lemma valid_ascii_case: "valid_utf8 xs \<Longrightarrow> valid_utf8 (map (ascii_case c) xs)"
  by (elim valid_utf8E) (simp add: ascii_case_str_of ascii_case_encode)

lemma chars_ascii_case: "valid_utf8 xs \<Longrightarrow> chars (map (ascii_case c) xs) = map (ascii_char_case c) (chars xs)"
  by (elim valid_utf8E) (simp add: ascii_case_str_of ascii_case_encode)

lemma split_at_first_ascii_change_None:
  "split_at_first_ascii_change xs c = None \<Longrightarrow> map (ascii_case c) xs = xs"
  by (auto simp: split_at_first_ascii_change_def prefix_len_while_eq Let_def split: if_splits
      intro!: map_idI ascii_case_id) (metis set_takeWhileD takeWhile_eq_take take_all order_refl)

lemma split_at_first_ascii_change_Some:
  assumes "split_at_first_ascii_change xs c = Some (ys, zs)"
  shows "xs = ys @ zs" "map (ascii_case c) ys = ys" "map (ascii_case c) xs \<noteq> xs"
proof -
  from assms have "length (takeWhile (\<lambda>b. \<not> byte_changes b c) xs) \<noteq> length xs"
    by (auto simp: split_at_first_ascii_change_def prefix_len_while_eq Let_def split: if_splits)
  then obtain b where b: "b \<in> set xs" "byte_changes b c" by (metis takeWhile_eq_all_conv)
  from b(2) have "ascii_case c b \<noteq> b" by (rule ascii_case_changes)
  with b(1) show "map (ascii_case c) xs \<noteq> xs" by (metis map_eq_conv map_ident)
  from assms have "ys = takeWhile (\<lambda>b. \<not> byte_changes b c) xs" "zs = dropWhile (\<lambda>b. \<not> byte_changes b c) xs"
    by (auto simp: split_at_first_ascii_change_def split_at_unchecked_def take_prefix_len drop_prefix_len
        Let_def split: if_splits)
  then show "xs = ys @ zs" "map (ascii_case c) ys = ys"
    by (auto intro!: map_idI ascii_case_id dest!: set_takeWhileD)
qed

section \<open>ASCII conversion\<close>

lemma write_case_eq:
  "off + length bs \<le> length dst \<Longrightarrow>
    write_case c bs off dst = ret (overwrite dst off (map Some (map (ascii_case c) bs)))"
proof (induction bs arbitrary: off dst)
  case (Cons b bs)
  have "overwrite (dst[off := x]) (Suc off) zs = overwrite dst off (x # zs)"
    if "off < length dst" for x and zs :: "byte option list"
    using that by (simp add: overwrite_def take_Suc_conv_app_nth)
  with Cons show ?case by (simp add: assert_unchecked_def)
qed simp

lemma ascii_case_init_eq:
  "length dst = length (ys @ zs) \<Longrightarrow> map (ascii_case c) ys = ys \<Longrightarrow>
    ascii_case_init c ys zs dst = ret (map Some (map (ascii_case c) (ys @ zs)))"
  by (simp add: ascii_case_init_def write_case_eq assert_unchecked_def)
    (simp add: overwrite_def)

lemma sound_to_ascii_case:
  assumes snd: "sound t R s" and r: "(h, r, xs) \<in># R"
  shows "wp (to_ascii_case t h r c)
    (\<lambda>r' s'. sound t (add_mset (h, r', map (ascii_case c) xs) R) s' \<and> mem_only s s' \<and>
      (map (ascii_case c) xs = xs \<longrightarrow> r' = r \<and> calls s' = calls s))
    (\<lambda>s'. sound t R s' \<and> mem_only s s' \<and> map (ascii_case c) xs \<noteq> xs \<and> refused t h (length xs) s s')
    (\<lambda>s'. s' = s \<and> map (ascii_case c) xs = xs \<and> count_limit t R r) s"
    (is "wp _ ?Q ?E ?P s")
proof (cases "split_at_first_ascii_change xs c")
  case None
  have same: "map (ascii_case c) xs = xs" using split_at_first_ascii_change_None [OF None] .
  have "wp (make_shallow_clone t h r) ?Q ?E ?P s"
    by (rule wp_mono [OF sound_make_shallow_clone [OF assms]]) (simp_all add: same)
  with None show ?thesis by (simp add: to_ascii_case_def sound_as_str [OF assms])
next
  case (Some p)
  obtain ys zs where p: "p = (ys, zs)" by (cases p)
  note split = split_at_first_ascii_change_Some [OF Some [unfolded p]]
  let ?ws = "map (ascii_case c) xs"
  have changed: "?ws \<noteq> xs" by (rule split(3))
  have v: "valid_utf8 ?ws" using sound_valid [OF assms] by (rule valid_ascii_case)
  have init: "ascii_case_init c ys zs d = ret (map Some ?ws)" if "length d = length ?ws" for d
    using ascii_case_init_eq [of d ys zs c] split that by simp
  have "wp (new_with t h (length ?ws) (ascii_case_init c ys zs)) ?Q ?E ?P s"
    by (rule wp_mono [OF sound_new_with [OF snd v init]]) (use changed in simp_all)
  with Some p show ?thesis by (simp add: to_ascii_case_def sound_as_str [OF assms])
qed

text \<open>In place: the value has the same length and stays where it is.\<close>

lemma holds_rewrite:
  assumes h: "holds t R xs s" and m: "modifiable R (self s)" and v: "valid_utf8 (map f xs)"
  shows "wp (as_mut_ptr t) (\<lambda>ptr. wp (place_read ptr 0 (length xs))
      (\<lambda>bytes. wp (place_write t ptr 0 (map f bytes)) (\<lambda>_ s'. edited t R (map f xs) s s') E P) E P) E P s"
  using h
proof (cases rule: holds_cases)
  case (inline B)
  have n: "length xs \<le> length B" "length B = MAX_INLINE_SIZE t" "take (length xs) B = xs"
    using inline(2) by (auto simp: inline_holds_def)
  let ?B = "overwrite B 0 (map f xs)"
  have "last ?B = last B" if "length xs < length B"
    using that by (simp add: overwrite_def last_drop)
  then have "inline_holds t ?B (map f xs)"
    using inline(2) by (auto simp: inline_holds_def overwrite_def)
  then have "edited t R (map f xs) s (s\<lparr>self := repr_of_inline t ?B\<rparr>)"
    using inline(4) v by (auto simp: edited_def intro: holds_inline)
  with inline n show ?thesis
    by (simp add: as_mut_ptr_def debug_assert_run_def place_read_def place_write_def wp_self_bytes
        window_0 set_self_def)
next
  case (static sb)
  with m show ?thesis by (auto simp: modifiable_def static_holds_def)
next
  case (heap H hb b v)
  have one: "vcount v = 1" using owns_count(1) [OF heap(6,5)] heap(8) m by (simp add: modifiable_def alone_def)
  have ok: "view_ok t v" using heap_rep_ok [OF heap(4,5)] .
  have le: "length xs \<le> vcap v" using buf_holds_le_cap [OF heap(2) ok] .
  let ?v = "v\<lparr>vdata := overwrite (vdata v) 0 (map Some (map f xs))\<rparr>"
  have v': "blocks s b = Some (view_block t v)" "hptr hb = HeapPtr b (data_off t v)"
    using heap(7) by (simp_all add: live_def)
  have ok': "view_ok t ?v" and data: "length (vdata v) = vcap v" using ok le by (simp_all add: view_ok_def)
  have "take (length xs) (overwrite (vdata v) 0 (map Some (map f xs))) = map Some (map f xs)"
    by (simp add: overwrite_def)
  then have B: "buf_holds t Mutable hb b ?v (map f xs)" using heap(2) by (simp add: buf_holds_def)
  have "sound t (add_mset (Mutable, repr_of_heap t hb, map f xs) R) (put_view t b ?v s)"
    using one v by (intro sound_put_unique [OF heap(4) heap(6) [unfolded heap(1)] heap(5) one ok' _ B]) simp_all
  then have "edited t R (map f xs) s (put_view t b ?v s)"
    using heap(1) by (simp add: edited_def holds_def later_def)
  moreover have "window (view_bytes t v) (data_off t v) (length xs) = map Some xs"
    using view_data_window [OF ok, of 0 "length xs"] heap(2) by (simp add: window_0 buf_holds_def)
  ultimately show ?thesis
    using heap(1,3,7) one le v' data ok data_off_le [OF ok]
      view_data_overwrite [OF ok, of 0 "map Some (map f xs)"]
    by (simp add: as_mut_ptr_def debug_assert_run_def wp_heap_is_unique [OF heap(7)] place_read_def
        place_write_def put_view_def) (simp add: repr_of_heap_def)
qed

lemma holds_make_ascii_case:
  assumes h: "holds t R xs s"
  shows "wp (make_ascii_case t c) (\<lambda>_ s'. edited t R (map (ascii_case c) xs) s s')
    (\<lambda>s'. rejected t R xs (length xs) s s' \<and> map (ascii_case c) xs \<noteq> xs \<and> \<not> modifiable R (self s))
    (\<lambda>s'. s' = s \<and> map (ascii_case c) xs = xs \<and> count_limit t (add_mset (Mutable, self s, xs) R) (self s)) s"
    (is "wp _ ?Q ?E ?P s")
proof (cases "modifiable R (self s)")
  case True
  have v: "valid_utf8 (map (ascii_case c) xs)" using holds_valid [OF h] by (rule valid_ascii_case)
  from True holds_rewrite [OF h True v] show ?thesis
    by (simp add: make_ascii_case_def holds_is_modifiable [OF h] holds_repr_len [OF h])
next
  case False
  have snd: "sound t (add_mset (Mutable, self s, xs) R) s" using h by (simp add: holds_def)
  have "wp (to_ascii_case t Mutable (self s) c) (\<lambda>r. wp (replace_inner t Mutable r) ?Q ?E ?P) ?E ?P s"
  proof (rule wp_mono [OF sound_to_ascii_case [OF snd, of Mutable "self s" xs]])
    fix r s1
    assume s1: "sound t (add_mset (Mutable, r, map (ascii_case c) xs) (add_mset (Mutable, self s, xs) R)) s1 \<and>
      mem_only s s1 \<and> (map (ascii_case c) xs = xs \<longrightarrow> r = self s \<and> calls s1 = calls s)"
    then have eq: "self s1 = self s" "later s s1" by (auto simp: mem_only_def later_def)
    with s1 have "sound t (add_mset (Mutable, r, map (ascii_case c) xs) (add_mset (Mutable, self s1, xs) R)) s1"
      by simp
    from holds_replace_inner [OF this] show "wp (replace_inner t Mutable r) ?Q ?E ?P s1"
      by (rule wp_mono) (use eq in \<open>auto simp: edited_def intro: later_trans\<close>)
  qed (use h False in \<open>auto simp: rejected_def holds_def mem_only_def later_def\<close>)
  with False show ?thesis by (simp add: make_ascii_case_def holds_is_modifiable [OF h])
qed

section \<open>A new buffer\<close>

text \<open>A new empty buffer with room for \<open>n\<close> bytes.\<close>

lemma sound_with_capacity:
  fixes s :: "repr st"
  assumes "sound t R s"
  shows "wp (repr_with_capacity t n)
    (\<lambda>r s'. sound t (add_mset (Mutable, r, []) R) s' \<and> mem_only s s' \<and> modifiable R r \<and>
      has_capacity t (s'\<lparr>self := r\<rparr>) (max n (MAX_INLINE_SIZE t)))
    (\<lambda>s'. sound t R s' \<and> mem_only s s' \<and> refused t Mutable n s s' \<and> MAX_INLINE_SIZE t < n) P s"
proof (cases "n \<le> MAX_INLINE_SIZE t")
  case True
  have "has_capacity t (s\<lparr>self := repr_of_inline t (inline_bytes t [])\<rparr>) (MAX_INLINE_SIZE t)"
    by (intro capacity_inline [of t "inline_bytes t []"] inline_word_inline_bytes) simp_all
  with True sound_repr_new [OF assms, where h = Mutable] show ?thesis
    by (simp add: repr_with_capacity_def repr_new_eq max_absorb2 mem_only_def)
next
  case False
  let ?hb = "new_buf t Mutable n [] s" and ?v = "new_view t Mutable n []"
  have "has_capacity t ((add_view t ?v s)\<lparr>self := repr_of_heap t ?hb\<rparr>) n" "heap_word t ?hb"
    if fits: "fits t Mutable n"
  proof -
    have B: "buf_holds t Mutable ?hb (next_id s) ?v []" by (rule buf_holds_new_view) simp_all
    show w: "heap_word t ?hb" using B by (rule buf_holds_word)
    have "live t ((add_view t ?v s)\<lparr>self := repr_of_heap t ?hb\<rparr>) Mutable ?hb (next_id s) ?v"
      using B fits by (simp add: live_def buf_holds_def add_view_def)
    from capacity_heap [OF this w] show "has_capacity t ((add_view t ?v s)\<lparr>self := repr_of_heap t ?hb\<rparr>) n"
      by simp
  qed
  with False sound_add_heap [OF assms, of Mutable n "[]"] assms show ?thesis
    by (simp add: repr_with_capacity_def wp_heap_with_capacity max_absorb1)
qed

section \<open>The start of \<open>to_case\<close>\<close>

lemma editing_write_case:
  assumes "editing t R pl d s" "off + length bs \<le> length d"
    and "\<And>s'. editing t R pl (overwrite d off (map Some (map (ascii_case c) bs))) s' \<Longrightarrow> later s s' \<Longrightarrow> Q () s'"
  shows "wp (place_write_case t pl c bs off) Q E P s"
  using assms
proof (induction bs arbitrary: off d s)
  case Nil
  then show ?case by simp
next
  case (Cons b bs)
  have step: "overwrite (overwrite d off [x]) (Suc off) zs = overwrite d off (x # zs)"
    if "off < length d" for x and zs :: "byte option list"
    using that by (simp add: overwrite_def add.commute)
  show ?case
  proof (simp, rule editing_write [OF Cons.prems(1)])
    fix s1 assume s1: "editing t R pl (overwrite d off (map Some [ascii_case c b])) s1" "later s s1"
    show "wp (place_write_case t pl c bs (Suc off)) Q E P s1"
    proof (rule Cons.IH [OF s1(1)])
      fix s2 assume "editing t R pl (overwrite (overwrite d off (map Some [ascii_case c b])) (Suc off)
          (map Some (map (ascii_case c) bs))) s2" "later s1 s2"
      with Cons.prems(2) step s1(2) show "Q () s2"
        by (intro Cons.prems(3)) (auto intro: later_trans)
    qed (use Cons.prems(2) in simp)
  qed (use Cons.prems(2) in simp)
qed

lemma holds_to_case_start:
  assumes h: "holds t R [] s" and m: "modifiable R (self s)" and c: "has_capacity t s cap"
    and n: "length ys + length as \<le> cap" and v: "valid_utf8 (ys @ map (ascii_case c) as)"
  shows "wp (to_case_start t c ys as) (\<lambda>_ s'. edited t R (ys @ map (ascii_case c) as) s s') E P s"
proof (simp add: to_case_start_def, rule holds_as_mut_ptr [OF h m c])
  fix pl d
  assume e: "editing t R pl d s" "length d = cap" "tail_ok pl d"
  let ?d1 = "overwrite d 0 (map Some ys)"
  let ?d2 = "overwrite ?d1 (length ys) (map Some (map (ascii_case c) as))"
  show "wp (place_write t pl 0 ys)
    (\<lambda>_. wp (place_write_case t pl c as (length ys))
      (\<lambda>_. wp (set_len t (length ys + length as)) (\<lambda>_. edited t R (ys @ map (ascii_case c) as) s) E P) E P) E P s"
  proof (rule editing_write [OF e(1)])
    fix s1 assume s1: "editing t R pl ?d1 s1" "later s s1"
    show "wp (place_write_case t pl c as (length ys))
      (\<lambda>_. wp (set_len t (length ys + length as)) (\<lambda>_. edited t R (ys @ map (ascii_case c) as) s) E P) E P s1"
    proof (rule editing_write_case [OF s1(1)])
      fix s2 assume s2: "editing t R pl ?d2 s2" "later s1 s2"
      show "wp (set_len t (length ys + length as)) (\<lambda>_. edited t R (ys @ map (ascii_case c) as) s) E P s2"
      proof (rule finish_edit [OF s2(1)])
        show "later s s2" using s1(2) s2(2) by (rule later_trans)
        show "take (length ys + length as) ?d2 = map Some (ys @ map (ascii_case c) as)"
          using e(2) n by (simp add: overwrite_def)
        show "tail_ok pl ?d2" if "length ys + length as < length ?d2"
          using that e(2,3) n by (intro tail_ok_overwrite) simp_all
      qed (use e(2) n v in simp_all)
    qed (use e(2) n in simp)
  qed (use e(2) n in simp)
qed

section \<open>The rest of \<open>to_case\<close>\<close>

text \<open>The text that the conversion leads to.\<close>

definition case_text :: "unicode \<Rightarrow> letter_case \<Rightarrow> byte list \<Rightarrow> byte list" where
  "case_text u c text = (case c of
     Lower \<Rightarrow> str_lower u text
   | Upper \<Rightarrow> str_of (concat (map (to_upper u) (chars text))))"

definition cased :: "target \<Rightarrow> owner multiset \<Rightarrow> byte list \<Rightarrow> repr st \<Rightarrow> repr option \<Rightarrow> repr st \<Rightarrow> bool" where
  "cased t R ys s res s' \<longleftrightarrow>
    (\<exists>r. res = Some r \<and> sound t (add_mset (Mutable, r, ys) R) s' \<and> mem_only s s')"

lemma cased_from: "cased t R ys s1 res s' \<Longrightarrow> mem_only s s1 \<Longrightarrow> cased t R ys s res s'"
  by (auto simp: cased_def intro: mem_only_trans)

lemma wp_to_case_rest:
  assumes u: "unicode_ok u" and tv: "valid_utf8 text" and low: "c = Lower \<Longrightarrow> length (str_lower u text) \<le> n"
    and "sound t (add_mset (Mutable, m, xs) R) s" "\<forall>ch \<in> set cs. scalar ch"
    and "length xs + length (str_of (concat (map (map_char u c) cs))) \<le> n"
  shows "wp (to_case_rest t u c text cs m)
    (cased t R (if c = Lower \<and> CAPITAL_SIGMA \<in> set cs then str_lower u text
      else xs @ str_of (concat (map (map_char u c) cs))) s) (gave_up t R n s) P s"
  using assms(4-6)
proof (induction cs arbitrary: m xs s)
  case Nil
  then show ?case by (auto simp: cased_def mem_only_def)
next
  case (Cons ch cs)
  let ?ys = "if c = Lower \<and> CAPITAL_SIGMA \<in> set (ch # cs) then str_lower u text
      else xs @ str_of (concat (map (map_char u c) (ch # cs)))"
  define zs where "zs = ?ys"
  have drop: "wp (drop_in t Mutable r)
      (\<lambda>_ s'. sound t R s' \<and> mem_only s1 s' \<and> calls s' = calls s1 \<and> keeps r s1 s') E P s1"
    if "sound t (add_mset (Mutable, r, zs) R) s1" for r zs s1 E
    using that by (rule sound_drop_in)
  show ?case
  proof (cases "c = Lower \<and> ch = CAPITAL_SIGMA")
    case True
    have v: "valid_utf8 (str_lower u text)" using u tv by (simp add: unicode_ok_def)
    have "wp (drop_in t Mutable m) (\<lambda>_. wp (from_str t Mutable (str_lower u text))
      (\<lambda>r. cased t R ?ys s (Some r)) (gave_up t R n s) P) (gave_up t R n s) P s"
    proof (rule wp_mono [OF drop [OF Cons.prems(1)]])
      fix x s1 assume "sound t R s1 \<and> mem_only s s1 \<and> calls s1 = calls s \<and> keeps m s s1"
      then have s1: "sound t R s1" "mem_only s s1" by simp_all
      show "wp (from_str t Mutable (str_lower u text)) (\<lambda>r. cased t R ?ys s (Some r)) (gave_up t R n s) P s1"
      proof (rule wp_mono [OF sound_from_str [OF s1(1) v]])
        show "gave_up t R n s s'" if "sound t R s' \<and> mem_only s1 s' \<and> MAX_INLINE_SIZE t < length (str_lower u text) \<and>
          refused t Mutable (length (str_lower u text)) s1 s'" for s'
          by (rule gave_up_from [OF _ order_refl s1(2)])
            (use that True low in \<open>auto intro: gave_upI\<close>)
      qed (use True s1(2) in \<open>auto simp: cased_def intro: mem_only_trans\<close>)
    qed
    with True show ?thesis by simp
  next
    case False
    have sc: "list_all scalar (map_char u c ch)" using u Cons.prems(2) by (simp add: unicode_ok_def)
    have h: "holds t R xs (s\<lparr>self := m\<rparr>)" using Cons.prems(1) by (simp add: holds_local)
    have n: "length xs + length (str_of (map_char u c ch)) \<le> n"
      "length (xs @ str_of (map_char u c ch)) + length (str_of (concat (map (map_char u c) cs))) \<le> n"
      using Cons.prems(3) by simp_all
    let ?Q = "cased t R ?ys s" and ?E = "gave_up t R n s"
    have "wp (for_each (map_char u c ch) (push_char t))
      (\<lambda>_ s1. wp (to_case_rest t u c text cs (self s1)) ?Q ?E P (s1\<lparr>self := self s\<rparr>))
      (\<lambda>s1. wp (drop_in t Mutable (self s1)) (\<lambda>_. ?E) ?E P (s1\<lparr>self := self s\<rparr>))
      (\<lambda>s1. P (s1\<lparr>self := self s\<rparr>)) (s\<lparr>self := m\<rparr>)"
    proof (rule wp_mono [OF repr_chars.push_chars [OF h sc n(1)]])
      fix x s1 assume s1: "holds t R (xs @ str_of (map_char u c ch)) s1 \<and> later (s\<lparr>self := m\<rparr>) s1"
      then have snd: "sound t (add_mset (Mutable, self s1, xs @ str_of (map_char u c ch)) R) (s1\<lparr>self := self s\<rparr>)"
        and mem: "mem_only s (s1\<lparr>self := self s\<rparr>)"
        by (simp_all add: edited_def holds_def later_mem_only)
      show "wp (to_case_rest t u c text cs (self s1)) ?Q ?E P (s1\<lparr>self := self s\<rparr>)"
        by (rule wp_mono [OF Cons.IH [OF snd _ n(2)]])
          (use False Cons.prems(2) mem in \<open>auto intro: cased_from gave_up_from\<close>)
    next
      fix s1 assume s1: "stuck t R n (s\<lparr>self := m\<rparr>) s1"
      show "wp (drop_in t Mutable (self s1)) (\<lambda>_. ?E) ?E P (s1\<lparr>self := self s\<rparr>)"
        by (rule stuck_drop_local [OF s1])
    qed simp
    then show ?thesis
      unfolding zs_def [symmetric] by (simp add: False wp_with_local case_prod_beta)
  qed
qed

section \<open>The whole of \<open>to_case\<close>\<close>

lemma str_of_ascii_case:
  assumes "unicode_ok u" "\<forall>b \<in> set bs. unat b < 0x80"
  shows "str_of (concat (map (map_char u c) (map unat bs))) = map (ascii_case c) bs"
  using assms(2)
proof (induction bs)
  case (Cons b bs)
  have "map_char u c (unat b) = [unat (ascii_case c b)]"
    using assms(1) Cons.prems by (simp add: unicode_ok_def ascii_code_def)
  with Cons show ?case by (simp add: encode_utf8_ascii ascii_case_ascii)
qed simp

lemma concat_unchanged:
  "\<forall>a \<in> set as. \<not> char_changes u a c \<Longrightarrow> concat (map (map_char u c) as) = as"
  by (induction as) (auto simp: char_changes_def map_char_def split: letter_case.splits)

lemma sigma_changes: "unicode_ok u \<Longrightarrow> char_changes u CAPITAL_SIGMA Lower"
  by (simp add: unicode_ok_def char_changes_def)

lemma case_text_chars:
  assumes "unicode_ok u" "valid_utf8 xs" "\<not> (c = Lower \<and> CAPITAL_SIGMA \<in> set (chars xs))"
  shows "case_text u c xs = str_of (concat (map (map_char u c) (chars xs)))"
  using assms
  by (cases c) (auto simp: case_text_def unicode_ok_def map_char_def [abs_def])

lemma case_text_unchanged:
  assumes u: "unicode_ok u" and v: "valid_utf8 xs" and s: "\<forall>ch \<in> set (chars xs). \<not> char_changes u ch c"
  shows "case_text u c xs = xs"
proof -
  have "\<not> (c = Lower \<and> CAPITAL_SIGMA \<in> set (chars xs))" using sigma_changes [OF u] s by auto
  from case_text_chars [OF u v this] show ?thesis by (simp add: concat_unchanged [OF s] v)
qed

text \<open>The three parts of the text: unchanged characters, ASCII, and the rest.\<close>

lemma case_text_parts:
  assumes u: "unicode_ok u" and v: "valid_utf8 xs"
    and as: "chars xs = as @ map unat bs @ cs" "\<forall>a \<in> set as. \<not> char_changes u a c"
    and bs: "\<forall>b \<in> set bs. unat b < 0x80"
  shows "case_text u c xs = (if c = Lower \<and> CAPITAL_SIGMA \<in> set cs then str_lower u xs
    else (str_of as @ map (ascii_case c) bs) @ str_of (concat (map (map_char u c) cs)))"
proof (cases "c = Lower \<and> CAPITAL_SIGMA \<in> set cs")
  case True
  then show ?thesis by (simp add: case_text_def)
next
  case False
  have "CAPITAL_SIGMA \<notin> unat ` set bs" using bs by (auto simp: CAPITAL_SIGMA_def)
  then have "\<not> (c = Lower \<and> CAPITAL_SIGMA \<in> set (chars xs))"
    using False as sigma_changes [OF u] by auto
  from case_text_chars [OF u v this] False show ?thesis
    using str_of_ascii_case [OF u bs, of c] by (auto simp: as(1) concat_unchanged [OF as(2)])
qed

text \<open>A bound on what the conversion builds on the way.\<close>

definition case_size :: "unicode \<Rightarrow> letter_case \<Rightarrow> byte list \<Rightarrow> nat" where
  "case_size u c text = max (length text)
    (max (if c = Lower then length (str_lower u text) else 0)
      (length (str_of (concat (map (map_char u c) (chars text))))))"

lemma sound_to_case:
  assumes u: "unicode_ok u" and snd: "sound t R s" and v: "valid_utf8 xs"
  shows "wp (to_case t u xs c)
    (\<lambda>res s'. if \<exists>ch \<in> set (chars xs). char_changes u ch c then cased t R (case_text u c xs) s res s'
      else res = None \<and> s' = s \<and> case_text u c xs = xs)
    (gave_up t R (case_size u c xs) s) P s"
proof (cases "split_at_first_change u xs c")
  case None
  then have "\<forall>ch \<in> set (chars xs). \<not> char_changes u ch c"
    using split_at_first_change_None [OF u v] by blast
  with None case_text_unchanged [OF u v this] show ?thesis by (simp add: to_case_def)
next
  case (Some p)
  obtain ys zs where p: "p = (ys, zs)" by (cases p)
  from split_at_first_change_Some [OF u v Some [unfolded p]] obtain as ch ds where
    f: "chars xs = as @ ch # ds" "char_changes u ch c" "\<forall>a \<in> set as. \<not> char_changes u a c"
      "ys = str_of as" "zs = str_of (ch # ds)" by blast
  have xs: "xs = ys @ zs" using str_of_chars [OF v] f by simp
  have sc: "\<forall>a \<in> set (chars xs). scalar a" using chars_scalar [OF v] by blast
  then have vy: "valid_utf8 ys" and vz: "valid_utf8 zs" and cz: "chars zs = ch # ds"
    unfolding f(4,5) using chars_str_of [of "ch # ds"] by (auto simp: f(1))
  let ?a = "takeWhile is_ascii zs" and ?r = "dropWhile is_ascii zs"
  have az: "valid_utf8 ?r" "chars zs = map unat ?a @ chars ?r"
    using ascii_prefix_chars [OF vz, of is_ascii] by (auto simp: is_ascii_def)
  have bs: "\<forall>b \<in> set ?a. unat b < 0x80" by (auto simp: is_ascii_def dest!: set_takeWhileD)
  have parts: "chars xs = as @ map unat ?a @ chars ?r" using f(1) cz az(2) by simp
  note goal_text = case_text_parts [OF u v parts f(3) bs, folded f(4)]
  have rest: "\<forall>a \<in> set (chars ?r). scalar a" using sc parts by auto
  have n: "length ys + length ?a \<le> max (length xs) (MAX_INLINE_SIZE t)"
    using length_takeWhile_le [of is_ascii zs] by (simp add: xs le_max_iff_disj)
  have vs: "valid_utf8 (ys @ map (ascii_case c) ?a)"
    using vy valid_ascii_case [OF valid_utf8_ascii [OF bs]] by simp
  let ?Q = "cased t R (case_text u c xs) s" and ?E = "gave_up t R (case_size u c xs) s"
  have "wp (repr_with_capacity t (length xs))
    (\<lambda>m s1. wp (with_local m (to_case_start t c ys ?a))
      (\<lambda>q. wp (to_case_rest t u c xs (chars ?r) (snd q)) ?Q ?E P) ?E P s1) ?E P s"
  proof (rule wp_mono [OF sound_with_capacity [OF snd]])
    fix m s1
    assume s1: "sound t (add_mset (Mutable, m, []) R) s1 \<and> mem_only s s1 \<and> modifiable R m \<and>
      has_capacity t (s1\<lparr>self := m\<rparr>) (max (length xs) (MAX_INLINE_SIZE t))"
    then have h: "holds t R [] (s1\<lparr>self := m\<rparr>)" "modifiable R (self (s1\<lparr>self := m\<rparr>))"
      "has_capacity t (s1\<lparr>self := m\<rparr>) (max (length xs) (MAX_INLINE_SIZE t))" and mem: "mem_only s s1"
      by (simp_all add: holds_local)
    have "wp (to_case_start t c ys ?a)
      (\<lambda>x s2. wp (to_case_rest t u c xs (chars ?r) (self s2)) ?Q ?E P (s2\<lparr>self := self s1\<rparr>))
      (\<lambda>s2. ?E (s2\<lparr>self := self s1\<rparr>)) (\<lambda>s2. P (s2\<lparr>self := self s1\<rparr>)) (s1\<lparr>self := m\<rparr>)"
    proof (rule wp_mono [OF holds_to_case_start [OF h n vs, where E = "\<lambda>_. False" and P = "\<lambda>_. False"]])
      fix x s2 assume s2: "edited t R (ys @ map (ascii_case c) ?a) (s1\<lparr>self := m\<rparr>) s2"
      then have snd2: "sound t (add_mset (Mutable, self s2, ys @ map (ascii_case c) ?a) R) (s2\<lparr>self := self s1\<rparr>)"
        by (simp add: edited_def holds_def)
      have mem2: "mem_only s (s2\<lparr>self := self s1\<rparr>)"
        using mem_only_trans [OF mem later_mem_only [of m s1 s2]] s2 by (simp add: edited_def)
      have m: "length (ys @ map (ascii_case c) ?a) + length (str_of (concat (map (map_char u c) (chars ?r))))
        \<le> case_size u c xs"
        using str_of_ascii_case [OF u bs, of c]
        by (simp add: case_size_def parts concat_unchanged [OF f(3)] f(4))
      from wp_to_case_rest [OF u v _ snd2 rest m, of P]
      show "wp (to_case_rest t u c xs (chars ?r) (self s2)) ?Q ?E P (s2\<lparr>self := self s1\<rparr>)"
        unfolding goal_text
        by (rule wp_mono) (use mem2 in \<open>auto simp: case_size_def intro: cased_from gave_up_from\<close>)
    qed simp_all
    then show "wp (with_local m (to_case_start t c ys ?a))
      (\<lambda>q. wp (to_case_rest t u c xs (chars ?r) (snd q)) ?Q ?E P) ?E P s1"
      by (simp add: wp_with_local)
  qed (auto simp: case_size_def intro!: gave_upI)
  moreover have "\<exists>ch \<in> set (chars xs). char_changes u ch c" using f(1,2) by auto
  ultimately show ?thesis
    using Some p
    by (simp add: to_case_def split_ascii_prefix_def split_at_unchecked_def take_prefix_len drop_prefix_len
        Let_def case_prod_beta)
qed

end
