(* ===== verification/LeanString.thy ===== *)
theory LeanString
  imports ReprCase
begin

text \<open>
  The two public types of \<open>src/src/lib.rs\<close>, both one \<open>repr\<close>: \<^verbatim>\<open>LeanString\<close>
  (\<open>lean_\<close>, mutability \<open>Mutable\<close>) and \<^verbatim>\<open>LeanStr\<close> (\<open>lstr_\<close>, \<open>Immutable\<close>). A
  method on \<^verbatim>\<open>&mut self\<close> works on the component \<open>self\<close> of the state; a method on
  \<^verbatim>\<open>&self\<close> or \<^verbatim>\<open>self\<close> takes the value. A method \<open>try_x\<close> fails
  with \<^verbatim>\<open>ReserveError\<close>, the method \<open>x\<close> panics with its message instead.
\<close>

section \<open>Constructors\<close>

definition lean_new :: "target \<Rightarrow> ('s, repr) prog" where
  "lean_new t = repr_new t"

definition lean_from_static_str :: "target \<Rightarrow> byte list \<Rightarrow> ('s, repr) prog" where
  "lean_from_static_str t text =
    bind (attempt (from_static_str t text)) (\<lambda>res. case res of
      Some r \<Rightarrow> ret r
    | None \<Rightarrow> panic)"

definition try_with_capacity :: "target \<Rightarrow> nat \<Rightarrow> ('r st, repr) prog" where
  "try_with_capacity t capacity = repr_with_capacity t capacity"

definition lean_with_capacity :: "target \<Rightarrow> nat \<Rightarrow> ('r st, repr) prog" where
  "lean_with_capacity t capacity = unwrap_with_msg (try_with_capacity t capacity)"

text \<open>\<^verbatim>\<open>From<&str>\<close>, the same for both types.\<close>

definition lean_from :: "target \<Rightarrow> header \<Rightarrow> byte list \<Rightarrow> ('r st, repr) prog" where
  "lean_from t h value = unwrap_with_msg (from_str t h value)"

definition lean_from_char :: "target \<Rightarrow> uchar \<Rightarrow> ('s, repr) prog" where
  "lean_from_char t value = from_char t value"

definition lstr_new :: "target \<Rightarrow> ('s, repr) prog" where
  "lstr_new t = repr_new t"

definition lstr_from_static_str :: "target \<Rightarrow> byte list \<Rightarrow> ('s, repr) prog" where
  "lstr_from_static_str t text =
    bind (attempt (from_static_str t text)) (\<lambda>res. case res of
      Some r \<Rightarrow> ret r
    | None \<Rightarrow> panic)"

section \<open>Reading\<close>

definition lean_len :: "target \<Rightarrow> repr \<Rightarrow> ('r st, nat) prog" where
  "lean_len t r = repr_len t Mutable r"

definition lean_is_empty :: "target \<Rightarrow> repr \<Rightarrow> ('r st, bool) prog" where
  "lean_is_empty t r = is_empty t Mutable r"

definition lean_capacity :: "target \<Rightarrow> repr \<Rightarrow> ('r st, nat) prog" where
  "lean_capacity t r = repr_capacity t r"

definition lean_as_str :: "target \<Rightarrow> repr \<Rightarrow> ('r st, byte list) prog" where
  "lean_as_str t r = as_str t Mutable r"

definition lean_as_bytes :: "target \<Rightarrow> repr \<Rightarrow> ('r st, byte list) prog" where
  "lean_as_bytes t r = as_bytes t Mutable r"

definition lean_is_heap_allocated :: "target \<Rightarrow> repr \<Rightarrow> ('s, bool) prog" where
  "lean_is_heap_allocated t r = is_heap_buffer t r"

definition lean_as_static_str :: "target \<Rightarrow> repr \<Rightarrow> ('r st, byte list option) prog" where
  "lean_as_static_str t r = as_static_str t r"

definition lstr_len :: "target \<Rightarrow> repr \<Rightarrow> ('r st, nat) prog" where
  "lstr_len t r = repr_len t Immutable r"

definition lstr_is_empty :: "target \<Rightarrow> repr \<Rightarrow> ('r st, bool) prog" where
  "lstr_is_empty t r = is_empty t Immutable r"

definition lstr_as_str :: "target \<Rightarrow> repr \<Rightarrow> ('r st, byte list) prog" where
  "lstr_as_str t r = as_str t Immutable r"

definition lstr_as_bytes :: "target \<Rightarrow> repr \<Rightarrow> ('r st, byte list) prog" where
  "lstr_as_bytes t r = as_bytes t Immutable r"

definition lstr_is_heap_allocated :: "target \<Rightarrow> repr \<Rightarrow> ('s, bool) prog" where
  "lstr_is_heap_allocated t r = is_heap_buffer t r"

definition lstr_as_static_str :: "target \<Rightarrow> repr \<Rightarrow> ('r st, byte list option) prog" where
  "lstr_as_static_str t r = as_static_str t r"

section \<open>Capacity\<close>

definition try_reserve :: "target \<Rightarrow> nat \<Rightarrow> (repr st, unit) prog" where
  "try_reserve t additional = reserve t additional"

definition lean_reserve :: "target \<Rightarrow> nat \<Rightarrow> (repr st, unit) prog" where
  "lean_reserve t additional = unwrap_with_msg (try_reserve t additional)"

definition try_reserve_exact :: "target \<Rightarrow> nat \<Rightarrow> (repr st, unit) prog" where
  "try_reserve_exact t additional = reserve_exact t additional"

definition lean_reserve_exact :: "target \<Rightarrow> nat \<Rightarrow> (repr st, unit) prog" where
  "lean_reserve_exact t additional = unwrap_with_msg (try_reserve_exact t additional)"

definition try_shrink_to_fit :: "target \<Rightarrow> (repr st, unit) prog" where
  "try_shrink_to_fit t = shrink_to t 0"

definition lean_shrink_to_fit :: "target \<Rightarrow> (repr st, unit) prog" where
  "lean_shrink_to_fit t = unwrap_with_msg (try_shrink_to_fit t)"

definition try_shrink_to :: "target \<Rightarrow> nat \<Rightarrow> (repr st, unit) prog" where
  "try_shrink_to t min_capacity = shrink_to t min_capacity"

definition lean_shrink_to :: "target \<Rightarrow> nat \<Rightarrow> (repr st, unit) prog" where
  "lean_shrink_to t min_capacity = unwrap_with_msg (try_shrink_to t min_capacity)"

section \<open>Editing\<close>

definition try_push :: "target \<Rightarrow> uchar \<Rightarrow> (repr st, unit) prog" where
  "try_push t ch = push_char t ch"

definition lean_push :: "target \<Rightarrow> uchar \<Rightarrow> (repr st, unit) prog" where
  "lean_push t ch = unwrap_with_msg (try_push t ch)"

definition try_pop :: "target \<Rightarrow> (repr st, uchar option) prog" where
  "try_pop t = pop t"

definition lean_pop :: "target \<Rightarrow> (repr st, uchar option) prog" where
  "lean_pop t = unwrap_with_msg (try_pop t)"

definition try_push_str :: "target \<Rightarrow> byte list \<Rightarrow> (repr st, unit) prog" where
  "try_push_str t string = push_str t string"

definition lean_push_str :: "target \<Rightarrow> byte list \<Rightarrow> (repr st, unit) prog" where
  "lean_push_str t string = unwrap_with_msg (try_push_str t string)"

definition try_extend_from_within :: "target \<Rightarrow> bound \<times> bound \<Rightarrow> (repr st, unit) prog" where
  "try_extend_from_within t src = extend_from_within t src"

definition lean_extend_from_within :: "target \<Rightarrow> bound \<times> bound \<Rightarrow> (repr st, unit) prog" where
  "lean_extend_from_within t src = unwrap_with_msg (try_extend_from_within t src)"

definition try_remove :: "target \<Rightarrow> nat \<Rightarrow> (repr st, uchar) prog" where
  "try_remove t idx = remove t idx"

definition lean_remove :: "target \<Rightarrow> nat \<Rightarrow> (repr st, uchar) prog" where
  "lean_remove t idx = unwrap_with_msg (try_remove t idx)"

definition try_retain :: "target \<Rightarrow> (nat \<Rightarrow> uchar \<Rightarrow> bool option) \<Rightarrow> (repr st, unit) prog" where
  "try_retain t predicate = retain t predicate"

definition lean_retain :: "target \<Rightarrow> (nat \<Rightarrow> uchar \<Rightarrow> bool option) \<Rightarrow> (repr st, unit) prog" where
  "lean_retain t predicate = unwrap_with_msg (try_retain t predicate)"

definition try_insert :: "target \<Rightarrow> nat \<Rightarrow> uchar \<Rightarrow> (repr st, unit) prog" where
  "try_insert t idx ch = insert_char t idx ch"

definition lean_insert :: "target \<Rightarrow> nat \<Rightarrow> uchar \<Rightarrow> (repr st, unit) prog" where
  "lean_insert t idx ch = unwrap_with_msg (try_insert t idx ch)"

definition try_insert_str :: "target \<Rightarrow> nat \<Rightarrow> byte list \<Rightarrow> (repr st, unit) prog" where
  "try_insert_str t idx string = insert_str t idx string"

definition lean_insert_str :: "target \<Rightarrow> nat \<Rightarrow> byte list \<Rightarrow> (repr st, unit) prog" where
  "lean_insert_str t idx string = unwrap_with_msg (try_insert_str t idx string)"

definition try_replace_range :: "target \<Rightarrow> bound \<times> bound \<Rightarrow> byte list \<Rightarrow> (repr st, unit) prog" where
  "try_replace_range t rng replace_with = replace_range t rng replace_with"

definition lean_replace_range :: "target \<Rightarrow> bound \<times> bound \<Rightarrow> byte list \<Rightarrow> (repr st, unit) prog" where
  "lean_replace_range t rng replace_with = unwrap_with_msg (try_replace_range t rng replace_with)"

definition try_make_ascii_lowercase :: "target \<Rightarrow> (repr st, unit) prog" where
  "try_make_ascii_lowercase t = make_ascii_case t Lower"

definition lean_make_ascii_lowercase :: "target \<Rightarrow> (repr st, unit) prog" where
  "lean_make_ascii_lowercase t = unwrap_with_msg (try_make_ascii_lowercase t)"

definition try_make_ascii_uppercase :: "target \<Rightarrow> (repr st, unit) prog" where
  "try_make_ascii_uppercase t = make_ascii_case t Upper"

definition lean_make_ascii_uppercase :: "target \<Rightarrow> (repr st, unit) prog" where
  "lean_make_ascii_uppercase t = unwrap_with_msg (try_make_ascii_uppercase t)"

definition try_truncate :: "target \<Rightarrow> nat \<Rightarrow> (repr st, unit) prog" where
  "try_truncate t new_len = ReprMut.truncate t new_len"

definition lean_truncate :: "target \<Rightarrow> nat \<Rightarrow> (repr st, unit) prog" where
  "lean_truncate t new_len = unwrap_with_msg (try_truncate t new_len)"

definition lean_clear :: "target \<Rightarrow> (repr st, unit) prog" where
  "lean_clear t = clear t"

text \<open>The slice \<^verbatim>\<open>&self.as_str()[at..]\<close> panics away from a boundary; the second half is
  dropped when the first cannot be cut.\<close>

definition try_split_off :: "target \<Rightarrow> nat \<Rightarrow> (repr st, repr) prog" where
  "try_split_off t at =
    bind (gets self) (\<lambda>r.
    bind (lean_as_str t r) (\<lambda>text.
    bind (assert_that (is_char_boundary text at)) (\<lambda>_.
    bind (from_str t Mutable (drop at text)) (\<lambda>other.
    bind (on_unwind (try_truncate t at) (drop_in t Mutable other)) (\<lambda>_.
    ret other)))))"

definition lean_split_off :: "target \<Rightarrow> nat \<Rightarrow> (repr st, repr) prog" where
  "lean_split_off t at = unwrap_with_msg (try_split_off t at)"

section \<open>Copies\<close>

definition try_repeat :: "target \<Rightarrow> repr \<Rightarrow> nat \<Rightarrow> ('r st, repr) prog" where
  "try_repeat t r n = repr_repeat t Mutable r n"

definition lean_repeat :: "target \<Rightarrow> repr \<Rightarrow> nat \<Rightarrow> ('r st, repr) prog" where
  "lean_repeat t r n = unwrap_with_msg (try_repeat t r n)"

definition try_to_ascii_lowercase :: "target \<Rightarrow> repr \<Rightarrow> ('r st, repr) prog" where
  "try_to_ascii_lowercase t r = to_ascii_case t Mutable r Lower"

definition lean_to_ascii_lowercase :: "target \<Rightarrow> repr \<Rightarrow> ('r st, repr) prog" where
  "lean_to_ascii_lowercase t r = unwrap_with_msg (try_to_ascii_lowercase t r)"

definition try_to_ascii_uppercase :: "target \<Rightarrow> repr \<Rightarrow> ('r st, repr) prog" where
  "try_to_ascii_uppercase t r = to_ascii_case t Mutable r Upper"

definition lean_to_ascii_uppercase :: "target \<Rightarrow> repr \<Rightarrow> ('r st, repr) prog" where
  "lean_to_ascii_uppercase t r = unwrap_with_msg (try_to_ascii_uppercase t r)"

definition lean_clone :: "target \<Rightarrow> repr \<Rightarrow> ('r st, repr) prog" where
  "lean_clone t r = make_shallow_clone t Mutable r"

definition lean_clone_from :: "target \<Rightarrow> repr \<Rightarrow> (repr st, unit) prog" where
  "lean_clone_from t source =
    bind (make_shallow_clone t Mutable source) (\<lambda>other. replace_inner t Mutable other)"

definition lean_drop :: "target \<Rightarrow> repr \<Rightarrow> ('r st, unit) prog" where
  "lean_drop t r = drop_in t Mutable r"

definition lean_to_lowercase :: "target \<Rightarrow> unicode \<Rightarrow> repr \<Rightarrow> (repr st, repr) prog" where
  "lean_to_lowercase t u r =
    bind (lean_as_str t r) (\<lambda>text.
    bind (unwrap_with_msg (to_case t u text Lower)) (\<lambda>res. case res of
      None \<Rightarrow> lean_clone t r
    | Some lower \<Rightarrow> ret lower))"

definition lean_to_uppercase :: "target \<Rightarrow> unicode \<Rightarrow> repr \<Rightarrow> (repr st, repr) prog" where
  "lean_to_uppercase t u r =
    bind (lean_as_str t r) (\<lambda>text.
    bind (unwrap_with_msg (to_case t u text Upper)) (\<lambda>res. case res of
      None \<Rightarrow> lean_clone t r
    | Some upper \<Rightarrow> ret upper))"

text \<open>The conversion takes the value out of \<open>self\<close> and leaves an empty one; a conversion that fails
  gives the value back, and the end of the scope drops what \<open>self\<close> is then.\<close>

definition try_into_lean_str :: "target \<Rightarrow> repr \<Rightarrow> ('r st, repr) prog" where
  "try_into_lean_str t r =
    bind (repr_new t) (\<lambda>this.
    bind (into_immutable t r) (\<lambda>res. case res of
      Inr r \<Rightarrow> bind (lean_drop t this) (\<lambda>_. ret r)
    | Inl r \<Rightarrow> bind (lean_drop t r) (\<lambda>_. fail)))"

definition lean_into_lean_str :: "target \<Rightarrow> repr \<Rightarrow> ('r st, repr) prog" where
  "lean_into_lean_str t r = unwrap_with_msg (try_into_lean_str t r)"

section \<open>The immutable type\<close>

definition lstr_try_repeat :: "target \<Rightarrow> repr \<Rightarrow> nat \<Rightarrow> ('r st, repr) prog" where
  "lstr_try_repeat t r n = repr_repeat t Immutable r n"

definition lstr_repeat :: "target \<Rightarrow> repr \<Rightarrow> nat \<Rightarrow> ('r st, repr) prog" where
  "lstr_repeat t r n = unwrap_with_msg (lstr_try_repeat t r n)"

definition lstr_try_to_ascii_lowercase :: "target \<Rightarrow> repr \<Rightarrow> ('r st, repr) prog" where
  "lstr_try_to_ascii_lowercase t r = to_ascii_case t Immutable r Lower"

definition lstr_to_ascii_lowercase :: "target \<Rightarrow> repr \<Rightarrow> ('r st, repr) prog" where
  "lstr_to_ascii_lowercase t r = unwrap_with_msg (lstr_try_to_ascii_lowercase t r)"

definition lstr_try_to_ascii_uppercase :: "target \<Rightarrow> repr \<Rightarrow> ('r st, repr) prog" where
  "lstr_try_to_ascii_uppercase t r = to_ascii_case t Immutable r Upper"

definition lstr_to_ascii_uppercase :: "target \<Rightarrow> repr \<Rightarrow> ('r st, repr) prog" where
  "lstr_to_ascii_uppercase t r = unwrap_with_msg (lstr_try_to_ascii_uppercase t r)"

definition lstr_clone :: "target \<Rightarrow> repr \<Rightarrow> ('r st, repr) prog" where
  "lstr_clone t r = make_shallow_clone t Immutable r"

definition lstr_clone_from :: "target \<Rightarrow> repr \<Rightarrow> (repr st, unit) prog" where
  "lstr_clone_from t source =
    bind (make_shallow_clone t Immutable source) (\<lambda>other. replace_inner t Immutable other)"

definition lstr_drop :: "target \<Rightarrow> repr \<Rightarrow> ('r st, unit) prog" where
  "lstr_drop t r = drop_in t Immutable r"

definition lstr_to_lowercase :: "target \<Rightarrow> unicode \<Rightarrow> repr \<Rightarrow> (repr st, repr) prog" where
  "lstr_to_lowercase t u r =
    bind (lstr_as_str t r) (\<lambda>text.
    bind (unwrap_with_msg (to_case t u text Lower)) (\<lambda>res. case res of
      None \<Rightarrow> lstr_clone t r
    | Some lower \<Rightarrow> lean_into_lean_str t lower))"

definition lstr_to_uppercase :: "target \<Rightarrow> unicode \<Rightarrow> repr \<Rightarrow> (repr st, repr) prog" where
  "lstr_to_uppercase t u r =
    bind (lstr_as_str t r) (\<lambda>text.
    bind (unwrap_with_msg (to_case t u text Upper)) (\<lambda>res. case res of
      None \<Rightarrow> lstr_clone t r
    | Some upper \<Rightarrow> lean_into_lean_str t upper))"

definition try_into_lean_string :: "target \<Rightarrow> repr \<Rightarrow> ('r st, repr) prog" where
  "try_into_lean_string t r =
    bind (repr_new t) (\<lambda>this.
    bind (into_mutable t r) (\<lambda>res. case res of
      Inr r \<Rightarrow> bind (lstr_drop t this) (\<lambda>_. ret r)
    | Inl r \<Rightarrow> bind (lstr_drop t r) (\<lambda>_. fail)))"

definition lstr_into_lean_string :: "target \<Rightarrow> repr \<Rightarrow> ('r st, repr) prog" where
  "lstr_into_lean_string t r = unwrap_with_msg (try_into_lean_string t r)"

end
