(* ===== verification/Contracts.thy ===== *)
theory Contracts
  imports LeanString
begin

text \<open>
  What the methods of the two public types promise. The locale \<open>string_type\<close> is the contract both
  share: a constructor that may panic when memory runs out, a reader, a clone and a destructor.
  \<open>conversion\<close> is the contract of a move from one type to another. Both are interpreted on the two
  types, and the lemmas proved once in the locales (a list of values is released as a whole, a clone
  or a round trip through the other type changes nothing) hold for each.
\<close>

named_theorems wrappers \<open>definitions of methods that only call another one\<close>

lemmas [wrappers] =
  lean_new_def try_with_capacity_def lean_with_capacity_def lean_from_def lean_from_char_def lstr_new_def
  lean_len_def lean_is_empty_def lean_capacity_def lean_as_str_def lean_as_bytes_def
  lean_is_heap_allocated_def lean_as_static_str_def
  lstr_len_def lstr_is_empty_def lstr_as_str_def lstr_as_bytes_def lstr_is_heap_allocated_def
  lstr_as_static_str_def
  try_reserve_def lean_reserve_def try_reserve_exact_def lean_reserve_exact_def
  try_shrink_to_fit_def lean_shrink_to_fit_def try_shrink_to_def lean_shrink_to_def
  try_push_def lean_push_def try_pop_def lean_pop_def try_push_str_def lean_push_str_def
  try_extend_from_within_def lean_extend_from_within_def try_remove_def lean_remove_def
  try_retain_def lean_retain_def try_insert_def lean_insert_def try_insert_str_def lean_insert_str_def
  try_replace_range_def lean_replace_range_def
  try_make_ascii_lowercase_def lean_make_ascii_lowercase_def
  try_make_ascii_uppercase_def lean_make_ascii_uppercase_def
  try_truncate_def lean_truncate_def lean_clear_def lean_split_off_def
  try_repeat_def lean_repeat_def try_to_ascii_lowercase_def lean_to_ascii_lowercase_def
  try_to_ascii_uppercase_def lean_to_ascii_uppercase_def lean_clone_def lean_drop_def
  lean_into_lean_str_def
  lstr_try_repeat_def lstr_repeat_def lstr_try_to_ascii_lowercase_def lstr_to_ascii_lowercase_def
  lstr_try_to_ascii_uppercase_def lstr_to_ascii_uppercase_def lstr_clone_def lstr_drop_def
  lstr_into_lean_string_def

section \<open>The contract of a string type\<close>

definition live_values :: "header \<Rightarrow> (repr \<times> byte list) list \<Rightarrow> owner multiset" where
  "live_values h ws = mset (map (\<lambda>(r, xs). (h, r, xs)) ws)"

lemma live_values_simps [simp]: "live_values h [] = {#}" "live_values h ((r, xs) # ws) = add_mset (h, r, xs) (live_values h ws)"
  by (simp_all add: live_values_def)

locale string_type =
  fixes t :: target
    and h :: header
    and create :: "byte list \<Rightarrow> ('r st, repr) prog"
    and read :: "repr \<Rightarrow> ('r st, byte list) prog"
    and clone :: "repr \<Rightarrow> ('r st, repr) prog"
    and discard :: "repr \<Rightarrow> ('r st, unit) prog"
  assumes create: "sound t R s \<Longrightarrow> valid_utf8 xs \<Longrightarrow>
      wp (create xs) (\<lambda>r s'. sound t (add_mset (h, r, xs) R) s' \<and> mem_only s s') (\<lambda>_. False)
        (gave_up t R (length xs) s) s"
    and read: "sound t R s \<Longrightarrow> (h, r, xs) \<in># R \<Longrightarrow> wp (read r) Q E P s = Q xs s"
    and clone: "sound t R s \<Longrightarrow> (h, r, xs) \<in># R \<Longrightarrow>
      wp (clone r) (\<lambda>r' s'. r' = r \<and> sound t (add_mset (h, r, xs) R) s' \<and> mem_only s s' \<and> calls s' = calls s)
        (\<lambda>_. False) (\<lambda>s'. s' = s \<and> count_limit t R r) s"
    and discard: "sound t (add_mset (h, r, xs) R) s \<Longrightarrow>
      wp (discard r) (\<lambda>_ s'. sound t R s' \<and> mem_only s s' \<and> calls s' = calls s) (\<lambda>_. False) (\<lambda>_. False) s"
begin

lemma discard_all:
  "sound t (live_values h ws + R) s \<Longrightarrow>
    wp (for_each (map fst ws) discard) (\<lambda>_ s'. sound t R s' \<and> mem_only s s') E P s"
proof (induction ws arbitrary: s)
  case (Cons w ws)
  obtain r xs where w: "w = (r, xs)" by (cases w)
  have "wp (discard r) (\<lambda>_. wp (for_each (map fst ws) discard) (\<lambda>_ s'. sound t R s' \<and> mem_only s s') E P) E P s"
  proof (rule wp_mono [OF discard])
    show "sound t (add_mset (h, r, xs) (live_values h ws + R)) s" using Cons.prems by (simp add: w)
    fix u s1 assume s1: "sound t (live_values h ws + R) s1 \<and> mem_only s s1 \<and> calls s1 = calls s"
    show "wp (for_each (map fst ws) discard) (\<lambda>_ s'. sound t R s' \<and> mem_only s s') E P s1"
      by (rule wp_mono [OF Cons.IH]) (use s1 in \<open>auto intro: mem_only_trans\<close>)
  qed simp_all
  then show ?case by (simp add: w)
qed simp

lemma clone_discard:
  assumes "sound t R s" "(h, r, xs) \<in># R"
  shows "wp (bind (clone r) discard)
    (\<lambda>_ s'. sound t R s' \<and> mem_only s s' \<and> calls s' = calls s) E (\<lambda>s'. s' = s \<and> count_limit t R r) s"
proof -
  let ?P = "\<lambda>s'. s' = s \<and> count_limit t R r"
  have "wp (clone r) (\<lambda>x. wp (discard x) (\<lambda>_ s'. sound t R s' \<and> mem_only s s' \<and> calls s' = calls s) E ?P) E ?P s"
  proof (rule wp_mono [OF clone [OF assms]])
    fix x s1 assume s1: "x = r \<and> sound t (add_mset (h, r, xs) R) s1 \<and> mem_only s s1 \<and> calls s1 = calls s"
    show "wp (discard x) (\<lambda>_ s'. sound t R s' \<and> mem_only s s' \<and> calls s' = calls s) E ?P s1"
      by (rule wp_mono [OF discard]) (use s1 in \<open>auto intro: mem_only_trans\<close>)
  qed simp_all
  then show ?thesis by simp
qed

lemma copy:
  assumes "sound t R s" "(h, r, xs) \<in># R"
  shows "wp (bind (read r) create) (\<lambda>r' s'. sound t (add_mset (h, r', xs) R) s' \<and> mem_only s s') E
    (gave_up t R (length xs) s) s"
  by (simp add: read [OF assms] wp_mono [OF create [OF assms(1) sound_valid [OF assms]]])

end

lemma sound_create:
  assumes "sound t R s" "valid_utf8 xs"
  shows "wp (lean_from t h xs) (\<lambda>r s'. sound t (add_mset (h, r, xs) R) s' \<and> mem_only s s') (\<lambda>_. False)
    (gave_up t R (length xs) s) s"
  unfolding lean_from_def wp_unwrap_with_msg
  by (rule wp_mono [OF sound_from_str [OF assms]]) (auto intro: gave_upI)

interpretation lean: string_type t Mutable "lean_from t Mutable" "lean_as_str t" "lean_clone t" "lean_drop t" for t
proof unfold_locales
  show "wp (lean_clone t r) (\<lambda>r' s'. r' = r \<and> sound t (add_mset (Mutable, r, xs) R) s' \<and> mem_only s s' \<and>
      calls s' = calls s) (\<lambda>_. False) (\<lambda>s'. s' = s \<and> count_limit t R r) s"
    if "sound t R s" "(Mutable, r, xs) \<in># R" for R s r xs
    unfolding wrappers by (rule wp_mono [OF sound_make_shallow_clone [OF that]]) simp_all
  show "wp (lean_drop t r) (\<lambda>_ s'. sound t R s' \<and> mem_only s s' \<and> calls s' = calls s) (\<lambda>_. False) (\<lambda>_. False) s"
    if "sound t (add_mset (Mutable, r, xs) R) s" for R s r xs
    unfolding wrappers by (rule wp_mono [OF sound_drop_in [OF that]]) simp_all
qed (simp_all add: sound_create lean_as_str_def lstr_as_str_def sound_as_str)

interpretation lstr: string_type t Immutable "lean_from t Immutable" "lstr_as_str t" "lstr_clone t" "lstr_drop t" for t
proof unfold_locales
  show "wp (lstr_clone t r) (\<lambda>r' s'. r' = r \<and> sound t (add_mset (Immutable, r, xs) R) s' \<and> mem_only s s' \<and>
      calls s' = calls s) (\<lambda>_. False) (\<lambda>s'. s' = s \<and> count_limit t R r) s"
    if "sound t R s" "(Immutable, r, xs) \<in># R" for R s r xs
    unfolding wrappers by (rule wp_mono [OF sound_make_shallow_clone [OF that]]) simp_all
  show "wp (lstr_drop t r) (\<lambda>_ s'. sound t R s' \<and> mem_only s s' \<and> calls s' = calls s) (\<lambda>_. False) (\<lambda>_. False) s"
    if "sound t (add_mset (Immutable, r, xs) R) s" for R s r xs
    unfolding wrappers by (rule wp_mono [OF sound_drop_in [OF that]]) simp_all
qed (simp_all add: sound_create lean_as_str_def lstr_as_str_def sound_as_str)

section \<open>Conversion\<close>

text \<open>A conversion consumes its argument, on success and on failure.\<close>

locale conversion =
  fixes t :: target
    and h h' :: header
    and try_into :: "repr \<Rightarrow> ('r st, repr) prog"
  assumes try_into: "sound t (add_mset (h, r, xs) R) s \<Longrightarrow>
      wp (try_into r) (\<lambda>r' s'. sound t (add_mset (h', r', xs) R) s' \<and> mem_only s s')
        (gave_up t R (length xs) s) P s"
begin

lemma into:
  "sound t (add_mset (h, r, xs) R) s \<Longrightarrow>
    wp (unwrap_with_msg (try_into r)) (\<lambda>r' s'. sound t (add_mset (h', r', xs) R) s' \<and> mem_only s s')
      E (gave_up t R (length xs) s) s"
  by (simp add: try_into)

end

locale round_trip = there: conversion t h h' f + fro: conversion t h' h g
  for t h h' and f g :: "repr \<Rightarrow> ('r st, repr) prog"
begin

lemma there_and_back:
  assumes "sound t (add_mset (h, r, xs) R) s"
  shows "wp (bind (f r) g) (\<lambda>r' s'. sound t (add_mset (h, r', xs) R) s' \<and> mem_only s s')
    (gave_up t R (length xs) s) P s"
proof -
  have "wp (f r) (\<lambda>x. wp (g x) (\<lambda>r' s'. sound t (add_mset (h, r', xs) R) s' \<and> mem_only s s')
    (gave_up t R (length xs) s) P) (gave_up t R (length xs) s) P s"
  proof (rule wp_mono [OF there.try_into [OF assms]])
    fix x s1 assume s1: "sound t (add_mset (h', x, xs) R) s1 \<and> mem_only s s1"
    show "wp (g x) (\<lambda>r' s'. sound t (add_mset (h, r', xs) R) s' \<and> mem_only s s') (gave_up t R (length xs) s) P s1"
      by (rule wp_mono [OF fro.try_into]) (use s1 in \<open>auto intro: mem_only_trans gave_up_from\<close>)
  qed
  then show ?thesis by simp
qed

end

lemma drop_empty: "drop_in t h (repr_of_inline t (inline_bytes t [])) = ret ()"
  by (simp add: drop_in_def inline_word_inline_bytes)

lemma converted_into:
  assumes c: "converted t R h h' r xs s res s1"
  shows "wp (case res of Inr r \<Rightarrow> ret r | Inl r \<Rightarrow> bind (drop_in t h r) (\<lambda>_. fail))
    (\<lambda>r' s'. sound t (add_mset (h', r', xs) R) s' \<and> mem_only s s') (gave_up t R (length xs) s) P s1"
proof (cases res)
  case (Inl x)
  with c have s1: "sound t (add_mset (h, x, xs) R) s1" "mem_only s s1" "refused t h' (length xs) s s1"
    by (simp_all add: converted_def)
  have "wp (drop_in t h x) (\<lambda>_. gave_up t R (length xs) s) (gave_up t R (length xs) s) P s1"
  proof (rule wp_mono [OF sound_drop_in [OF s1(1)]])
    fix u s' assume s': "sound t R s' \<and> mem_only s1 s' \<and> calls s' = calls s1 \<and> keeps x s1 s'"
    then have "refused t h' (length xs) s s'"
      using s1(3) by (auto intro: refused_mono [OF _ later_refl mem_only_later])
    with s' s1(2) show "gave_up t R (length xs) s s'" by (auto intro: gave_upI mem_only_trans)
  qed
  with Inl show ?thesis by simp
next
  case (Inr x)
  with c show ?thesis by (simp add: converted_def)
qed

interpretation to_lstr: conversion t Mutable Immutable "try_into_lean_str t" for t
  by unfold_locales
    (simp add: try_into_lean_str_def lean_drop_def repr_new_eq drop_empty
      wp_mono [OF sound_into_immutable converted_into])

interpretation to_lean: conversion t Immutable Mutable "try_into_lean_string t" for t
  by unfold_locales
    (simp add: try_into_lean_string_def lstr_drop_def repr_new_eq drop_empty
      wp_mono [OF sound_into_mutable converted_into])

interpretation lean_lstr: round_trip t Mutable Immutable "try_into_lean_str t" "try_into_lean_string t" for t
  by unfold_locales

interpretation lstr_lean: round_trip t Immutable Mutable "try_into_lean_string t" "try_into_lean_str t" for t
  by unfold_locales

section \<open>Splitting\<close>

lemma holds_split_off:
  assumes h: "holds t R xs s"
  shows "wp (try_split_off t at)
    (\<lambda>other s'. is_char_boundary xs at \<and> holds t (add_mset (Mutable, other, drop at xs) R) (take at xs) s' \<and>
      later s s')
    (\<lambda>s'. holds t R xs s' \<and> self s' = self s \<and> later s s' \<and> out_of_memory t (length xs) s s')
    (\<lambda>s'. \<not> is_char_boundary xs at \<and> s' = s) s"
    (is "wp _ ?Q ?E ?P s")
proof (cases "is_char_boundary xs at")
  case True
  have v: "valid_utf8 (drop at xs)" using holds_valid [OF h] True by (rule valid_utf8_drop)
  have snd: "sound t (add_mset (Mutable, self s, xs) R) s" using h by (simp add: holds_def)
  have "wp (from_str t Mutable (drop at xs))
    (\<lambda>other. wp (try_truncate t at) (\<lambda>_. ?Q other)
      (wp (drop_in t Mutable other) (\<lambda>_. ?E) ?E ?P) (wp (drop_in t Mutable other) (\<lambda>_. ?P) ?E ?P)) ?E ?P s"
  proof (rule wp_mono [OF sound_from_str [OF snd v]])
    fix r s1
    assume s1: "sound t (add_mset (Mutable, r, drop at xs) (add_mset (Mutable, self s, xs) R)) s1 \<and>
      mem_only s s1 \<and> modifiable (add_mset (Mutable, self s, xs) R) r"
    then have same: "self s1 = self s" "later s s1" by (auto simp: mem_only_def later_def)
    let ?R = "add_mset (Mutable, r, drop at xs) R"
    have h1: "holds t ?R xs s1" using s1 same(1) by (simp add: holds_def add_mset_commute)
    show "wp (try_truncate t at) (\<lambda>_. ?Q r)
      (wp (drop_in t Mutable r) (\<lambda>_. ?E) ?E ?P) (wp (drop_in t Mutable r) (\<lambda>_. ?P) ?E ?P) s1"
      unfolding try_truncate_def
    proof (rule wp_mono [OF holds_truncate [OF h1]])
      fix u s2
      assume s2: "if length xs \<le> at then s2 = s1 else is_char_boundary xs at \<and> edited t ?R (take at xs) s1 s2"
      then show "?Q r s2"
        using True h1 same(2) by (auto simp: edited_def split: if_splits intro: later_trans)
    next
      fix s2 assume "rejected t ?R xs at s1 s2 \<and> at < length xs \<and> MAX_LEN t < length xs \<and> \<not> modifiable ?R (self s1)"
      then have s2: "sound t (add_mset (Mutable, r, drop at xs) (add_mset (Mutable, self s, xs) R)) s2"
        "self s2 = self s" "later s1 s2" "refused t Mutable at s1 s2"
        using same(1) by (auto simp: rejected_def holds_def add_mset_commute)
      show "wp (drop_in t Mutable r) (\<lambda>_. ?E) ?E ?P s2"
      proof (rule wp_mono [OF sound_drop_in [OF s2(1)]])
        fix x s3
        assume s3: "sound t (add_mset (Mutable, self s, xs) R) s3 \<and> mem_only s2 s3 \<and> calls s3 = calls s2 \<and>
          keeps r s2 s3"
        then have l3: "later s2 s3" "self s3 = self s" using s2(2) by (auto simp: mem_only_def later_def)
        have "refused t Mutable at s s3" using refused_mono [OF s2(4) same(2) l3(1)] .
        moreover have "at \<le> length xs" using True by (rule is_char_boundary_le)
        ultimately have "out_of_memory t (length xs) s s3" by (rule out_of_memoryI [OF _ trans_le_add1])
        with s3 l3 same(2) s2(3) show "?E s3" by (auto simp: holds_def intro: later_trans)
      qed
    qed (use True in auto)
  next
    fix s1
    assume s1: "sound t (add_mset (Mutable, self s, xs) R) s1 \<and> mem_only s s1 \<and>
      MAX_INLINE_SIZE t < length (drop at xs) \<and> refused t Mutable (length (drop at xs)) s s1"
    then show "?E s1"
      by (auto simp: holds_def mem_only_def later_def intro: out_of_memoryI)
  qed simp
  with True show ?thesis by (simp add: try_split_off_def lean_as_str_def holds_as_str [OF h])
qed (simp add: try_split_off_def lean_as_str_def holds_as_str [OF h])

text \<open>A caller that splits a value, pushes the second half back and drops it.\<close>

definition split_and_rejoin :: "target \<Rightarrow> nat \<Rightarrow> (repr st, unit) prog" where
  "split_and_rejoin t n =
    bind (try_split_off t n) (\<lambda>other.
    bind (lean_as_str t other) (\<lambda>text.
    bind (try_push_str t text) (\<lambda>_.
    lean_drop t other)))"

section \<open>Case conversion\<close>

lemma case_text_size: "length (case_text u c xs) \<le> case_size u c xs"
  by (cases c) (auto simp: case_text_def case_size_def map_char_def [abs_def])

lemma valid_case_text:
  assumes "unicode_ok u" "valid_utf8 xs"
  shows "valid_utf8 (case_text u c xs)"
proof (cases c)
  case Lower
  with assms show ?thesis by (simp add: case_text_def unicode_ok_def)
next
  case Upper
  have "list_all scalar (map_char u Upper ch)" if "ch \<in> set (chars xs)" for ch
    using assms(1) chars_scalar [OF assms(2) that] unfolding unicode_ok_def by blast
  then have "\<forall>ch \<in> set (concat (map (to_upper u) (chars xs))). scalar ch"
    by (auto simp: map_char_def list_all_iff)
  with Upper show ?thesis by (simp add: case_text_def)
qed

lemma run_to_case:
  assumes u: "unicode_ok u" and snd: "sound t R s" and r: "(h, r, xs) \<in># R"
    and same: "case_text u c xs = xs \<Longrightarrow> wp copy Q E P s"
    and new: "\<And>m s1. sound t (add_mset (Mutable, m, case_text u c xs) R) s1 \<Longrightarrow> mem_only s s1 \<Longrightarrow>
      wp (finish m) Q E P s1"
    and out: "\<And>s'. gave_up t R (case_size u c xs) s s' \<Longrightarrow> P s'"
  shows "wp (bind (unwrap_with_msg (to_case t u xs c)) (\<lambda>res. case res of None \<Rightarrow> copy | Some m \<Rightarrow> finish m)) Q E P s"
proof -
  have "wp (to_case t u xs c) (\<lambda>res. wp (case res of None \<Rightarrow> copy | Some m \<Rightarrow> finish m) Q E P) P P s"
    by (rule wp_mono [OF sound_to_case [OF u snd sound_valid [OF snd r]]])
      (use same new out in \<open>auto simp: cased_def split: if_splits\<close>)
  then show ?thesis by simp
qed

lemma sound_to_lowercase:
  assumes u: "unicode_ok u" and snd: "sound t R s" and r: "(Mutable, r, xs) \<in># R"
  shows "wp (lean_to_lowercase t u r)
    (\<lambda>r' s'. sound t (add_mset (Mutable, r', case_text u Lower xs) R) s' \<and> mem_only s s') E
    (\<lambda>s'. gave_up t R (case_size u Lower xs) s s' \<or> (s' = s \<and> count_limit t R r)) s"
  by (simp only: lean_to_lowercase_def wp_bind lean.read [OF snd r], simp only: wp_bind [symmetric],
      rule run_to_case [OF u snd r])
    (auto intro: wp_mono [OF lean.clone [OF snd r]])

lemma sound_to_uppercase:
  assumes u: "unicode_ok u" and snd: "sound t R s" and r: "(Mutable, r, xs) \<in># R"
  shows "wp (lean_to_uppercase t u r)
    (\<lambda>r' s'. sound t (add_mset (Mutable, r', case_text u Upper xs) R) s' \<and> mem_only s s') E
    (\<lambda>s'. gave_up t R (case_size u Upper xs) s s' \<or> (s' = s \<and> count_limit t R r)) s"
  by (simp only: lean_to_uppercase_def wp_bind lean.read [OF snd r], simp only: wp_bind [symmetric],
      rule run_to_case [OF u snd r])
    (auto intro: wp_mono [OF lean.clone [OF snd r]])

lemma into_case:
  assumes "sound t (add_mset (Mutable, m, ys) R) s1" "mem_only s s1" "length ys \<le> n"
  shows "wp (lean_into_lean_str t m) (\<lambda>r' s'. sound t (add_mset (Immutable, r', ys) R) s' \<and> mem_only s s') E
    (\<lambda>s'. gave_up t R n s s' \<or> X s') s1"
  unfolding lean_into_lean_str_def
  by (rule wp_mono [OF to_lstr.into [OF assms(1)]]) (use assms(2,3) in \<open>auto intro: mem_only_trans gave_up_from\<close>)

lemma sound_lstr_to_lowercase:
  assumes u: "unicode_ok u" and snd: "sound t R s" and r: "(Immutable, r, xs) \<in># R"
  shows "wp (lstr_to_lowercase t u r)
    (\<lambda>r' s'. sound t (add_mset (Immutable, r', case_text u Lower xs) R) s' \<and> mem_only s s') E
    (\<lambda>s'. gave_up t R (case_size u Lower xs) s s' \<or> (s' = s \<and> count_limit t R r)) s"
  by (simp only: lstr_to_lowercase_def wp_bind lstr.read [OF snd r], simp only: wp_bind [symmetric],
      rule run_to_case [OF u snd r])
    (auto intro: wp_mono [OF lstr.clone [OF snd r]] into_case case_text_size)

lemma sound_lstr_to_uppercase:
  assumes u: "unicode_ok u" and snd: "sound t R s" and r: "(Immutable, r, xs) \<in># R"
  shows "wp (lstr_to_uppercase t u r)
    (\<lambda>r' s'. sound t (add_mset (Immutable, r', case_text u Upper xs) R) s' \<and> mem_only s s') E
    (\<lambda>s'. gave_up t R (case_size u Upper xs) s s' \<or> (s' = s \<and> count_limit t R r)) s"
  by (simp only: lstr_to_uppercase_def wp_bind lstr.read [OF snd r], simp only: wp_bind [symmetric],
      rule run_to_case [OF u snd r])
    (auto intro: wp_mono [OF lstr.clone [OF snd r]] into_case case_text_size)

end
