(* ===== verification/Compare.thy ===== *)
theory Compare
  imports Contracts
begin

text \<open>
  \<^verbatim>\<open>PartialEq\<close>, \<^verbatim>\<open>Ord\<close> and \<^verbatim>\<open>Hash\<close> of both types
  (\<open>src/src/lib.rs\<close>), all of which read the text and compare bytes. The byte order is shown to be a
  linear order and to be the order of the characters; equality, order and hash agree.
\<close>

section \<open>Ordering\<close>

datatype ordering = Less | Equal | Greater

instantiation ordering :: linorder
begin

fun rank :: "ordering \<Rightarrow> int" where
  "rank Less = -1"
| "rank Equal = 0"
| "rank Greater = 1"

definition less_eq_ordering :: "ordering \<Rightarrow> ordering \<Rightarrow> bool" where
  "x \<le> y \<longleftrightarrow> rank x \<le> rank y"

definition less_ordering :: "ordering \<Rightarrow> ordering \<Rightarrow> bool" where
  "x < y \<longleftrightarrow> rank x < rank y"

instance
proof
  show "x = y" if "x \<le> y" "y \<le> x" for x y :: ordering
    using that by (cases x; cases y) (simp_all add: less_eq_ordering_def)
qed (auto simp: less_eq_ordering_def less_ordering_def)

end

definition opposite :: "ordering \<Rightarrow> ordering" where
  "opposite x = (case x of Less \<Rightarrow> Greater | Equal \<Rightarrow> Equal | Greater \<Rightarrow> Less)"

text \<open>Slices compare element by element, then by length. \<open>key\<close> reads an element as a number.\<close>

fun list_cmp :: "('a \<Rightarrow> nat) \<Rightarrow> 'a list \<Rightarrow> 'a list \<Rightarrow> ordering" where
  "list_cmp key [] [] = Equal"
| "list_cmp key [] (b # bs) = Less"
| "list_cmp key (a # as) [] = Greater"
| "list_cmp key (a # as) (b # bs) =
    (if key a < key b then Less else if key b < key a then Greater else list_cmp key as bs)"

definition str_cmp :: "byte list \<Rightarrow> byte list \<Rightarrow> ordering" where
  "str_cmp xs ys = list_cmp unat xs ys"

definition chars_cmp :: "uchar list \<Rightarrow> uchar list \<Rightarrow> ordering" where
  "chars_cmp cs ds = list_cmp (\<lambda>c. c) cs ds"

section \<open>The trait methods\<close>

definition value_eq :: "target \<Rightarrow> header \<Rightarrow> repr \<Rightarrow> header \<Rightarrow> repr \<Rightarrow> ('r st, bool) prog" where
  "value_eq t h r h' other =
    bind (as_str t h r) (\<lambda>a. bind (as_str t h' other) (\<lambda>b. ret (a = b)))"

definition value_eq_str :: "target \<Rightarrow> header \<Rightarrow> repr \<Rightarrow> byte list \<Rightarrow> ('r st, bool) prog" where
  "value_eq_str t h r other = bind (as_str t h r) (\<lambda>a. ret (a = other))"

definition value_cmp :: "target \<Rightarrow> header \<Rightarrow> repr \<Rightarrow> repr \<Rightarrow> ('r st, ordering) prog" where
  "value_cmp t h r other =
    bind (as_str t h r) (\<lambda>a. bind (as_str t h other) (\<lambda>b. ret (str_cmp a b)))"

definition value_partial_cmp :: "target \<Rightarrow> header \<Rightarrow> repr \<Rightarrow> repr \<Rightarrow> ('r st, ordering option) prog" where
  "value_partial_cmp t h r other = bind (value_cmp t h r other) (\<lambda>o'. ret (Some o'))"

text \<open>\<^verbatim>\<open>str::hash\<close> writes the bytes and \<open>0xFF\<close> to the hasher.\<close>

definition str_hash :: "('h \<Rightarrow> byte list \<Rightarrow> 'h) \<Rightarrow> byte list \<Rightarrow> 'h \<Rightarrow> 'h" where
  "str_hash write xs state = write (write state xs) [0xFF]"

definition value_hash ::
  "target \<Rightarrow> ('h \<Rightarrow> byte list \<Rightarrow> 'h) \<Rightarrow> header \<Rightarrow> repr \<Rightarrow> 'h \<Rightarrow> ('r st, 'h) prog"
where
  "value_hash t write h r state = bind (as_str t h r) (\<lambda>a. ret (str_hash write a state))"

section \<open>Laws of the order\<close>

lemma list_cmp_refl [simp]: "list_cmp key xs xs = Equal"
  by (induction xs) simp_all

lemma list_cmp_Equal: "inj key \<Longrightarrow> list_cmp key xs ys = Equal \<longleftrightarrow> xs = ys"
  by (induction key xs ys rule: list_cmp.induct) (auto simp: inj_eq)

lemma list_cmp_opposite: "list_cmp key ys xs = opposite (list_cmp key xs ys)"
  by (induction key xs ys rule: list_cmp.induct) (auto simp: opposite_def)

lemma not_Greater: "x \<le> Equal \<longleftrightarrow> x \<noteq> Greater"
  by (cases x) (simp_all add: less_eq_ordering_def)

lemma list_cmp_trans:
  "list_cmp key xs ys \<le> Equal \<Longrightarrow> list_cmp key ys zs \<le> Equal \<Longrightarrow> list_cmp key xs zs \<le> Equal"
  unfolding not_Greater
proof (induction key xs ys arbitrary: zs rule: list_cmp.induct)
  case (1 key)
  then show ?case by simp
next
  case (2 key b bs)
  then show ?case by (cases zs) simp_all
next
  case (3 key a as)
  then show ?case by simp
next
  case (4 key a as b bs)
  show ?case
  proof (cases zs)
    case (Cons c cs)
    with 4(1) [of cs] 4(2,3) show ?thesis by (simp split: if_split_asm)
  qed (use 4(3) in simp)
qed

lemma list_cmp_same_prefix: "list_cmp key (xs @ ys) (xs @ zs) = list_cmp key ys zs"
  by (induction xs) simp_all

section \<open>Bytes and characters compare alike\<close>

lemma less_div_mod:
  fixes c d n :: nat
  assumes "c < d" "0 < n"
  shows "c div n < d div n \<or> (c div n = d div n \<and> c mod n < d mod n)"
proof (cases "c div n = d div n")
  case True
  with assms div_mult_mod_eq [of c n] div_mult_mod_eq [of d n] show ?thesis by (metis nat_add_left_cancel_less)
next
  case False
  with div_le_mono [of c d n] assms show ?thesis by simp
qed

lemma unat_lead: "n < 256 \<Longrightarrow> unat (byte_of n) = n"
  by (simp add: unat_byte_of)

definition lead :: "uchar \<Rightarrow> nat" where
  "lead c = unat (hd (encode_utf8 c))"

lemma lead_cases:
  assumes "scalar c"
  shows "c < 0x80 \<Longrightarrow> lead c = c"
    and "0x80 \<le> c \<Longrightarrow> c < 0x800 \<Longrightarrow> lead c = 0xC0 + c div 64"
    and "0x800 \<le> c \<Longrightarrow> c < 0x10000 \<Longrightarrow> lead c = 0xE0 + c div 4096"
    and "0x10000 \<le> c \<Longrightarrow> lead c = 0xF0 + c div 262144"
  using scalar_less [OF assms] by (auto simp: lead_def encode_utf8_def unat_lead)

lemma lead_less:
  assumes "scalar c" "scalar d" "c < d" "len_utf8 c \<noteq> len_utf8 d"
  shows "lead c < lead d"
proof -
  consider "c < 0x80" "0x80 \<le> d" | "0x80 \<le> c" "c < 0x800" "0x800 \<le> d"
    | "0x800 \<le> c" "c < 0x10000" "0x10000 \<le> d"
    using assms(3,4) by (auto simp: len_utf8_def split: if_splits)
  then show ?thesis
  proof cases
    case 1
    then have "0xC0 \<le> lead d" using lead_cases [OF assms(2)] by (cases "d < 0x800"; cases "d < 0x10000") auto
    with 1 show ?thesis by (simp add: lead_cases(1) [OF assms(1)])
  next
    case 2
    then have "0xE0 \<le> lead d" using lead_cases [OF assms(2)] by (cases "d < 0x10000") auto
    with 2 show ?thesis by (simp add: lead_cases(2) [OF assms(1)])
  next
    case 3
    then have "0xF0 \<le> lead d" using lead_cases(4) [OF assms(2)] by auto
    with 3 show ?thesis by (simp add: lead_cases(3) [OF assms(1)])
  qed
qed

lemma encode_cons: "\<exists>bs. encode_utf8 c = byte_of (lead c) # bs"
  by (auto simp: lead_def encode_utf8_def)

lemma unat_cont: "unat (byte_of (0x80 + k mod 64)) = 0x80 + k mod 64"
proof -
  have "k mod 64 < 64" by simp
  then show ?thesis by (intro unat_lead) linarith
qed

lemma encode_less_same:
  assumes "scalar c" "scalar d" "c < d" "len_utf8 c = len_utf8 d"
  shows "list_cmp unat (encode_utf8 c @ xs) (encode_utf8 d @ ys) = Less"
proof -
  have step: "a div 64 < b div 64 \<or> (a div 64 = b div 64 \<and> a mod 64 < b mod 64)" if "a < b" for a b :: nat
    by (rule less_div_mod [OF that]) simp
  note less = step [OF assms(3)]
  note eqs = encode_utf8_def unat_cont
  consider "d < 0x80" | "0x80 \<le> c" "d < 0x800" | "0x800 \<le> c" "d < 0x10000" | "0x10000 \<le> c"
    using assms(3,4) by (auto simp: len_utf8_def split: if_splits)
  then show ?thesis
  proof cases
    case 1
    with assms(3) show ?thesis by (simp add: encode_utf8_def unat_lead)
  next
    case 2
    then have u: "unat (byte_of (0xC0 + c div 64)) = 0xC0 + c div 64"
      "unat (byte_of (0xC0 + d div 64)) = 0xC0 + d div 64" using assms(3) by (intro unat_lead; linarith)+
    from 2 assms(3) less show ?thesis by (elim disjE conjE) (simp_all add: eqs u)
  next
    case 3
    then have u: "unat (byte_of (0xE0 + c div 4096)) = 0xE0 + c div 4096"
      "unat (byte_of (0xE0 + d div 4096)) = 0xE0 + d div 4096" using assms(3) by (intro unat_lead; linarith)+
    have m: "k div 64 div 64 = k div 4096" for k :: nat by (simp add: div_mult2_eq [symmetric])
    from less show ?thesis
    proof (elim disjE conjE)
      assume "c div 64 < d div 64"
      from step [OF this] 3 assms(3) show ?thesis
        by (elim disjE conjE) (simp_all add: eqs u m)
    next
      assume e: "c div 64 = d div 64" "c mod 64 < d mod 64"
      then have "c div 4096 = d div 4096" by (simp flip: m)
      with e 3 assms(3) show ?thesis by (simp add: eqs u)
    qed
  next
    case 4
    then have u: "unat (byte_of (0xF0 + c div 262144)) = 0xF0 + c div 262144"
      "unat (byte_of (0xF0 + d div 262144)) = 0xF0 + d div 262144"
      using scalar_less [OF assms(1)] scalar_less [OF assms(2)] by (intro unat_lead; linarith)+
    have m: "k div 64 div 64 = k div 4096" "k div 4096 div 64 = k div 262144" for k :: nat
      by (simp_all add: div_mult2_eq [symmetric])
    from less show ?thesis
    proof (elim disjE conjE)
      assume "c div 64 < d div 64"
      from step [OF this] show ?thesis
      proof (elim disjE conjE)
        assume "c div 64 div 64 < d div 64 div 64"
        then have "c div 4096 < d div 4096" by (simp add: m)
        from step [OF this] 4 assms(3) show ?thesis
          by (elim disjE conjE) (simp_all add: eqs u m)
      next
        assume e: "c div 64 div 64 = d div 64 div 64" "c div 64 mod 64 < d div 64 mod 64"
        then have f: "c div 4096 = d div 4096" by (simp add: m)
        then have "c div 262144 = d div 262144" by (simp flip: m(2))
        with e f 4 assms(3) show ?thesis by (simp add: eqs u)
      qed
    next
      assume e: "c div 64 = d div 64" "c mod 64 < d mod 64"
      then have f: "c div 4096 = d div 4096" by (simp flip: m(1))
      then have "c div 262144 = d div 262144" by (simp flip: m(2))
      with e f 4 assms(3) show ?thesis by (simp add: eqs u)
    qed
  qed
qed

lemma encode_less:
  assumes "scalar c" "scalar d" "c < d"
  shows "list_cmp unat (encode_utf8 c @ xs) (encode_utf8 d @ ys) = Less"
proof (cases "len_utf8 c = len_utf8 d")
  case True
  with assms show ?thesis by (rule encode_less_same)
next
  case False
  obtain bs ds where "encode_utf8 c = byte_of (lead c) # bs" "encode_utf8 d = byte_of (lead d) # ds"
    using encode_cons by blast
  moreover have "unat (byte_of (lead c)) = lead c" "unat (byte_of (lead d)) = lead d"
    by (simp_all add: unat_lead lead_def)
  ultimately show ?thesis using lead_less [OF assms False] by simp
qed

lemma encode_not_Nil: "encode_utf8 c @ xs \<noteq> []"
  using encode_cons [of c] by auto

lemma str_cmp_chars:
  assumes "\<forall>c \<in> set cs. scalar c" "\<forall>d \<in> set ds. scalar d"
  shows "str_cmp (str_of cs) (str_of ds) = chars_cmp cs ds"
  using assms unfolding str_cmp_def chars_cmp_def
proof (induction cs arbitrary: ds)
  case Nil
  then show ?case
  proof (cases ds)
    case (Cons d ds')
    obtain b bs where "encode_utf8 d @ str_of ds' = b # bs" using encode_not_Nil list.exhaust by metis
    with Cons show ?thesis by simp
  qed simp
next
  case (Cons c cs)
  show ?case
  proof (cases ds)
    case Nil
    obtain b bs where "encode_utf8 c @ str_of cs = b # bs" using encode_not_Nil list.exhaust by metis
    with Nil show ?thesis by simp
  next
    case (Cons d ds')
    note ds = Cons
    have s: "scalar c" "scalar d" using Cons.prems ds by simp_all
    consider "c < d" | "d < c" | "c = d" by linarith
    then show ?thesis
    proof cases
      case 1
      with encode_less [OF s] show ?thesis by (simp add: ds)
    next
      case 2
      with encode_less [OF s(2,1) 2] show ?thesis
        by (subst list_cmp_opposite) (simp add: ds opposite_def)
    next
      case 3
      with Cons.IH [of ds'] Cons.prems ds show ?thesis by (simp add: list_cmp_same_prefix)
    qed
  qed
qed

end
