(* ===== verification/Mutations.thy ===== *)
theory Mutations
  imports Compare
begin

text \<open>
  The editing methods as one family. A \<open>mutation\<close> names a method of \<^verbatim>\<open>LeanString\<close> and
  its arguments, \<open>run_mutation\<close> runs it, \<open>effect\<close> is what it means for the text: whether the
  arguments are in range, and the text afterwards; \<open>replied\<close> is what the method returns. Likewise \<open>copying\<close> for the methods that make a new
  value out of an old one. One theorem per family: the method has exactly that effect, or memory ran
  out, or a count overflowed, and then the text is as it was.
\<close>

section \<open>Editing\<close>

datatype mutation =
    PushStr "byte list"
  | Push uchar
  | Pop
  | InsertStr nat "byte list"
  | Insert nat uchar
  | Remove nat
  | Retain "nat \<Rightarrow> uchar \<Rightarrow> bool option"
  | Truncate nat
  | Clear
  | ReplaceRange "bound \<times> bound" "byte list"
  | ExtendFromWithin "bound \<times> bound"
  | MakeAscii letter_case
  | Reserve nat
  | ReserveExact nat
  | ShrinkTo nat
  | ShrinkToFit

text \<open>What a method returns besides the values of the crate: nothing, a character, or what it has read.\<close>

datatype reply =
    Done
  | Popped "uchar option"
  | Removed uchar
  | Size nat
  | Truth bool
  | Content "byte list"
  | StaticContent "byte list option"
  | Order ordering

definition answering :: "('a \<Rightarrow> reply) \<Rightarrow> ('s, 'a) prog \<Rightarrow> ('s, reply) prog" where
  "answering f m = bind m (\<lambda>x. ret (f x))"

definition silently :: "('s, unit) prog \<Rightarrow> ('s, reply) prog" where
  "silently m = answering (\<lambda>_. Done) m"

fun run_mutation :: "target \<Rightarrow> mutation \<Rightarrow> (repr st, reply) prog" where
  "run_mutation t (PushStr x) = silently (try_push_str t x)"
| "run_mutation t (Push c) = silently (try_push t c)"
| "run_mutation t Pop = answering Popped (try_pop t)"
| "run_mutation t (InsertStr i x) = silently (try_insert_str t i x)"
| "run_mutation t (Insert i c) = silently (try_insert t i c)"
| "run_mutation t (Remove i) = answering Removed (try_remove t i)"
| "run_mutation t (Retain p) = silently (try_retain t p)"
| "run_mutation t (Truncate n) = silently (try_truncate t n)"
| "run_mutation t Clear = silently (lean_clear t)"
| "run_mutation t (ReplaceRange r x) = silently (try_replace_range t r x)"
| "run_mutation t (ExtendFromWithin r) = silently (try_extend_from_within t r)"
| "run_mutation t (MakeAscii Lower) = silently (try_make_ascii_lowercase t)"
| "run_mutation t (MakeAscii Upper) = silently (try_make_ascii_uppercase t)"
| "run_mutation t (Reserve n) = silently (try_reserve t n)"
| "run_mutation t (ReserveExact n) = silently (try_reserve_exact t n)"
| "run_mutation t (ShrinkTo n) = silently (try_shrink_to t n)"
| "run_mutation t ShrinkToFit = silently (try_shrink_to_fit t)"

text \<open>The methods that panic where these return an error. \<^verbatim>\<open>clear\<close> has only one form.\<close>

fun run_mutation_or_panic :: "target \<Rightarrow> mutation \<Rightarrow> (repr st, reply) prog" where
  "run_mutation_or_panic t (PushStr x) = silently (lean_push_str t x)"
| "run_mutation_or_panic t (Push c) = silently (lean_push t c)"
| "run_mutation_or_panic t Pop = answering Popped (lean_pop t)"
| "run_mutation_or_panic t (InsertStr i x) = silently (lean_insert_str t i x)"
| "run_mutation_or_panic t (Insert i c) = silently (lean_insert t i c)"
| "run_mutation_or_panic t (Remove i) = answering Removed (lean_remove t i)"
| "run_mutation_or_panic t (Retain p) = silently (lean_retain t p)"
| "run_mutation_or_panic t (Truncate n) = silently (lean_truncate t n)"
| "run_mutation_or_panic t Clear = silently (lean_clear t)"
| "run_mutation_or_panic t (ReplaceRange r x) = silently (lean_replace_range t r x)"
| "run_mutation_or_panic t (ExtendFromWithin r) = silently (lean_extend_from_within t r)"
| "run_mutation_or_panic t (MakeAscii Lower) = silently (lean_make_ascii_lowercase t)"
| "run_mutation_or_panic t (MakeAscii Upper) = silently (lean_make_ascii_uppercase t)"
| "run_mutation_or_panic t (Reserve n) = silently (lean_reserve t n)"
| "run_mutation_or_panic t (ReserveExact n) = silently (lean_reserve_exact t n)"
| "run_mutation_or_panic t (ShrinkTo n) = silently (lean_shrink_to t n)"
| "run_mutation_or_panic t ShrinkToFit = silently (lean_shrink_to_fit t)"

text \<open>What the type system guarantees of the arguments.\<close>

fun mutation_ok :: "target \<Rightarrow> mutation \<Rightarrow> bool" where
  "mutation_ok t (PushStr x) \<longleftrightarrow> valid_utf8 x"
| "mutation_ok t (Push c) \<longleftrightarrow> scalar c"
| "mutation_ok t (InsertStr i x) \<longleftrightarrow> valid_utf8 x"
| "mutation_ok t (Insert i c) \<longleftrightarrow> scalar c"
| "mutation_ok t (ReplaceRange r x) \<longleftrightarrow> valid_utf8 x \<and> length x \<le> ISIZE_MAX t"
| "mutation_ok t m \<longleftrightarrow> True"

fun effect :: "target \<Rightarrow> mutation \<Rightarrow> byte list \<Rightarrow> bool \<times> byte list" where
  "effect t (PushStr x) xs = (True, xs @ x)"
| "effect t (Push c) xs = (True, xs @ encode_utf8 c)"
| "effect t Pop xs = (True, str_of (butlast (chars xs)))"
| "effect t (InsertStr i x) xs =
    (if is_char_boundary xs i then (True, take i xs @ x @ drop i xs) else (False, xs))"
| "effect t (Insert i c) xs =
    (if is_char_boundary xs i then (True, take i xs @ encode_utf8 c @ drop i xs) else (False, xs))"
| "effect t (Remove i) xs =
    (if is_char_boundary xs i \<and> i < length xs
     then (True, take i xs @ str_of (tl (chars (drop i xs)))) else (False, xs))"
| "effect t (Retain p) xs =
    (if find_removed p 0 0 (chars xs) = Panicked then (False, xs)
     else (\<not> snd (kept p 0 (chars xs)), str_of (fst (kept p 0 (chars xs)))))"
| "effect t (Truncate n) xs =
    (if length xs \<le> n then (True, xs)
     else if is_char_boundary xs n then (True, take n xs) else (False, xs))"
| "effect t Clear xs = (True, [])"
| "effect t (ReplaceRange r x) xs =
    (if range_ok t xs r
     then (True, take (range_start t r) xs @ x @ drop (range_end t (length xs) r) xs) else (False, xs))"
| "effect t (ExtendFromWithin r) xs =
    (if range_ok t xs r
     then (True, xs @ window xs (range_start t r) (range_end t (length xs) r - range_start t r))
     else (False, xs))"
| "effect t (MakeAscii c) xs = (True, map (ascii_case c) xs)"
| "effect t (Reserve n) xs = (True, xs)"
| "effect t (ReserveExact n) xs = (True, xs)"
| "effect t (ShrinkTo n) xs = (True, xs)"
| "effect t ShrinkToFit xs = (True, xs)"

fun replied :: "mutation \<Rightarrow> byte list \<Rightarrow> reply" where
  "replied Pop xs = Popped (if xs = [] then None else Some (last (chars xs)))"
| "replied (Remove i) xs = Removed (hd (chars (drop i xs)))"
| "replied m xs = Done"

text \<open>The number of bytes a method needs at most, given the length of the text.\<close>

fun demand :: "target \<Rightarrow> mutation \<Rightarrow> nat \<Rightarrow> nat" where
  "demand t (PushStr x) n = n + length x"
| "demand t (Push c) n = n + len_utf8 c"
| "demand t (InsertStr i x) n = n + length x"
| "demand t (Insert i c) n = n + len_utf8 c"
| "demand t (ReplaceRange r x) n = n + length x"
| "demand t (ExtendFromWithin r) n = n + (range_end t n r - range_start t r)"
| "demand t (Reserve k) n = n + k"
| "demand t (ReserveExact k) n = n + k"
| "demand t (ShrinkTo k) n = max n k"
| "demand t m n = n"

text \<open>\<open>returned\<close>, \<open>failed\<close> and \<open>panicked\<close> are the three ways an editing method ends.\<close>

definition returned ::
  "target \<Rightarrow> owner multiset \<Rightarrow> mutation \<Rightarrow> byte list \<Rightarrow> repr st \<Rightarrow> reply \<Rightarrow> repr st \<Rightarrow> bool"
where
  "returned t R m xs s a s' \<longleftrightarrow> fst (effect t m xs) \<and> a = replied m xs \<and> holds t R (snd (effect t m xs)) s' \<and> later s s'"

definition failed :: "target \<Rightarrow> owner multiset \<Rightarrow> mutation \<Rightarrow> byte list \<Rightarrow> repr st \<Rightarrow> repr st \<Rightarrow> bool" where
  "failed t R m xs s s' \<longleftrightarrow>
    holds t R xs s' \<and> self s' = self s \<and> later s s' \<and> out_of_memory t (demand t m (length xs)) s s'"

definition panicked :: "target \<Rightarrow> owner multiset \<Rightarrow> mutation \<Rightarrow> byte list \<Rightarrow> repr st \<Rightarrow> repr st \<Rightarrow> bool" where
  "panicked t R m xs s s' \<longleftrightarrow>
    (\<not> fst (effect t m xs) \<and> holds t R (snd (effect t m xs)) s' \<and> later s s') \<or>
    (s' = s \<and> holds t R xs s \<and> snd (effect t m xs) = xs \<and>
      count_limit t (add_mset (Mutable, self s, xs) R) (self s))"

lemmas ends = returned_def panicked_def

lemma wp_answering [simp]: "wp (answering f m) Q E P s = wp m (\<lambda>x. Q (f x)) E P s"
  by (simp add: answering_def)

lemma wp_silently [simp]: "wp (silently m) Q E P s = wp m (\<lambda>_. Q Done) E P s"
  by (simp add: silently_def)

lemma failed_exact:
  "rejected t R xs c s s' \<Longrightarrow> c \<le> demand t m (length xs) \<Longrightarrow> failed t R m xs s s'"
  by (simp add: failed_def rejected_out_of_memory) (simp add: rejected_def)

lemma failed_amortized:
  "rejected t R xs (amortized t (length xs) k) s s' \<Longrightarrow> length xs + k \<le> demand t m (length xs) \<Longrightarrow>
    failed t R m xs s s'"
  using amortized_le [of "length xs" k "demand t m (length xs)" t]
  by (simp add: failed_def rejected_out_of_memory) (simp add: rejected_def)

lemma failed_replace:
  "rejected t R xs (replace_room t w (length xs) d k) s s' \<Longrightarrow> length xs + k \<le> demand t m (length xs) \<Longrightarrow>
    failed t R m xs s s'"
  by (cases w) (auto simp: replace_room_def intro: failed_amortized failed_exact)

lemma length_butlast_chars:
  assumes "valid_utf8 xs"
  shows "length (str_of (butlast (chars xs))) \<le> length xs"
proof (cases "chars xs" rule: rev_cases)
  case (snoc cs c)
  then have "length xs = length (str_of (cs @ [c]))" using str_of_chars [OF assms] by simp
  with snoc show ?thesis by (simp add: str_of_def)
qed simp

lemmas fails = failed_exact failed_amortized failed_replace

lemma mutation_sound:
  assumes h: "holds t R xs s" and ok: "mutation_ok t m"
  shows "wp (run_mutation t m) (returned t R m xs s) (failed t R m xs s) (panicked t R m xs s) s"
proof (cases m)
  case (PushStr x)
  with ok show ?thesis
    by (auto simp: try_push_str_def returned_def edited_def intro: fails intro!: wp_mono [OF holds_push_str [OF h]])
next
  case (Push c)
  with ok show ?thesis
    by (auto simp: try_push_def returned_def edited_def intro: fails intro!: wp_mono [OF holds_push_char [OF h]])
next
  case Pop
  then show ?thesis using h length_butlast_chars [OF holds_valid [OF h]]
    by (auto simp: try_pop_def returned_def edited_def chars_str_of [of "[]", simplified] intro: fails
      intro!: wp_mono [OF holds_pop [OF h]] split: if_splits)
next
  case (InsertStr i x)
  with ok show ?thesis
    by (auto simp: try_insert_str_def ends edited_def h
      intro: fails intro!: wp_mono [OF holds_insert_str [OF h, of x i]])
next
  case (Insert i c)
  with ok show ?thesis
    by (auto simp: try_insert_def ends edited_def h intro: fails intro!: wp_mono [OF holds_insert_char [OF h, of c i]])
next
  case (Remove i)
  then show ?thesis
    by (auto simp: try_remove_def ends edited_def h split: if_splits intro: fails intro!: wp_mono [OF holds_remove [OF h, of i]])
next
  case (Retain p)
  then show ?thesis
    by (auto simp: try_retain_def ends edited_def h dest: find_removed_Panicked split: if_splits
      intro: fails intro!: wp_mono [OF holds_retain [OF h, of p]])
next
  case (Truncate n)
  then show ?thesis
    by (auto simp: try_truncate_def ends edited_def h split: if_splits
      intro: fails intro!: wp_mono [OF holds_truncate [OF h, of n]])
next
  case Clear
  then show ?thesis
    by (auto simp: lean_clear_def returned_def edited_def intro!: wp_mono [OF holds_clear [OF h, where P = "\<lambda>_. False" and E = "\<lambda>_. False"]])
next
  case (ReplaceRange r x)
  with ok show ?thesis
    by (auto simp: try_replace_range_def ends edited_def h split: if_splits intro: fails intro!: wp_mono [OF holds_replace_range [OF h, of x r]])
next
  case (ExtendFromWithin r)
  then show ?thesis
    by (auto simp: try_extend_from_within_def ends edited_def h split: if_splits intro: fails intro!: wp_mono [OF holds_extend_from_within [OF h, of r]])
next
  case (MakeAscii c)
  then show ?thesis
    by (cases c) (auto simp: try_make_ascii_lowercase_def try_make_ascii_uppercase_def ends edited_def h
      intro: fails intro!: wp_mono [OF holds_make_ascii_case [OF h]])
next
  case (Reserve n)
  then show ?thesis
  proof (cases "n = 0")
    case False
    with Reserve show ?thesis
      by (auto simp: try_reserve_def returned_def roomy_def intro: fails intro!: wp_mono [OF holds_reserve [OF h]])
  qed (use h in \<open>simp add: try_reserve_def reserve_def returned_def\<close>)
next
  case (ReserveExact n)
  then show ?thesis
  proof (cases "n = 0")
    case False
    with ReserveExact show ?thesis
      by (auto simp: try_reserve_exact_def returned_def roomy_def intro: fails
        intro!: wp_mono [OF holds_reserve_exact [OF h]])
  qed (use h in \<open>simp add: try_reserve_exact_def reserve_exact_def returned_def\<close>)
next
  case (ShrinkTo n)
  obtain c where "has_capacity t s c" using h by (rule holds_capacityE)
  with ShrinkTo show ?thesis
    by (auto simp: try_shrink_to_def returned_def grown_def h split: if_splits intro: fails
      intro!: wp_mono [OF holds_shrink_to [OF h]])
next
  case ShrinkToFit
  obtain c where "has_capacity t s c" using h by (rule holds_capacityE)
  with ShrinkToFit show ?thesis
    by (auto simp: try_shrink_to_fit_def returned_def grown_def h split: if_splits intro: fails
      intro!: wp_mono [OF holds_shrink_to [OF h]])
qed

text \<open>A panicking method is the other one with its error unwrapped.\<close>

lemma mutation_or_panic_sound:
  assumes h: "holds t R xs s" and ok: "mutation_ok t m"
  shows "wp (run_mutation_or_panic t m) (returned t R m xs s) E
    (\<lambda>s'. failed t R m xs s s' \<or> panicked t R m xs s s') s"
proof (cases "m = Clear")
  case True
  then show ?thesis
    by (auto simp: lean_clear_def returned_def edited_def intro!: wp_mono [OF holds_clear [OF h, where P = "\<lambda>_. False" and E = "\<lambda>_. False"]])
next
  case False
  have "wp (run_mutation t m) (returned t R m xs s) (\<lambda>s'. failed t R m xs s s' \<or> panicked t R m xs s s')
    (\<lambda>s'. failed t R m xs s s' \<or> panicked t R m xs s s') s"
    by (rule wp_mono [OF mutation_sound [OF h ok]]) auto
  with False show ?thesis
    by (cases "(t, m)" rule: run_mutation_or_panic.cases)
      (simp_all add: lean_push_str_def lean_push_def lean_pop_def lean_insert_str_def lean_insert_def lean_remove_def
        lean_retain_def lean_truncate_def lean_replace_range_def lean_extend_from_within_def
        lean_make_ascii_lowercase_def lean_make_ascii_uppercase_def lean_reserve_def lean_reserve_exact_def
        lean_shrink_to_def lean_shrink_to_fit_def)
qed

text \<open>With memory for the text, a call in range returns.\<close>

definition enough_memory :: "target \<Rightarrow> nat \<Rightarrow> 'r st \<Rightarrow> bool" where
  "enough_memory t n s \<longleftrightarrow> fits t Mutable (n + n div 2) \<and> (\<forall>i. \<not> oom s i)"

lemma enough_memory_not_out:
  "enough_memory t n s \<Longrightarrow> m \<le> n \<Longrightarrow> \<not> out_of_memory t m s s'"
  using fits_less [of t "n + n div 2" "m + m div 2" Mutable] div_le_mono [of m n 2]
  by (auto simp: enough_memory_def out_of_memory_def refused_def oom_between_def)

lemma enough_memory_self [simp]: "enough_memory t n (s\<lparr>self := r\<rparr>) = enough_memory t n s"
  by (simp add: enough_memory_def)

lemma mutation_returns:
  assumes h: "holds t R xs s" and ok: "mutation_ok t m" and eff: "fst (effect t m xs)"
    and mem: "enough_memory t (demand t m (length xs)) s" and few: "size R < ISIZE_MAX t"
  shows "wp (run_mutation t m) (returned t R m xs s) (\<lambda>_. False) (\<lambda>_. False) s"
proof (rule wp_mono [OF mutation_sound [OF h ok]])
  show "False" if "failed t R m xs s s'" for s'
    using that enough_memory_not_out [OF mem order_refl] by (auto simp: failed_def)
  have "handles (add_mset (Mutable, self s, xs) R) b \<le> ISIZE_MAX t" for b
    using size_filter_mset_lesseq [of "owner_of b" "add_mset (Mutable, self s, xs) R"] few
    unfolding handles_def by simp
  then have "\<not> count_limit t (add_mset (Mutable, self s, xs) R) (self s)"
    by (auto simp: count_limit_def not_less simp del: handles_add)
  then show "False" if "panicked t R m xs s s'" for s'
    using that eff by (auto simp: panicked_def)
qed

section \<open>Copying\<close>

text \<open>The methods on \<^verbatim>\<open>&self\<close> that return a new value of the same type. The
  conversions of case panic when memory runs out, they have no \<open>try_\<close> form.\<close>

datatype copying =
    Cloned
  | Repeated nat
  | AsciiCased letter_case
  | Cased letter_case

fun run_copying :: "target \<Rightarrow> unicode \<Rightarrow> copying \<Rightarrow> header \<Rightarrow> repr \<Rightarrow> (repr st, repr) prog" where
  "run_copying t u Cloned Mutable r = lean_clone t r"
| "run_copying t u Cloned Immutable r = lstr_clone t r"
| "run_copying t u (Repeated n) Mutable r = try_repeat t r n"
| "run_copying t u (Repeated n) Immutable r = lstr_try_repeat t r n"
| "run_copying t u (AsciiCased Lower) Mutable r = try_to_ascii_lowercase t r"
| "run_copying t u (AsciiCased Lower) Immutable r = lstr_try_to_ascii_lowercase t r"
| "run_copying t u (AsciiCased Upper) Mutable r = try_to_ascii_uppercase t r"
| "run_copying t u (AsciiCased Upper) Immutable r = lstr_try_to_ascii_uppercase t r"
| "run_copying t u (Cased Lower) Mutable r = lean_to_lowercase t u r"
| "run_copying t u (Cased Lower) Immutable r = lstr_to_lowercase t u r"
| "run_copying t u (Cased Upper) Mutable r = lean_to_uppercase t u r"
| "run_copying t u (Cased Upper) Immutable r = lstr_to_uppercase t u r"

fun run_copying_or_panic :: "target \<Rightarrow> unicode \<Rightarrow> copying \<Rightarrow> header \<Rightarrow> repr \<Rightarrow> (repr st, repr) prog" where
  "run_copying_or_panic t u Cloned h r = run_copying t u Cloned h r"
| "run_copying_or_panic t u (Repeated n) Mutable r = lean_repeat t r n"
| "run_copying_or_panic t u (Repeated n) Immutable r = lstr_repeat t r n"
| "run_copying_or_panic t u (AsciiCased Lower) Mutable r = lean_to_ascii_lowercase t r"
| "run_copying_or_panic t u (AsciiCased Lower) Immutable r = lstr_to_ascii_lowercase t r"
| "run_copying_or_panic t u (AsciiCased Upper) Mutable r = lean_to_ascii_uppercase t r"
| "run_copying_or_panic t u (AsciiCased Upper) Immutable r = lstr_to_ascii_uppercase t r"
| "run_copying_or_panic t u (Cased c) h r = run_copying t u (Cased c) h r"

fun copied :: "unicode \<Rightarrow> copying \<Rightarrow> byte list \<Rightarrow> byte list" where
  "copied u Cloned xs = xs"
| "copied u (Repeated n) xs = concat (replicate n xs)"
| "copied u (AsciiCased c) xs = map (ascii_case c) xs"
| "copied u (Cased c) xs = case_text u c xs"

fun copy_demand :: "unicode \<Rightarrow> copying \<Rightarrow> byte list \<Rightarrow> nat" where
  "copy_demand u Cloned xs = 0"
| "copy_demand u (Repeated n) xs = length xs * n"
| "copy_demand u (AsciiCased c) xs = length xs"
| "copy_demand u (Cased c) xs = case_size u c xs"

lemma sound_repeated:
  assumes "sound t R s" "(h, r, xs) \<in># R"
  shows "wp (repr_repeat t h r n)
    (\<lambda>r' s'. sound t (add_mset (h, r', concat (replicate n xs)) R) s' \<and> mem_only s s')
    (gave_up t R (length xs * n) s) (\<lambda>s'. s' = s \<and> count_limit t R r) s"
  by (rule wp_mono [OF sound_repr_repeat [OF assms]]) (auto intro: gave_upI)

lemma sound_ascii_cased:
  assumes "sound t R s" "(h, r, xs) \<in># R"
  shows "wp (to_ascii_case t h r c)
    (\<lambda>r' s'. sound t (add_mset (h, r', map (ascii_case c) xs) R) s' \<and> mem_only s s')
    (gave_up t R (length xs) s) (\<lambda>s'. s' = s \<and> count_limit t R r) s"
  by (rule wp_mono [OF sound_to_ascii_case [OF assms]]) (auto intro: gave_upI)

lemma copying_sound:
  assumes u: "unicode_ok u" and snd: "sound t R s" and r: "(h, r, xs) \<in># R"
  shows "wp (run_copying t u c h r)
    (\<lambda>r' s'. sound t (add_mset (h, r', copied u c xs) R) s' \<and> mem_only s s')
    (gave_up t R (copy_demand u c xs) s)
    (\<lambda>s'. gave_up t R (copy_demand u c xs) s s' \<or> (s' = s \<and> count_limit t R r)) s"
proof -
  note unfolds = try_repeat_def lstr_try_repeat_def try_to_ascii_lowercase_def try_to_ascii_uppercase_def
    lstr_try_to_ascii_lowercase_def lstr_try_to_ascii_uppercase_def
  note rules = lean.clone [OF snd] lstr.clone [OF snd] sound_repeated [OF snd] sound_ascii_cased [OF snd]
    sound_to_lowercase [OF u snd, where E = "\<lambda>_. False"] sound_to_uppercase [OF u snd, where E = "\<lambda>_. False"]
    sound_lstr_to_lowercase [OF u snd, where E = "\<lambda>_. False"]
    sound_lstr_to_uppercase [OF u snd, where E = "\<lambda>_. False"]
  show ?thesis using r
    by (cases "(t, u, c, h, r)" rule: run_copying.cases)
      (auto simp: unfolds elim!: rules [THEN wp_mono])
qed

lemma copying_or_panic_sound:
  assumes u: "unicode_ok u" and snd: "sound t R s" and r: "(h, r, xs) \<in># R"
  shows "wp (run_copying_or_panic t u c h r)
    (\<lambda>r' s'. sound t (add_mset (h, r', copied u c xs) R) s' \<and> mem_only s s') (\<lambda>_. False)
    (\<lambda>s'. gave_up t R (copy_demand u c xs) s s' \<or> (s' = s \<and> count_limit t R r)) s"
proof -
  note unfolds = try_repeat_def lstr_try_repeat_def try_to_ascii_lowercase_def try_to_ascii_uppercase_def
    lstr_try_to_ascii_lowercase_def lstr_try_to_ascii_uppercase_def lean_repeat_def lstr_repeat_def
    lean_to_ascii_lowercase_def lean_to_ascii_uppercase_def lstr_to_ascii_lowercase_def lstr_to_ascii_uppercase_def
  note rules = lean.clone [OF snd] lstr.clone [OF snd] sound_repeated [OF snd] sound_ascii_cased [OF snd]
    sound_to_lowercase [OF u snd, where E = "\<lambda>_. False"] sound_to_uppercase [OF u snd, where E = "\<lambda>_. False"]
    sound_lstr_to_lowercase [OF u snd, where E = "\<lambda>_. False"]
    sound_lstr_to_uppercase [OF u snd, where E = "\<lambda>_. False"]
  have "wp (run_copying t u (Cased k) h r)
    (\<lambda>r' s'. sound t (add_mset (h, r', copied u (Cased k) xs) R) s' \<and> mem_only s s') (\<lambda>_. False)
    (\<lambda>s'. gave_up t R (copy_demand u (Cased k) xs) s s' \<or> (s' = s \<and> count_limit t R r)) s" for k
    using r by (cases k; cases h) (auto elim!: rules [THEN wp_mono])
  moreover have "wp (run_copying t u Cloned h r)
    (\<lambda>r' s'. sound t (add_mset (h, r', copied u Cloned xs) R) s' \<and> mem_only s s') (\<lambda>_. False)
    (\<lambda>s'. gave_up t R (copy_demand u Cloned xs) s s' \<or> (s' = s \<and> count_limit t R r)) s"
    using r by (cases h) (auto elim!: rules [THEN wp_mono])
  ultimately show ?thesis using r
    by (cases "(t, u, c, h, r)" rule: run_copying_or_panic.cases)
      (auto simp: unfolds elim!: rules [THEN wp_mono])
qed

end
