(* ===== verification/Decoding.thy ===== *)
theory Decoding
  imports Utf8
begin

text \<open>
  The decodings of the standard library that the constructors \<^verbatim>\<open>from_utf8*\<close> and
  \<^verbatim>\<open>from_utf16*\<close> of \<open>src/src/lib.rs\<close> use: \<^verbatim>\<open>str::from_utf8\<close>,
  \<^verbatim>\<open>[u8]::utf8_chunks\<close>, \<^verbatim>\<open>char::decode_utf16\<close>,
  \<^verbatim>\<open>as_chunks::<2>\<close> and \<^verbatim>\<open>align_to::<u16>\<close>, with what they mean: the
  lossy decoding of valid text is the text, and decoding inverts the UTF-16 encoding.
\<close>

definition REPLACEMENT_CHARACTER :: uchar where
  "REPLACEMENT_CHARACTER = 0xFFFD"

lemma scalar_REPLACEMENT [simp]: "scalar REPLACEMENT_CHARACTER"
  by (simp add: scalar_def REPLACEMENT_CHARACTER_def)

section \<open>UTF-8 with errors\<close>

text \<open>The number of bytes of the incomplete sequence at the front of a text that does not start with
  a character: the lead byte, and the continuation bytes that could have followed it.\<close>

definition utf8_char_width :: "byte \<Rightarrow> nat" where
  "utf8_char_width b =
    (let x = unat b in
     if x < 0x80 then 1 else if 0xC2 \<le> x \<and> x \<le> 0xDF then 2
     else if 0xE0 \<le> x \<and> x \<le> 0xEF then 3 else if 0xF0 \<le> x \<and> x \<le> 0xF4 then 4 else 0)"

definition second_byte_ok :: "byte \<Rightarrow> byte \<Rightarrow> bool" where
  "second_byte_ok b c =
    (let x = unat b; y = unat c in
     if x = 0xE0 then 0xA0 \<le> y \<and> y \<le> 0xBF
     else if x = 0xED then 0x80 \<le> y \<and> y \<le> 0x9F
     else if x = 0xF0 then 0x90 \<le> y \<and> y \<le> 0xBF
     else if x = 0xF4 then 0x80 \<le> y \<and> y \<le> 0x8F
     else 0x80 \<le> y \<and> y \<le> 0xBF)"

fun invalid_len :: "byte list \<Rightarrow> nat" where
  "invalid_len (b # c # d # _) =
    (if utf8_char_width b \<in> {3, 4} \<and> second_byte_ok b c then
       if utf8_char_width b = 4 \<and> is_cont d then 3 else 2
     else 1)"
| "invalid_len [b, c] = (if utf8_char_width b \<in> {3, 4} \<and> second_byte_ok b c then 2 else 1)"
| "invalid_len _ = 1"

text \<open>One chunk: the longest valid prefix, and the incomplete sequence after it.\<close>

function next_chunk :: "byte list \<Rightarrow> byte list \<times> byte list \<times> byte list" where
  "next_chunk bs =
    (if bs = [] then ([], [], [])
     else case decode_char bs of
       None \<Rightarrow> ([], take (invalid_len bs) bs, drop (invalid_len bs) bs)
     | Some (c, n) \<Rightarrow>
         let (valid, invalid, rest) = next_chunk (drop n bs) in (take n bs @ valid, invalid, rest))"
  by pat_completeness auto

termination
  by (relation "measure length") (auto dest: decode_char_len)

declare next_chunk.simps [simp del]

lemma invalid_len_pos [simp]: "0 < invalid_len bs"
  by (cases bs rule: invalid_len.cases) auto

lemma next_chunk_concat: "next_chunk bs = (v, i, r) \<Longrightarrow> v @ i @ r = bs"
proof (induction bs arbitrary: v i r rule: next_chunk.induct)
  case (1 bs)
  show ?case
  proof (cases "bs = [] \<or> decode_char bs = None")
    case True
    with 1(2) show ?thesis by (auto simp: next_chunk.simps [of bs] split: if_splits)
  next
    case False
    then obtain c n where d: "bs \<noteq> []" "decode_char bs = Some (c, n)" by auto
    obtain v' where v': "next_chunk (drop n bs) = (v', i, r)" "v = take n bs @ v'"
      using 1(2) d by (auto simp: next_chunk.simps [of bs] split: prod.splits)
    with 1(1) [OF d(1,2) refl v'(1)] show ?thesis by simp
  qed
qed

lemma next_chunk_valid: "next_chunk bs = (v, i, r) \<Longrightarrow> valid_utf8 v"
proof (induction bs arbitrary: v i r rule: next_chunk.induct)
  case (1 bs)
  show ?case
  proof (cases "bs = [] \<or> decode_char bs = None")
    case True
    with 1(2) show ?thesis by (auto simp: next_chunk.simps [of bs] split: if_splits)
  next
    case False
    then obtain c n where d: "bs \<noteq> []" "decode_char bs = Some (c, n)" by auto
    obtain v' where v': "next_chunk (drop n bs) = (v', i, r)" "v = take n bs @ v'"
      using 1(2) d by (auto simp: next_chunk.simps [of bs] split: prod.splits)
    have "take n bs = encode_utf8 c" "scalar c"
      using decode_char_Some [OF d(2)] by (metis append_eq_conv_conj length_encode_utf8)+
    with v' 1(1) [OF d(1,2) refl v'(1)] show ?thesis by simp
  qed
qed

lemma next_chunk_ends: "next_chunk bs = (v, i, r) \<Longrightarrow> bs \<noteq> [] \<Longrightarrow> length r < length bs"
  using next_chunk_concat [of bs v i r]
proof (induction bs arbitrary: v i r rule: next_chunk.induct)
  case (1 bs)
  show ?case
  proof (cases "decode_char bs")
    case None
    with 1(2,3) show ?thesis by (auto simp: next_chunk.simps [of bs])
  next
    case (Some p)
    then obtain c n where d: "decode_char bs = Some (c, n)" by (cases p) auto
    obtain v' where v': "v = take n bs @ v'" using 1(2,3) d
      by (auto simp: next_chunk.simps [of bs] split: prod.splits)
    have "0 < length v" using decode_char_len [OF d] v' by simp
    with 1(4) [OF 1(2)] show ?thesis by auto
  qed
qed

function utf8_chunks :: "byte list \<Rightarrow> (byte list \<times> byte list) list" where
  "utf8_chunks bs =
    (if bs = [] then []
     else let (valid, invalid, rest) = next_chunk bs in (valid, invalid) # utf8_chunks rest)"
  by pat_completeness auto

termination
  by (relation "measure length") (auto dest: next_chunk_ends [OF sym])

declare utf8_chunks.simps [simp del]

text \<open>The text that \<^verbatim>\<open>from_utf8_lossy\<close> stands for.\<close>

definition lossy_chunk :: "byte list \<times> byte list \<Rightarrow> byte list" where
  "lossy_chunk p = fst p @ (if snd p = [] then [] else encode_utf8 REPLACEMENT_CHARACTER)"

definition lossy_text :: "byte list \<Rightarrow> byte list" where
  "lossy_text bs = concat (map lossy_chunk (utf8_chunks bs))"

lemma utf8_chunks_valid: "list_all (\<lambda>p. valid_utf8 (fst p)) (utf8_chunks bs)"
  by (induction bs rule: utf8_chunks.induct)
    (subst utf8_chunks.simps, auto simp: next_chunk_valid split: prod.split)

lemma utf8_chunks_concat: "concat (map (\<lambda>p. fst p @ snd p) (utf8_chunks bs)) = bs"
  by (induction bs rule: utf8_chunks.induct)
    (subst utf8_chunks.simps, auto dest: next_chunk_concat split: prod.split)

lemma valid_lossy_chunk: "valid_utf8 (fst p) \<Longrightarrow> valid_utf8 (lossy_chunk p)"
  by (auto simp: lossy_chunk_def)

lemma valid_lossy_text: "valid_utf8 (lossy_text bs)"
proof -
  have "list_all (\<lambda>p. valid_utf8 (fst p)) ps \<Longrightarrow> valid_utf8 (concat (map lossy_chunk ps))" for ps
    by (induction ps) (auto simp: valid_lossy_chunk)
  then show ?thesis using utf8_chunks_valid by (simp add: lossy_text_def)
qed

lemma next_chunk_of_valid: "(\<forall>c \<in> set cs. scalar c) \<Longrightarrow> next_chunk (str_of cs) = (str_of cs, [], [])"
proof (induction cs)
  case (Cons c cs)
  then show ?case by (subst next_chunk.simps) (auto simp: drop_append take_append)
qed (simp add: next_chunk.simps)

lemma utf8_chunks_of_valid: "valid_utf8 bs \<Longrightarrow> utf8_chunks bs = (if bs = [] then [] else [(bs, [])])"
  by (elim valid_utf8E) (auto simp: utf8_chunks.simps next_chunk_of_valid)

lemma lossy_text_of_valid: "valid_utf8 bs \<Longrightarrow> lossy_text bs = bs"
  by (simp add: lossy_text_def utf8_chunks_of_valid lossy_chunk_def)

text \<open>\<^verbatim>\<open>Utf8Error\<close> as documented: how much of the input is valid, and the length of the
  sequence after it unless the input ends in the middle of one. \<^verbatim>\<open>str::from_utf8\<close>
  accepts exactly the valid texts.\<close>

datatype utf8_error = Utf8Error (valid_up_to: nat) (error_len: "nat option")

definition str_from_utf8 :: "byte list \<Rightarrow> utf8_error + byte list" where
  "str_from_utf8 bs =
    (if valid_utf8 bs then Inr bs
     else let (valid, invalid, rest) = next_chunk bs in
       Inl (Utf8Error (length valid)
         (if rest = [] \<and> utf8_char_width (hd invalid) \<noteq> 0 then None else Some (length invalid))))"

section \<open>UTF-16\<close>

type_synonym unit16 = "16 word"

definition is_utf16_surrogate :: "unit16 \<Rightarrow> bool" where
  "is_utf16_surrogate u \<longleftrightarrow> 0xD800 \<le> unat u \<and> unat u \<le> 0xDFFF"

definition join_surrogates :: "unit16 \<Rightarrow> unit16 \<Rightarrow> uchar" where
  "join_surrogates u v = (push_bit 10 (unat (u AND 0x3FF)) OR unat (v AND 0x3FF)) + 0x10000"

text \<open>A unit that is no half of a pair is given back as an error, and decoding goes on with the unit
  after it.\<close>

fun decode_utf16 :: "unit16 list \<Rightarrow> (unit16 + uchar) list" where
  "decode_utf16 [] = []"
| "decode_utf16 (u # us) =
    (if \<not> is_utf16_surrogate u then Inr (unat u) # decode_utf16 us
     else if 0xDC00 \<le> unat u then Inl u # decode_utf16 us
     else case us of
       [] \<Rightarrow> [Inl u]
     | v # us' \<Rightarrow>
         if unat v < 0xDC00 \<or> 0xDFFF < unat v then Inl u # decode_utf16 us
         else Inr (join_surrogates u v) # decode_utf16 us')"

definition encode_utf16 :: "uchar \<Rightarrow> unit16 list" where
  "encode_utf16 c =
    (if c < 0x10000 then [word_of_nat c]
     else [word_of_nat (0xD800 + (c - 0x10000) div 1024), word_of_nat (0xDC00 + (c - 0x10000) mod 1024)])"

lemma unat_word16: "unat (word_of_nat n :: unit16) = n mod 65536"
  by (simp add: unat_of_nat)

lemma unat_less_16 [simp]: "unat (u :: unit16) < 65536"
  using unsigned_less [of u] by simp

lemma low_ten_bits: "unat ((u :: unit16) AND 0x3FF) = unat u mod 1024"
proof -
  have "(0x3FF :: unit16) = mask 10" by (simp add: mask_eq_exp_minus_1)
  then have "unat (u AND 0x3FF) = take_bit 10 (unat u)"
    by (metis take_bit_eq_mask unsigned_take_bit_eq)
  then show ?thesis by (simp add: take_bit_eq_mod)
qed

lemma join_surrogates_eq:
  "join_surrogates u v = unat u mod 1024 * 1024 + unat v mod 1024 + 0x10000"
proof -
  have "push_bit 10 a OR b = a * 1024 + b" if "b < 1024" for a b :: nat
  proof -
    have "push_bit 10 a AND b = 0"
    proof (rule bit_eqI)
      fix n
      have "\<not> bit b n" if "10 \<le> n"
      proof -
        have "b < 2 ^ n" using \<open>b < 1024\<close> power_increasing [OF that, of "2 :: nat"] by simp
        then show ?thesis by (simp add: bit_iff_odd)
      qed
      then show "bit (push_bit 10 a AND b) n \<longleftrightarrow> bit (0 :: nat) n"
        by (auto simp: bit_and_iff bit_push_bit_iff)
    qed
    then have "push_bit 10 a OR b = push_bit 10 a + b" by (metis disjunctive_add_eq_or)
    then show ?thesis by (simp add: push_bit_eq_mult)
  qed
  then show ?thesis by (simp add: join_surrogates_def low_ten_bits)
qed

text \<open>One step of the decoder is one of three. Every fact about it is by induction on the length
  with these cases.\<close>

declare decode_utf16.simps(2) [simp del]

lemma decode_unit: "\<not> is_utf16_surrogate u \<Longrightarrow> decode_utf16 (u # us) = Inr (unat u) # decode_utf16 us"
  by (simp add: decode_utf16.simps(2))

lemma decode_pair:
  "is_utf16_surrogate u \<Longrightarrow> unat u < 0xDC00 \<Longrightarrow> 0xDC00 \<le> unat v \<Longrightarrow> unat v \<le> 0xDFFF \<Longrightarrow>
    decode_utf16 (u # v # us) = Inr (join_surrogates u v) # decode_utf16 us"
  by (simp add: decode_utf16.simps(2) [of u])

lemma decode_cases:
  obtains (nil) "us = []"
  | (unit) u us' where "us = u # us'" "\<not> is_utf16_surrogate u"
      "decode_utf16 us = Inr (unat u) # decode_utf16 us'"
  | (lone) u us' where "us = u # us'" "decode_utf16 us = Inl u # decode_utf16 us'"
  | (pair) u v us' where "us = u # v # us'" "is_utf16_surrogate u" "unat u < 0xDC00" "0xDC00 \<le> unat v"
      "unat v \<le> 0xDFFF" "decode_utf16 us = Inr (join_surrogates u v) # decode_utf16 us'"
proof (cases us)
  case (Cons u us')
  note us = Cons
  consider "\<not> is_utf16_surrogate u" | "is_utf16_surrogate u" "0xDC00 \<le> unat u"
    | "is_utf16_surrogate u" "unat u < 0xDC00" "us' = []"
    | v ws where "is_utf16_surrogate u" "unat u < 0xDC00" "us' = v # ws" "unat v < 0xDC00 \<or> 0xDFFF < unat v"
    | v ws where "is_utf16_surrogate u" "unat u < 0xDC00" "us' = v # ws" "0xDC00 \<le> unat v" "unat v \<le> 0xDFFF"
    by (metis linorder_not_le list.exhaust)
  then show ?thesis
  proof cases
    case 1
    then show ?thesis using us unit decode_unit by blast
  next
    case 2
    then show ?thesis using us lone by (simp add: decode_utf16.simps(2))
  next
    case 3
    then show ?thesis using us lone [of u "[]"] by (simp add: decode_utf16.simps(2))
  next
    case (4 v ws)
    then show ?thesis using us lone [of u "v # ws"] by (simp add: decode_utf16.simps(2) [of u])
  next
    case (5 v ws)
    then show ?thesis using us pair decode_pair by blast
  qed
qed (rule nil)

lemma mod_1024: "n < 1024 \<Longrightarrow> (0xD800 + n) mod 1024 = (n :: nat)" "n < 1024 \<Longrightarrow> (0xDC00 + n) mod 1024 = (n :: nat)"
  using mod_mult_self2 [of n 1024 54] mod_mult_self2 [of n 1024 55] by (simp_all add: add.commute)

text \<open>Decoding inverts encoding, in both directions.\<close>

lemma decode_utf16_unit:
  assumes "c < 0x10000" "scalar c"
  shows "decode_utf16 (encode_utf16 c @ us) = Inr c # decode_utf16 us"
proof -
  have "unat (word_of_nat c :: unit16) = c" using assms(1) by (simp add: unat_word16)
  moreover from this assms have "\<not> is_utf16_surrogate (word_of_nat c)"
    by (auto simp: is_utf16_surrogate_def scalar_def)
  ultimately show ?thesis using assms(1) by (simp add: encode_utf16_def decode_unit)
qed

lemma decode_utf16_pair:
  assumes "0x10000 \<le> c" "scalar c"
  shows "decode_utf16 (encode_utf16 c @ us) = Inr c # decode_utf16 us"
proof -
  define a b where "a = (c - 0x10000) div 1024" and "b = (c - 0x10000) mod 1024"
  define u v :: unit16 where "u = word_of_nat (0xD800 + a)" and "v = word_of_nat (0xDC00 + b)"
  have ab: "a < 1024" "b < 1024" "a * 1024 + b + 0x10000 = c"
    using assms scalar_less [of c] by (auto simp: a_def b_def)
  have uv: "unat u = 0xD800 + a" "unat v = 0xDC00 + b"
    unfolding u_def v_def unat_word16 using ab(1,2) by (simp_all only: mod_less)
  have "join_surrogates u v = c"
    unfolding join_surrogates_eq uv using mod_1024 ab by simp
  moreover have "encode_utf16 c = [u, v]" using assms(1) by (simp add: encode_utf16_def u_def v_def a_def b_def)
  ultimately show ?thesis using decode_pair [of u v us] ab(1,2) by (simp add: is_utf16_surrogate_def uv)
qed

lemma decode_encode_utf16:
  "(\<forall>c \<in> set cs. scalar c) \<Longrightarrow> decode_utf16 (concat (map encode_utf16 cs)) = map Inr cs"
proof (induction cs)
  case (Cons c cs)
  then show ?case by (cases "c < 0x10000") (simp_all add: decode_utf16_unit decode_utf16_pair)
qed simp

lemma scalar_unit: "\<not> is_utf16_surrogate u \<Longrightarrow> scalar (unat u)"
  using unat_less_16 [of u] unfolding is_utf16_surrogate_def scalar_def by linarith

lemma scalar_join: "scalar (join_surrogates u v)"
proof -
  have "unat u mod 1024 * 1024 + unat v mod 1024 < 0x100000"
    using mod_less_divisor [of 1024 "unat u"] mod_less_divisor [of 1024 "unat v"] by linarith
  then show ?thesis by (simp add: scalar_def join_surrogates_eq)
qed

lemma decode_utf16_scalar: "Inr c \<in> set (decode_utf16 us) \<Longrightarrow> scalar c"
proof (induction us rule: length_induct)
  case (1 us)
  show ?case
  proof (cases us rule: decode_cases)
    case (pair u v us')
    then show ?thesis using 1(1) [rule_format, of us'] 1(2) by (auto simp: scalar_join)
  qed (use 1 in \<open>auto simp: scalar_unit\<close>)
qed

lemma encode_unit: "encode_utf16 (unat u) = [u]"
  using unat_less_16 [of u] by (simp add: encode_utf16_def)

lemma encode_join:
  assumes "is_utf16_surrogate u" "unat u < 0xDC00" "0xDC00 \<le> unat v" "unat v \<le> 0xDFFF"
  shows "encode_utf16 (join_surrogates u v) = [u, v]"
proof -
  obtain a where a: "unat u = 0xD800 + a" "a < 1024"
    using assms(1,2) that [of "unat u - 0xD800"] by (auto simp: is_utf16_surrogate_def)
  obtain b where b: "unat v = 0xDC00 + b" "b < 1024"
    using assms(3,4) that [of "unat v - 0xDC00"] by auto
  have "join_surrogates u v = a * 1024 + b + 0x10000"
    unfolding join_surrogates_eq a(1) b(1) using mod_1024 a(2) b(2) by simp
  moreover have "(a * 1024 + b) div 1024 = a" "(a * 1024 + b) mod 1024 = b" using b(2) by simp_all
  ultimately have "encode_utf16 (join_surrogates u v) = [word_of_nat (unat u), word_of_nat (unat v)]"
    unfolding a(1) b(1) encode_utf16_def by simp
  then show ?thesis by simp
qed

lemma encode_decode_utf16:
  "list_all (\<lambda>x. \<not> isl x) (decode_utf16 us) \<Longrightarrow>
    concat (map (\<lambda>x. encode_utf16 (projr x)) (decode_utf16 us)) = us"
proof (induction us rule: length_induct)
  case (1 us)
  show ?case by (cases us rule: decode_cases) (use 1 in \<open>auto simp: encode_unit encode_join\<close>)
qed

section \<open>UTF-16 as bytes\<close>

text \<open>Chunks of two bytes and the odd one left over; a unit from two bytes.\<close>

fun as_chunks :: "byte list \<Rightarrow> (byte \<times> byte) list \<times> byte list" where
  "as_chunks (a # b # bs) = ((a, b) # fst (as_chunks bs), snd (as_chunks bs))"
| "as_chunks bs = ([], bs)"

definition unit_from_le_bytes :: "byte \<times> byte \<Rightarrow> unit16" where
  "unit_from_le_bytes p = word_of_nat (unat (fst p) + 256 * unat (snd p))"

definition unit_from_be_bytes :: "byte \<times> byte \<Rightarrow> unit16" where
  "unit_from_be_bytes p = word_of_nat (unat (snd p) + 256 * unat (fst p))"

definition unit_from_ne_bytes :: "target \<Rightarrow> byte \<times> byte \<Rightarrow> unit16" where
  "unit_from_ne_bytes t = (case target_endian t of
     LittleEndian \<Rightarrow> unit_from_le_bytes | BigEndian \<Rightarrow> unit_from_be_bytes)"

text \<open>\<^verbatim>\<open>align_to::<u16>\<close> splits a slice into a prefix, units in native order, and a
  suffix. \<open>aligned\<close> says that the slice starts at an address it can be read from; the other way is
  the documented permission to leave everything in the prefix.\<close>

definition align_to :: "target \<Rightarrow> bool \<Rightarrow> byte list \<Rightarrow> byte list \<times> unit16 list \<times> byte list" where
  "align_to t aligned bs =
    (if aligned then ([], map (unit_from_ne_bytes t) (fst (as_chunks bs)), snd (as_chunks bs))
     else (bs, [], []))"

lemma length_as_chunks:
  "length (fst (as_chunks bs)) = length bs div 2" "length (snd (as_chunks bs)) = length bs mod 2"
  by (induction bs rule: as_chunks.induct) auto

lemma as_chunks_odd: "snd (as_chunks bs) = [] \<longleftrightarrow> even (length bs)"
  by (metis even_iff_mod_2_eq_zero length_0_conv length_as_chunks(2))

end
