(* ===== verification/FromEncoded.thy ===== *)
theory FromEncoded
  imports Contracts Decoding
begin

text \<open>
  \<^verbatim>\<open>from_utf8*\<close> and \<^verbatim>\<open>from_utf16*\<close> of both types (\<open>src/src/lib.rs\<close>). The new
  value is a local variable filled by a loop; an error and a panic drop it. The locale
  \<open>lossy_sink\<close> writes the chunks of a lossy decoding to anything that takes characters and strings.
\<close>

section \<open>Errors\<close>

datatype from_utf16_error_kind = LoneSurrogate | OddBytes

datatype from_utf16_error = FromUtf16Error (kind: from_utf16_error_kind)

definition from_utf16_message :: "from_utf16_error \<Rightarrow> string" where
  "from_utf16_message e = (case kind e of
     LoneSurrogate \<Rightarrow> ''invalid utf-16: lone surrogate found''
   | OddBytes \<Rightarrow> ''invalid utf-16: odd number of bytes'')"

section \<open>UTF-8\<close>

definition lean_from_utf8 :: "target \<Rightarrow> byte list \<Rightarrow> ('r st, utf8_error + repr) prog" where
  "lean_from_utf8 t buf =
    (case str_from_utf8 buf of
       Inl e \<Rightarrow> ret (Inl e)
     | Inr str \<Rightarrow> bind (lean_from t Mutable str) (\<lambda>r. ret (Inr r)))"

definition push_chunk ::
  "(byte list \<Rightarrow> ('s, unit) prog) \<Rightarrow> (uchar \<Rightarrow> ('s, unit) prog) \<Rightarrow> byte list \<times> byte list \<Rightarrow> ('s, unit) prog"
where
  "push_chunk put_str put_char chunk =
    bind (put_str (fst chunk)) (\<lambda>_.
    if snd chunk \<noteq> [] then put_char REPLACEMENT_CHARACTER else ret ())"

definition lean_from_utf8_lossy :: "target \<Rightarrow> byte list \<Rightarrow> (repr st, repr) prog" where
  "lean_from_utf8_lossy t buf =
    bind (lean_with_capacity t (length buf)) (\<lambda>r.
    bind (scoped t r (for_each (utf8_chunks buf) (push_chunk (lean_push_str t) (lean_push t)))) (\<lambda>(_, r).
    ret r))"

definition lean_from_utf8_unchecked :: "target \<Rightarrow> byte list \<Rightarrow> ('r st, repr) prog" where
  "lean_from_utf8_unchecked t buf = bind (from_utf8_unchecked buf) (lean_from t Mutable)"

section \<open>UTF-16\<close>

primrec push_utf16 :: "target \<Rightarrow> (unit16 + uchar) list \<Rightarrow> (repr st, from_utf16_error + unit) prog" where
  "push_utf16 t [] = ret (Inr ())"
| "push_utf16 t (c # cs) = (case c of
     Inl _ \<Rightarrow> ret (Inl (FromUtf16Error LoneSurrogate))
   | Inr c \<Rightarrow> bind (lean_push t c) (\<lambda>_. push_utf16 t cs))"

definition from_utf16_units :: "target \<Rightarrow> unit16 list \<Rightarrow> nat \<Rightarrow> (repr st, from_utf16_error + repr) prog" where
  "from_utf16_units t units capacity =
    bind (lean_with_capacity t capacity) (\<lambda>r.
    bind (scoped t r (push_utf16 t (decode_utf16 units))) (\<lambda>(res, r). case res of
      Inl e \<Rightarrow> bind (lean_drop t r) (\<lambda>_. ret (Inl e))
    | Inr _ \<Rightarrow> ret (Inr r)))"

definition lean_from_utf16 :: "target \<Rightarrow> unit16 list \<Rightarrow> (repr st, from_utf16_error + repr) prog" where
  "lean_from_utf16 t buf = from_utf16_units t buf (length buf)"

definition unwrap_or_replacement :: "unit16 + uchar \<Rightarrow> uchar" where
  "unwrap_or_replacement c = (case c of Inl _ \<Rightarrow> REPLACEMENT_CHARACTER | Inr c \<Rightarrow> c)"

definition from_utf16_units_lossy :: "target \<Rightarrow> unit16 list \<Rightarrow> nat \<Rightarrow> (repr st, repr) prog" where
  "from_utf16_units_lossy t units capacity =
    bind (lean_with_capacity t capacity) (\<lambda>r.
    bind (scoped t r (for_each (map unwrap_or_replacement (decode_utf16 units)) (lean_push t))) (\<lambda>(_, r).
    ret r))"

definition lean_from_utf16_lossy :: "target \<Rightarrow> unit16 list \<Rightarrow> (repr st, repr) prog" where
  "lean_from_utf16_lossy t buf = from_utf16_units_lossy t buf (length buf)"

text \<open>\<^verbatim>\<open>string + "..."\<close>: the operator takes its left operand by value.\<close>

definition lean_add :: "target \<Rightarrow> repr \<Rightarrow> byte list \<Rightarrow> (repr st, repr) prog" where
  "lean_add t r rhs = bind (scoped t r (lean_push_str t rhs)) (\<lambda>(_, r). ret r)"

definition lean_add_assign :: "target \<Rightarrow> byte list \<Rightarrow> (repr st, unit) prog" where
  "lean_add_assign t rhs = lean_push_str t rhs"

definition lean_from_utf16le :: "target \<Rightarrow> bool \<Rightarrow> byte list \<Rightarrow> (repr st, from_utf16_error + repr) prog" where
  "lean_from_utf16le t aligned buf =
    (case as_chunks buf of
       (chunks, []) \<Rightarrow>
         (case (target_endian t = LittleEndian, align_to t aligned buf) of
            (True, ([], units, [])) \<Rightarrow> lean_from_utf16 t units
          | _ \<Rightarrow> from_utf16_units t (map unit_from_le_bytes chunks) (length chunks))
     | _ \<Rightarrow> ret (Inl (FromUtf16Error OddBytes)))"

definition lean_from_utf16le_lossy :: "target \<Rightarrow> bool \<Rightarrow> byte list \<Rightarrow> (repr st, repr) prog" where
  "lean_from_utf16le_lossy t aligned buf =
    (case (target_endian t = LittleEndian, align_to t aligned buf) of
       (True, ([], units, [])) \<Rightarrow> lean_from_utf16_lossy t units
     | (True, ([], units, [_])) \<Rightarrow>
         bind (lean_from_utf16_lossy t units) (\<lambda>string. lean_add t string (encode_utf8 REPLACEMENT_CHARACTER))
     | _ \<Rightarrow>
         let (chunks, remainder) = as_chunks buf in
         bind (from_utf16_units_lossy t (map unit_from_le_bytes chunks) (length chunks)) (\<lambda>string.
         if remainder = [] then ret string else lean_add t string (encode_utf8 REPLACEMENT_CHARACTER)))"

definition lean_from_utf16be :: "target \<Rightarrow> bool \<Rightarrow> byte list \<Rightarrow> (repr st, from_utf16_error + repr) prog" where
  "lean_from_utf16be t aligned buf =
    (case as_chunks buf of
       (chunks, []) \<Rightarrow>
         (case (target_endian t = BigEndian, align_to t aligned buf) of
            (True, ([], units, [])) \<Rightarrow> lean_from_utf16 t units
          | _ \<Rightarrow> from_utf16_units t (map unit_from_be_bytes chunks) (length chunks))
     | _ \<Rightarrow> ret (Inl (FromUtf16Error OddBytes)))"

definition lean_from_utf16be_lossy :: "target \<Rightarrow> bool \<Rightarrow> byte list \<Rightarrow> (repr st, repr) prog" where
  "lean_from_utf16be_lossy t aligned buf =
    (case (target_endian t = BigEndian, align_to t aligned buf) of
       (True, ([], units, [])) \<Rightarrow> lean_from_utf16_lossy t units
     | (True, ([], units, [_])) \<Rightarrow>
         bind (lean_from_utf16_lossy t units) (\<lambda>string. lean_add t string (encode_utf8 REPLACEMENT_CHARACTER))
     | _ \<Rightarrow>
         let (chunks, remainder) = as_chunks buf in
         bind (from_utf16_units_lossy t (map unit_from_be_bytes chunks) (length chunks)) (\<lambda>string.
         if remainder = [] then ret string else lean_add t string (encode_utf8 REPLACEMENT_CHARACTER)))"

section \<open>The immutable type\<close>

definition lstr_from_utf8 :: "target \<Rightarrow> byte list \<Rightarrow> ('r st, utf8_error + repr) prog" where
  "lstr_from_utf8 t buf =
    (case str_from_utf8 buf of
       Inl e \<Rightarrow> ret (Inl e)
     | Inr str \<Rightarrow> bind (lean_from t Immutable str) (\<lambda>r. ret (Inr r)))"

definition lstr_from_utf8_lossy :: "target \<Rightarrow> byte list \<Rightarrow> (repr st, repr) prog" where
  "lstr_from_utf8_lossy t buf = bind (lean_from_utf8_lossy t buf) (lean_into_lean_str t)"

definition lstr_from_utf8_unchecked :: "target \<Rightarrow> byte list \<Rightarrow> ('r st, repr) prog" where
  "lstr_from_utf8_unchecked t buf = bind (from_utf8_unchecked buf) (lean_from t Immutable)"

text \<open>\<^verbatim>\<open>Result::map(|x| x.into_lean_str())\<close>.\<close>

definition map_into_lean_str :: "target \<Rightarrow> from_utf16_error + repr \<Rightarrow> (repr st, from_utf16_error + repr) prog" where
  "map_into_lean_str t res = (case res of
     Inl e \<Rightarrow> ret (Inl e)
   | Inr x \<Rightarrow> bind (lean_into_lean_str t x) (\<lambda>r. ret (Inr r)))"

definition lstr_from_utf16 :: "target \<Rightarrow> unit16 list \<Rightarrow> (repr st, from_utf16_error + repr) prog" where
  "lstr_from_utf16 t buf = bind (lean_from_utf16 t buf) (map_into_lean_str t)"

definition lstr_from_utf16_lossy :: "target \<Rightarrow> unit16 list \<Rightarrow> (repr st, repr) prog" where
  "lstr_from_utf16_lossy t buf = bind (lean_from_utf16_lossy t buf) (lean_into_lean_str t)"

definition lstr_from_utf16le :: "target \<Rightarrow> bool \<Rightarrow> byte list \<Rightarrow> (repr st, from_utf16_error + repr) prog" where
  "lstr_from_utf16le t aligned buf = bind (lean_from_utf16le t aligned buf) (map_into_lean_str t)"

definition lstr_from_utf16le_lossy :: "target \<Rightarrow> bool \<Rightarrow> byte list \<Rightarrow> (repr st, repr) prog" where
  "lstr_from_utf16le_lossy t aligned buf = bind (lean_from_utf16le_lossy t aligned buf) (lean_into_lean_str t)"

definition lstr_from_utf16be :: "target \<Rightarrow> bool \<Rightarrow> byte list \<Rightarrow> (repr st, from_utf16_error + repr) prog" where
  "lstr_from_utf16be t aligned buf = bind (lean_from_utf16be t aligned buf) (map_into_lean_str t)"

definition lstr_from_utf16be_lossy :: "target \<Rightarrow> bool \<Rightarrow> byte list \<Rightarrow> (repr st, repr) prog" where
  "lstr_from_utf16be_lossy t aligned buf = bind (lean_from_utf16be_lossy t aligned buf) (lean_into_lean_str t)"

section \<open>The methods that panic, as sinks\<close>

lemma lean_push_stuck:
  assumes "holds t R xs s" "scalar c" "length xs + len_utf8 c \<le> n"
  shows "wp (lean_push t c) (\<lambda>_ s'. holds t R (xs @ encode_utf8 c) s' \<and> later s s') (\<lambda>_. False) (stuck t R n s) s"
  unfolding wrappers wp_unwrap_with_msg by (rule push_char_stuck [OF assms])

lemma lean_push_str_stuck:
  assumes "holds t R xs s" "valid_utf8 ys" "length xs + length ys \<le> n"
  shows "wp (lean_push_str t ys) (\<lambda>_ s'. holds t R (xs @ ys) s' \<and> later s s') (\<lambda>_. False) (stuck t R n s) s"
  unfolding wrappers wp_unwrap_with_msg by (rule push_str_stuck [OF assms])

interpretation lean_chars: char_sink "lean_push t" "holds t R" later "\<lambda>_ _ _. False" "stuck t R" for t R
  by unfold_locales (auto intro: lean_push_stuck later_trans stuck_from)

interpretation lean_strs: str_sink "lean_push_str t" "holds t R" later "\<lambda>_ _ _. False" "stuck t R" for t R
  by unfold_locales (auto intro: lean_push_str_stuck later_trans stuck_from)

text \<open>Something that takes characters and strings takes the chunks of a lossy decoding.\<close>

locale lossy_sink = chars: char_sink push held onward fails panics + strs: str_sink puts held onward fails panics
  for push :: "uchar \<Rightarrow> ('s, unit) prog" and puts :: "byte list \<Rightarrow> ('s, unit) prog"
    and held :: "byte list \<Rightarrow> 's \<Rightarrow> bool" and onward :: "'s \<Rightarrow> 's \<Rightarrow> bool"
    and fails panics :: "nat \<Rightarrow> 's \<Rightarrow> 's \<Rightarrow> bool"
begin

lemma push_chunk:
  assumes h: "held xs s" and v: "valid_utf8 (fst p)" and n: "length xs + length (lossy_chunk p) \<le> n"
  shows "wp (push_chunk puts push p) (\<lambda>_ s'. held (xs @ lossy_chunk p) s' \<and> onward s s')
    (fails n s) (panics n s) s"
proof -
  let ?c = REPLACEMENT_CHARACTER
  have "wp (puts (fst p)) (\<lambda>_. wp (if snd p \<noteq> [] then push ?c else ret ())
    (\<lambda>_ s'. held (xs @ lossy_chunk p) s' \<and> onward s s') (fails n s) (panics n s)) (fails n s) (panics n s) s"
  proof (rule wp_mono [OF strs.push_str [OF h v, of n]])
    fix u s1 assume s1: "held (xs @ fst p) s1 \<and> onward s s1"
    show "wp (if snd p \<noteq> [] then push ?c else ret ())
      (\<lambda>_ s'. held (xs @ lossy_chunk p) s' \<and> onward s s') (fails n s) (panics n s) s1"
    proof (cases "snd p = []")
      case False
      have "wp (push ?c) (\<lambda>_ s'. held ((xs @ fst p) @ encode_utf8 ?c) s' \<and> onward s1 s')
        (fails n s1) (panics n s1) s1"
        using s1 n False by (intro chars.push) (simp_all add: lossy_chunk_def)
      with False s1 show ?thesis
        by (auto simp: lossy_chunk_def elim!: wp_mono intro: chars.onward chars.stops)
    qed (use s1 in \<open>simp add: lossy_chunk_def\<close>)
  qed (use n in \<open>simp_all add: lossy_chunk_def\<close>)
  then show ?thesis by (simp only: push_chunk_def wp_bind)
qed

end

sublocale lossy_sink \<subseteq>
  chunks: text_sink "push_chunk puts push" lossy_chunk "\<lambda>p. valid_utf8 (fst p)" held onward fails panics
  using chars.onward chars.stops by unfold_locales (auto intro: push_chunk)

context lossy_sink
begin

lemma push_lossy:
  assumes "held xs s" "length xs + length (lossy_text buf) \<le> n"
  shows "wp (for_each (utf8_chunks buf) (push_chunk puts push))
    (\<lambda>_ s'. held (xs @ lossy_text buf) s' \<and> onward s s') (fails n s) (panics n s) s"
  using chunks.put_all [OF assms(1) utf8_chunks_valid] assms(2) by (simp add: chunks.pieces_def lossy_text_def)

end

interpretation lean_lossy: lossy_sink "lean_push t" "lean_push_str t" "holds t R" later "\<lambda>_ _ _. False" "stuck t R"
  for t R by unfold_locales

section \<open>What the constructors build\<close>

text \<open>A new buffer that a loop fills.\<close>

lemma fill_new:
  assumes snd: "sound t R s" and c: "c \<le> n"
    and fill: "\<And>s1. holds t R [] s1 \<Longrightarrow>
      wp m (\<lambda>x s2. ok x \<and> holds t R (ys x) s2 \<and> later s1 s2) (\<lambda>_. False) (stuck t R n s1) s1"
    and k: "\<And>x r s2. ok x \<Longrightarrow> sound t (add_mset (Mutable, r, ys x) R) s2 \<Longrightarrow> mem_only s s2 \<Longrightarrow> wp (k (x, r)) Q E P s2"
    and out: "\<And>s'. gave_up t R n s s' \<Longrightarrow> P s'"
  shows "wp (bind (lean_with_capacity t c) (\<lambda>r. bind (scoped t r m) k)) Q E P s"
proof -
  have "wp (repr_with_capacity t c) (\<lambda>r s1. wp (scoped t r m) (\<lambda>p. wp (k p) Q E P) E P s1) P P s"
  proof (rule wp_mono [OF sound_with_capacity [OF snd]])
    fix r s1
    assume s1: "sound t (add_mset (Mutable, r, []) R) s1 \<and> mem_only s s1 \<and> modifiable R r \<and>
      has_capacity t (s1\<lparr>self := r\<rparr>) (max c (MAX_INLINE_SIZE t))"
    then have h: "holds t R [] (s1\<lparr>self := r\<rparr>)" by (simp add: holds_local)
    have run: "wp m (\<lambda>x s2. wp (k (x, self s2)) Q E P (s2\<lparr>self := self s1\<rparr>)) (\<lambda>_. False)
      (stuck t R n (s1\<lparr>self := r\<rparr>)) (s1\<lparr>self := r\<rparr>)"
    proof (rule wp_mono [OF fill [OF h]])
      fix x s2 assume s2: "ok x \<and> holds t R (ys x) s2 \<and> later (s1\<lparr>self := r\<rparr>) s2"
      show "wp (k (x, self s2)) Q E P (s2\<lparr>self := self s1\<rparr>)"
      proof (rule k)
        show "ok x" using s2 by simp
        show "sound t (add_mset (Mutable, self s2, ys x) R) (s2\<lparr>self := self s1\<rparr>)" using s2 by (simp add: holds_def)
        show "mem_only s (s2\<lparr>self := self s1\<rparr>)"
          using s1 s2 mem_only_trans [of s s1] later_mem_only [of r s1 s2] by simp
      qed
    qed
    show "wp (scoped t r m) (\<lambda>p. wp (k p) Q E P) E P s1"
      by (rule wp_mono [OF wp_scoped_panic [where Q = "\<lambda>p. wp (k p) Q E P" and E = E, OF run]])
        (use s1 in \<open>auto intro: out gave_up_from\<close>)
  qed (use c in \<open>auto intro!: out gave_upI\<close>)
  then show ?thesis by (simp only: lean_with_capacity_def try_with_capacity_def wp_unwrap_with_msg wp_bind)
qed

lemma sound_from_utf8:
  assumes "sound t R s"
  shows "wp (lean_from_utf8 t buf)
    (\<lambda>res s'. mem_only s s' \<and> (case res of
        Inr r \<Rightarrow> valid_utf8 buf \<and> sound t (add_mset (Mutable, r, buf) R) s'
      | Inl e \<Rightarrow> \<not> valid_utf8 buf \<and> sound t R s'))
    E (gave_up t R (length buf) s) s"
  using assms
  by (auto simp: lean_from_utf8_def str_from_utf8_def Let_def split: prod.split
      intro!: wp_mono [OF sound_create [OF assms]])

lemma sound_from_utf8_lossy:
  assumes "sound t R s"
  shows "wp (lean_from_utf8_lossy t buf)
    (\<lambda>r s'. sound t (add_mset (Mutable, r, lossy_text buf) R) s' \<and> mem_only s s')
    E (gave_up t R (max (length buf) (length (lossy_text buf))) s) s"
  unfolding lean_from_utf8_lossy_def
  by (rule fill_new [OF assms, where ok = "\<lambda>_. True" and ys = "\<lambda>_. lossy_text buf" and n = "max (length buf) (length (lossy_text buf))"])
    (use lean_lossy.push_lossy [where xs = "[]"] in auto)

text \<open>The text of a list of units, with the replacement character for every lone half.\<close>

definition utf16_text :: "unit16 list \<Rightarrow> byte list" where
  "utf16_text us = str_of (map unwrap_or_replacement (decode_utf16 us))"

definition well_formed_utf16 :: "unit16 list \<Rightarrow> bool" where
  "well_formed_utf16 us \<longleftrightarrow> list_all (\<lambda>x. \<not> isl x) (decode_utf16 us)"

definition utf16_size :: "unit16 list \<Rightarrow> nat" where
  "utf16_size us = max (length us) (length (utf16_text us))"

definition utf16_result ::
  "target \<Rightarrow> owner multiset \<Rightarrow> header \<Rightarrow> unit16 list \<Rightarrow> 'r st \<Rightarrow> from_utf16_error + repr \<Rightarrow> 'r st \<Rightarrow> bool"
where
  "utf16_result t R h us s res s' \<longleftrightarrow> mem_only s s' \<and> (case res of
     Inr r \<Rightarrow> well_formed_utf16 us \<and> sound t (add_mset (h, r, utf16_text us) R) s'
   | Inl e \<Rightarrow> e = FromUtf16Error LoneSurrogate \<and> \<not> well_formed_utf16 us \<and> sound t R s')"

lemma scalar_unwrap: "x \<in> set (decode_utf16 us) \<Longrightarrow> scalar (unwrap_or_replacement x)"
  by (auto simp: unwrap_or_replacement_def dest: decode_utf16_scalar split: sum.split)

lemma utf16_text_encode:
  "(\<forall>c \<in> set cs. scalar c) \<Longrightarrow> utf16_text (concat (map encode_utf16 cs)) = str_of cs"
  "(\<forall>c \<in> set cs. scalar c) \<Longrightarrow> well_formed_utf16 (concat (map encode_utf16 cs))"
  by (simp_all add: utf16_text_def well_formed_utf16_def decode_encode_utf16 comp_def unwrap_or_replacement_def
      list_all_iff)

lemma wp_push_utf16:
  assumes "holds t R xs s" "\<forall>x \<in> set cs. scalar (unwrap_or_replacement x)"
    and "length xs + length (str_of (map unwrap_or_replacement cs)) \<le> n"
  shows "wp (push_utf16 t cs)
    (\<lambda>res s'. (if list_all (\<lambda>x. \<not> isl x) cs then res = Inr () else res = Inl (FromUtf16Error LoneSurrogate)) \<and>
      holds t R (xs @ str_of (map unwrap_or_replacement (takeWhile (\<lambda>x. \<not> isl x) cs))) s' \<and> later s s')
    (\<lambda>_. False) (stuck t R n s) s"
  using assms
proof (induction cs arbitrary: xs s)
  case (Cons x cs)
  show ?case
  proof (cases x)
    case (Inl u)
    with Cons.prems show ?thesis by simp
  next
    case (Inr c)
    let ?Q = "\<lambda>res s'. (if list_all (\<lambda>x. \<not> isl x) cs then res = Inr () else res = Inl (FromUtf16Error LoneSurrogate)) \<and>
      holds t R (xs @ str_of (map unwrap_or_replacement (takeWhile (\<lambda>x. \<not> isl x) (x # cs)))) s' \<and> later s s'"
    have c: "scalar c" "length xs + len_utf8 c \<le> n" "unwrap_or_replacement x = c"
      "length (xs @ encode_utf8 c) + length (str_of (map unwrap_or_replacement cs)) \<le> n"
      using Cons.prems(2,3) Inr unwrap_or_replacement_def [of x] by simp_all
    have "wp (lean_push t c) (\<lambda>_. wp (push_utf16 t cs) ?Q (\<lambda>_. False) (stuck t R n s)) (\<lambda>_. False) (stuck t R n s) s"
    proof (rule wp_mono [OF lean_push_stuck [OF Cons.prems(1) c(1,2)]])
      fix u s1 assume s1: "holds t R (xs @ encode_utf8 c) s1 \<and> later s s1"
      show "wp (push_utf16 t cs) ?Q (\<lambda>_. False) (stuck t R n s) s1"
        by (rule wp_mono [OF Cons.IH [OF _ _ c(4)]])
          (use s1 Cons.prems(2) c(3) in \<open>auto simp: Inr intro: later_trans stuck_from\<close>)
    qed simp_all
    with Inr show ?thesis by simp
  qed
qed simp

lemma sound_from_utf16_units:
  assumes "sound t R s" "c \<le> utf16_size us"
  shows "wp (from_utf16_units t us c) (utf16_result t R Mutable us s) E (gave_up t R (utf16_size us) s) s"
proof -
  let ?ys = "\<lambda>res. if isl res then str_of (map unwrap_or_replacement (takeWhile (\<lambda>x. \<not> isl x) (decode_utf16 us)))
    else utf16_text us"
  let ?ok = "\<lambda>x. if well_formed_utf16 us then x = Inr () else x = Inl (FromUtf16Error LoneSurrogate)"
  let ?m = "push_utf16 t (decode_utf16 us) :: (repr st, from_utf16_error + unit) prog"
  have m: "wp ?m (\<lambda>x s2. ?ok x \<and> holds t R (?ys x) s2 \<and> later s1 s2) (\<lambda>_. False)
      (stuck t R (utf16_size us) s1) s1"
    if "holds t R [] s1" for s1
    by (rule wp_mono [OF wp_push_utf16 [OF that, where cs = "decode_utf16 us" and n = "utf16_size us"]])
      (auto simp: scalar_unwrap utf16_size_def utf16_text_def well_formed_utf16_def list_all_iff
        takeWhile_eq_all_conv [THEN iffD2] split: if_splits)
  show ?thesis unfolding from_utf16_units_def
  proof (rule fill_new [OF assms m])
    fix x r s2 assume x: "?ok x" and s2: "sound t (add_mset (Mutable, r, ?ys x) R) s2" "mem_only s s2"
    show "wp (case (x, r) of (res, r) \<Rightarrow> case res of Inl e \<Rightarrow> bind (lean_drop t r) (\<lambda>_. ret (Inl e)) | Inr _ \<Rightarrow> ret (Inr r))
      (utf16_result t R Mutable us s) E (gave_up t R (utf16_size us) s) s2"
    proof (cases "well_formed_utf16 us")
      case True
      with x s2 show ?thesis by (simp add: utf16_result_def)
    next
      case False
      with x have "x = Inl (FromUtf16Error LoneSurrogate)" by simp
      then show ?thesis
        using False s2(2) wp_mono [OF lean.discard [OF s2(1)]]
        by (auto simp: utf16_result_def intro!: wp_mono [OF lean.discard [OF s2(1)]] intro: mem_only_trans)
    qed
  qed
qed

lemma sound_from_utf16_units_lossy:
  assumes "sound t R s" "c \<le> utf16_size us"
  shows "wp (from_utf16_units_lossy t us c)
    (\<lambda>r s'. sound t (add_mset (Mutable, r, utf16_text us) R) s' \<and> mem_only s s')
    E (gave_up t R (utf16_size us) s) s"
  unfolding from_utf16_units_lossy_def
proof (rule fill_new [OF assms, where ok = "\<lambda>_. True" and ys = "\<lambda>_. utf16_text us"])
  fix s1 assume h: "holds t R [] s1"
  have "list_all scalar (map unwrap_or_replacement (decode_utf16 us))"
    by (auto simp: list_all_iff scalar_unwrap)
  from lean_chars.push_chars [OF h this, of "utf16_size us"]
  show "wp (for_each (map unwrap_or_replacement (decode_utf16 us)) (lean_push t))
    (\<lambda>x s2. True \<and> holds t R (utf16_text us) s2 \<and> later s1 s2) (\<lambda>_. False) (stuck t R (utf16_size us) s1) s1"
    by (simp add: utf16_text_def utf16_size_def)
qed simp_all

lemma sound_add:
  assumes "sound t (add_mset (Mutable, r, xs) R) s" "valid_utf8 ys"
  shows "wp (lean_add t r ys) (\<lambda>r' s'. sound t (add_mset (Mutable, r', xs @ ys) R) s' \<and> mem_only s s')
    E (gave_up t R (length xs + length ys) s) s"
proof -
  let ?Q = "\<lambda>p s'. sound t (add_mset (Mutable, snd p, xs @ ys) R) s' \<and> mem_only s s'"
  have "wp (lean_push_str t ys) (\<lambda>x s'. ?Q (x, self s') (s'\<lparr>self := self s\<rparr>)) (\<lambda>_. False)
    (stuck t R (length xs + length ys) (s\<lparr>self := r\<rparr>)) (s\<lparr>self := r\<rparr>)"
    by (rule wp_mono [OF lean_push_str_stuck [OF _ assms(2)]])
      (use assms(1) in \<open>auto simp: holds_local holds_def later_mem_only\<close>)
  from wp_scoped_panic [where Q = ?Q and E = E, OF this] show ?thesis
    by (simp add: lean_add_def case_prod_beta)
qed

text \<open>The bytes of a UTF-16 text in one order. The aligned reading and the reading by chunks agree.\<close>

definition units_of :: "(byte \<times> byte \<Rightarrow> unit16) \<Rightarrow> byte list \<Rightarrow> unit16 list" where
  "units_of f buf = map f (fst (as_chunks buf))"

lemma length_units_of [simp]: "length (units_of f buf) = length buf div 2"
  by (simp add: units_of_def length_as_chunks)

lemma from_utf16le_eq:
  "lean_from_utf16le t aligned buf =
    (if even (length buf) then from_utf16_units t (units_of unit_from_le_bytes buf) (length buf div 2)
     else ret (Inl (FromUtf16Error OddBytes)))"
  using length_as_chunks(1) [of buf] as_chunks_odd [of buf]
  by (cases "as_chunks buf"; cases "target_endian t"; cases aligned)
    (auto simp: lean_from_utf16le_def lean_from_utf16_def units_of_def align_to_def unit_from_ne_bytes_def
      split: list.split)

lemma from_utf16be_eq:
  "lean_from_utf16be t aligned buf =
    (if even (length buf) then from_utf16_units t (units_of unit_from_be_bytes buf) (length buf div 2)
     else ret (Inl (FromUtf16Error OddBytes)))"
  using length_as_chunks(1) [of buf] as_chunks_odd [of buf]
  by (cases "as_chunks buf"; cases "target_endian t"; cases aligned)
    (auto simp: lean_from_utf16be_def lean_from_utf16_def units_of_def align_to_def unit_from_ne_bytes_def
      split: list.split)

lemma as_chunks_one: "length (snd (as_chunks buf)) \<le> 1"
  by (simp add: length_as_chunks)

definition bytes_lossy :: "target \<Rightarrow> (byte \<times> byte \<Rightarrow> unit16) \<Rightarrow> byte list \<Rightarrow> (repr st, repr) prog" where
  "bytes_lossy t f buf =
    bind (from_utf16_units_lossy t (units_of f buf) (length buf div 2)) (\<lambda>string.
    if even (length buf) then ret string else lean_add t string (encode_utf8 REPLACEMENT_CHARACTER))"

lemma bind_ret [simp]: "bind m ret = m"
  by (auto simp: bind_def ret_def fun_eq_iff split: outcome.split)

lemma from_utf16le_lossy_eq: "lean_from_utf16le_lossy t aligned buf = bytes_lossy t unit_from_le_bytes buf"
  using length_as_chunks(1) [of buf] as_chunks_odd [of buf] as_chunks_one [of buf]
  by (cases "as_chunks buf"; cases "target_endian t"; cases aligned; cases "snd (as_chunks buf)")
    (auto simp: lean_from_utf16le_lossy_def lean_from_utf16_lossy_def units_of_def align_to_def bytes_lossy_def
      unit_from_ne_bytes_def Let_def split: list.split)

lemma from_utf16be_lossy_eq: "lean_from_utf16be_lossy t aligned buf = bytes_lossy t unit_from_be_bytes buf"
  using length_as_chunks(1) [of buf] as_chunks_odd [of buf] as_chunks_one [of buf]
  by (cases "as_chunks buf"; cases "target_endian t"; cases aligned; cases "snd (as_chunks buf)")
    (auto simp: lean_from_utf16be_lossy_def lean_from_utf16_lossy_def units_of_def align_to_def bytes_lossy_def
      unit_from_ne_bytes_def Let_def split: list.split)

lemma sound_from_utf16:
  "sound t R s \<Longrightarrow> wp (lean_from_utf16 t us) (utf16_result t R Mutable us s) E (gave_up t R (utf16_size us) s) s"
  unfolding lean_from_utf16_def by (rule sound_from_utf16_units) (simp_all add: utf16_size_def)

lemma sound_from_utf16_lossy:
  "sound t R s \<Longrightarrow> wp (lean_from_utf16_lossy t us)
    (\<lambda>r s'. sound t (add_mset (Mutable, r, utf16_text us) R) s' \<and> mem_only s s') E (gave_up t R (utf16_size us) s) s"
  unfolding lean_from_utf16_lossy_def by (rule sound_from_utf16_units_lossy) (simp_all add: utf16_size_def)

definition bytes16_result ::
  "target \<Rightarrow> owner multiset \<Rightarrow> header \<Rightarrow> (byte \<times> byte \<Rightarrow> unit16) \<Rightarrow> byte list \<Rightarrow> 'r st \<Rightarrow> from_utf16_error + repr \<Rightarrow>
    'r st \<Rightarrow> bool"
where
  "bytes16_result t R h f buf s res s' \<longleftrightarrow>
    (if even (length buf) then utf16_result t R h (units_of f buf) s res s'
     else res = Inl (FromUtf16Error OddBytes) \<and> s' = s)"

lemma sound_from_utf16_bytes:
  assumes "sound t R s"
  shows "wp (lean_from_utf16le t aligned buf) (bytes16_result t R Mutable unit_from_le_bytes buf s) E
      (gave_up t R (utf16_size (units_of unit_from_le_bytes buf)) s) s"
    "wp (lean_from_utf16be t aligned buf) (bytes16_result t R Mutable unit_from_be_bytes buf s) E
      (gave_up t R (utf16_size (units_of unit_from_be_bytes buf)) s) s"
  unfolding from_utf16le_eq from_utf16be_eq
  by (auto simp: bytes16_result_def [abs_def] utf16_size_def intro!: sound_from_utf16_units [OF assms, THEN wp_mono])

definition lossy_bytes_text :: "(byte \<times> byte \<Rightarrow> unit16) \<Rightarrow> byte list \<Rightarrow> byte list" where
  "lossy_bytes_text f buf =
    utf16_text (units_of f buf) @ (if even (length buf) then [] else encode_utf8 REPLACEMENT_CHARACTER)"

definition lossy_bytes_size :: "(byte \<times> byte \<Rightarrow> unit16) \<Rightarrow> byte list \<Rightarrow> nat" where
  "lossy_bytes_size f buf = max (length buf) (length (lossy_bytes_text f buf))"

lemma sound_bytes_lossy:
  assumes "sound t R s"
  shows "wp (bytes_lossy t f buf) (\<lambda>r s'. sound t (add_mset (Mutable, r, lossy_bytes_text f buf) R) s' \<and> mem_only s s')
    E (gave_up t R (lossy_bytes_size f buf) s) s"
proof -
  let ?Q = "\<lambda>r s'. sound t (add_mset (Mutable, r, lossy_bytes_text f buf) R) s' \<and> mem_only s s'"
  let ?P = "gave_up t R (lossy_bytes_size f buf) s" and ?us = "units_of f buf" and ?c = "encode_utf8 REPLACEMENT_CHARACTER"
  have n: "utf16_size ?us \<le> lossy_bytes_size f buf"
    by (auto simp: utf16_size_def lossy_bytes_size_def lossy_bytes_text_def)
  have "wp (from_utf16_units_lossy t ?us (length buf div 2))
    (\<lambda>r. wp (if even (length buf) then ret r else lean_add t r ?c) ?Q E ?P) E ?P s"
  proof (rule wp_mono [OF sound_from_utf16_units_lossy [OF assms]])
    fix r s1 assume s1: "sound t (add_mset (Mutable, r, utf16_text ?us) R) s1 \<and> mem_only s s1"
    show "wp (if even (length buf) then ret r else lean_add t r ?c) ?Q E ?P s1"
    proof (cases "even (length buf)")
      case False
      have "wp (lean_add t r ?c) ?Q E ?P s1"
        by (rule wp_mono [OF sound_add [OF s1 [THEN conjunct1], of ?c]])
          (use s1 False in \<open>auto simp: lossy_bytes_text_def lossy_bytes_size_def intro: mem_only_trans gave_up_from\<close>)
      with False show ?thesis by simp
    qed (use s1 in \<open>simp add: lossy_bytes_text_def\<close>)
  qed (use n in \<open>auto simp: utf16_size_def intro: gave_up_from\<close>)
  then show ?thesis by (simp only: bytes_lossy_def wp_bind)
qed

lemma sound_map_into:
  assumes "utf16_result t R Mutable us s res s1" "utf16_size us \<le> n"
  shows "wp (map_into_lean_str t res) (utf16_result t R Immutable us s) E (gave_up t R n s) s1"
proof (cases res)
  case (Inl e)
  with assms(1) show ?thesis by (simp add: map_into_lean_str_def utf16_result_def)
next
  case (Inr r)
  with assms(1) have s1: "sound t (add_mset (Mutable, r, utf16_text us) R) s1" "mem_only s s1" "well_formed_utf16 us"
    by (simp_all add: utf16_result_def)
  have "wp (lean_into_lean_str t r) (\<lambda>r. utf16_result t R Immutable us s (Inr r)) E (gave_up t R n s) s1"
    unfolding lean_into_lean_str_def
    by (rule wp_mono [OF to_lstr.into [OF s1(1)]])
      (use s1 assms(2) in \<open>auto simp: utf16_result_def utf16_size_def intro: mem_only_trans gave_up_from\<close>)
  with Inr show ?thesis by (simp add: map_into_lean_str_def)
qed

lemma sound_lstr_from_utf16:
  assumes "sound t R s"
  shows "wp (lstr_from_utf16 t us) (utf16_result t R Immutable us s) E (gave_up t R (utf16_size us) s) s"
proof -
  have "wp (lean_from_utf16 t us)
    (\<lambda>res. wp (map_into_lean_str t res) (utf16_result t R Immutable us s) E (gave_up t R (utf16_size us) s))
    E (gave_up t R (utf16_size us) s) s"
    by (rule wp_mono [OF sound_from_utf16 [OF assms]]) (auto intro: sound_map_into)
  then show ?thesis by (simp only: lstr_from_utf16_def wp_bind)
qed

lemma sound_into_after:
  assumes m: "wp m (\<lambda>r s'. sound t (add_mset (Mutable, r, xs) R) s' \<and> mem_only s s') E (gave_up t R n s) s"
    and n: "length xs \<le> n"
  shows "wp (bind m (lean_into_lean_str t)) (\<lambda>r s'. sound t (add_mset (Immutable, r, xs) R) s' \<and> mem_only s s')
    E (gave_up t R n s) s"
proof -
  have "wp m (\<lambda>r. wp (lean_into_lean_str t r) (\<lambda>r s'. sound t (add_mset (Immutable, r, xs) R) s' \<and> mem_only s s')
    E (gave_up t R n s)) E (gave_up t R n s) s"
  proof (rule wp_mono [OF m])
    fix r s1 assume s1: "sound t (add_mset (Mutable, r, xs) R) s1 \<and> mem_only s s1"
    show "wp (lean_into_lean_str t r) (\<lambda>r s'. sound t (add_mset (Immutable, r, xs) R) s' \<and> mem_only s s')
      E (gave_up t R n s) s1"
      unfolding lean_into_lean_str_def
      by (rule wp_mono [OF to_lstr.into [OF s1 [THEN conjunct1]]])
        (use s1 n in \<open>auto intro: mem_only_trans gave_up_from\<close>)
  qed
  then show ?thesis by (simp only: wp_bind)
qed

lemma sound_lstr_lossy:
  assumes "sound t R s"
  shows "wp (lstr_from_utf8_lossy t buf)
      (\<lambda>r s'. sound t (add_mset (Immutable, r, lossy_text buf) R) s' \<and> mem_only s s')
      E (gave_up t R (max (length buf) (length (lossy_text buf))) s) s"
    "wp (lstr_from_utf16_lossy t us)
      (\<lambda>r s'. sound t (add_mset (Immutable, r, utf16_text us) R) s' \<and> mem_only s s')
      E (gave_up t R (utf16_size us) s) s"
    "wp (lstr_from_utf16le_lossy t aligned buf)
      (\<lambda>r s'. sound t (add_mset (Immutable, r, lossy_bytes_text unit_from_le_bytes buf) R) s' \<and> mem_only s s')
      E (gave_up t R (lossy_bytes_size unit_from_le_bytes buf) s) s"
    "wp (lstr_from_utf16be_lossy t aligned buf)
      (\<lambda>r s'. sound t (add_mset (Immutable, r, lossy_bytes_text unit_from_be_bytes buf) R) s' \<and> mem_only s s')
      E (gave_up t R (lossy_bytes_size unit_from_be_bytes buf) s) s"
  unfolding lstr_from_utf8_lossy_def lstr_from_utf16_lossy_def lstr_from_utf16le_lossy_def lstr_from_utf16be_lossy_def
    from_utf16le_lossy_eq from_utf16be_lossy_eq
  by (rule sound_into_after, rule sound_from_utf8_lossy [OF assms] sound_from_utf16_lossy [OF assms]
      sound_bytes_lossy [OF assms], simp add: utf16_size_def lossy_bytes_size_def)+

end
