(* ===== verification/Collect.thy ===== *)
theory Collect
  imports FromEncoded
begin

text \<open>
  \<^verbatim>\<open>Extend\<close>, \<^verbatim>\<open>FromIterator\<close>, \<^verbatim>\<open>fmt::Write\<close> and the
  operators of \<open>src/src/lib.rs\<close>. An iterator is the list of its items and the lower bound its
  \<^verbatim>\<open>size_hint\<close> claims, which may be wrong. Items that are values of the crate are owned by
  the loop: each is dropped after its turn, and the rest when the loop is left by a panic.
\<close>

section \<open>Extend\<close>

definition extend_chars :: "target \<Rightarrow> nat \<Rightarrow> uchar list \<Rightarrow> (repr st, unit) prog" where
  "extend_chars t lower_bound items =
    bind (attempt (try_reserve t lower_bound)) (\<lambda>_.
    for_each items (lean_push t))"

definition extend_char_refs :: "target \<Rightarrow> nat \<Rightarrow> uchar list \<Rightarrow> (repr st, unit) prog" where
  "extend_char_refs t lower_bound items = extend_chars t lower_bound items"

definition extend_strs :: "target \<Rightarrow> byte list list \<Rightarrow> (repr st, unit) prog" where
  "extend_strs t items = for_each items (lean_push_str t)"

primrec extend_values ::
  "target \<Rightarrow> (repr \<Rightarrow> (repr st, byte list) prog) \<Rightarrow> (repr \<Rightarrow> (repr st, unit) prog) \<Rightarrow> repr list \<Rightarrow> (repr st, unit) prog"
where
  "extend_values t read discard [] = ret ()"
| "extend_values t read discard (s # items) =
    bind (read s) (\<lambda>str.
    bind (on_unwind (lean_push_str t str) (for_each (s # items) discard)) (\<lambda>_.
    bind (discard s) (\<lambda>_.
    extend_values t read discard items)))"

definition extend_lean_strings :: "target \<Rightarrow> repr list \<Rightarrow> (repr st, unit) prog" where
  "extend_lean_strings t items = extend_values t (lean_as_str t) (lean_drop t) items"

definition extend_lean_strs :: "target \<Rightarrow> repr list \<Rightarrow> (repr st, unit) prog" where
  "extend_lean_strs t items = extend_values t (lstr_as_str t) (lstr_drop t) items"

text \<open>Into a \<^verbatim>\<open>String\<close>, which is its bytes.\<close>

primrec string_extend ::
  "(repr \<Rightarrow> ('s, byte list) prog) \<Rightarrow> (repr \<Rightarrow> ('s, unit) prog) \<Rightarrow> byte list \<Rightarrow> repr list \<Rightarrow> ('s, byte list) prog"
where
  "string_extend read discard string [] = ret string"
| "string_extend read discard string (s # items) =
    bind (read s) (\<lambda>str.
    bind (discard s) (\<lambda>_.
    string_extend read discard (string @ str) items))"

definition string_extend_lean_strings :: "target \<Rightarrow> byte list \<Rightarrow> repr list \<Rightarrow> ('r st, byte list) prog" where
  "string_extend_lean_strings t string items = string_extend (lean_as_str t) (lean_drop t) string items"

definition string_extend_lean_strs :: "target \<Rightarrow> byte list \<Rightarrow> repr list \<Rightarrow> ('r st, byte list) prog" where
  "string_extend_lean_strs t string items = string_extend (lstr_as_str t) (lstr_drop t) string items"

section \<open>FromIterator\<close>

definition from_iter_chars :: "target \<Rightarrow> nat \<Rightarrow> uchar list \<Rightarrow> (repr st, repr) prog" where
  "from_iter_chars t lower_bound items =
    bind (attempt (try_with_capacity t lower_bound)) (\<lambda>res.
    bind (case res of Some buf \<Rightarrow> ret buf | None \<Rightarrow> lean_new t) (\<lambda>buf.
    bind (scoped t buf (for_each items (lean_push t))) (\<lambda>(_, buf).
    ret buf)))"

definition from_iter_char_refs :: "target \<Rightarrow> nat \<Rightarrow> uchar list \<Rightarrow> (repr st, repr) prog" where
  "from_iter_char_refs t lower_bound items = from_iter_chars t lower_bound items"

definition from_iter_strs :: "target \<Rightarrow> byte list list \<Rightarrow> (repr st, repr) prog" where
  "from_iter_strs t items =
    bind (lean_new t) (\<lambda>buf.
    bind (scoped t buf (extend_strs t items)) (\<lambda>(_, buf).
    ret buf))"

text \<open>\<^verbatim>\<open>Box<str>\<close>, \<^verbatim>\<open>Cow<str>\<close> and \<^verbatim>\<open>String\<close> are their bytes.\<close>

definition from_iter_boxed_strs :: "target \<Rightarrow> byte list list \<Rightarrow> (repr st, repr) prog" where
  "from_iter_boxed_strs t items =
    bind (lean_new t) (\<lambda>buf.
    bind (scoped t buf (extend_strs t items)) (\<lambda>(_, buf).
    ret buf))"

definition from_iter_cows :: "target \<Rightarrow> byte list list \<Rightarrow> (repr st, repr) prog" where
  "from_iter_cows t items =
    bind (lean_new t) (\<lambda>buf.
    bind (scoped t buf (extend_strs t items)) (\<lambda>(_, buf).
    ret buf))"

definition from_iter_strings :: "target \<Rightarrow> byte list list \<Rightarrow> (repr st, repr) prog" where
  "from_iter_strings t items =
    bind (lean_new t) (\<lambda>buf.
    bind (scoped t buf (extend_strs t items)) (\<lambda>(_, buf).
    ret buf))"

definition from_iter_lean_strings :: "target \<Rightarrow> repr list \<Rightarrow> (repr st, repr) prog" where
  "from_iter_lean_strings t items = (case items of
     [] \<Rightarrow> lean_new t
   | buf # items \<Rightarrow>
       bind (scoped t buf (extend_lean_strings t items)) (\<lambda>(_, buf).
       ret buf))"

definition from_iter_lean_strs :: "target \<Rightarrow> repr list \<Rightarrow> (repr st, repr) prog" where
  "from_iter_lean_strs t items = (case items of
     [] \<Rightarrow> lean_new t
   | first # items \<Rightarrow>
       bind (on_unwind (lstr_into_lean_string t first) (for_each items (lstr_drop t))) (\<lambda>buf.
       bind (scoped t buf (extend_lean_strs t items)) (\<lambda>(_, buf).
       ret buf)))"

definition lstr_from_iter_chars :: "target \<Rightarrow> nat \<Rightarrow> uchar list \<Rightarrow> (repr st, repr) prog" where
  "lstr_from_iter_chars t lower_bound items = bind (from_iter_chars t lower_bound items) (lean_into_lean_str t)"

definition lstr_from_iter_char_refs :: "target \<Rightarrow> nat \<Rightarrow> uchar list \<Rightarrow> (repr st, repr) prog" where
  "lstr_from_iter_char_refs t lower_bound items =
    bind (from_iter_char_refs t lower_bound items) (lean_into_lean_str t)"

definition lstr_from_iter_boxed_strs :: "target \<Rightarrow> byte list list \<Rightarrow> (repr st, repr) prog" where
  "lstr_from_iter_boxed_strs t items = bind (from_iter_boxed_strs t items) (lean_into_lean_str t)"

definition lstr_from_iter_cows :: "target \<Rightarrow> byte list list \<Rightarrow> (repr st, repr) prog" where
  "lstr_from_iter_cows t items = bind (from_iter_cows t items) (lean_into_lean_str t)"

definition lstr_from_iter_strings :: "target \<Rightarrow> byte list list \<Rightarrow> (repr st, repr) prog" where
  "lstr_from_iter_strings t items = bind (from_iter_strings t items) (lean_into_lean_str t)"

definition lstr_from_iter_strs :: "target \<Rightarrow> byte list list \<Rightarrow> (repr st, repr) prog" where
  "lstr_from_iter_strs t items = bind (from_iter_strs t items) (lean_into_lean_str t)"

definition lstr_from_iter_lean_strings :: "target \<Rightarrow> repr list \<Rightarrow> (repr st, repr) prog" where
  "lstr_from_iter_lean_strings t items = bind (from_iter_lean_strings t items) (lean_into_lean_str t)"

definition lstr_from_iter_lean_strs :: "target \<Rightarrow> repr list \<Rightarrow> (repr st, repr) prog" where
  "lstr_from_iter_lean_strs t items = (case items of
     [] \<Rightarrow> lstr_new t
   | str # items \<Rightarrow>
       bind (on_unwind (lstr_into_lean_string t str) (for_each items (lstr_drop t))) (\<lambda>buf.
       bind (scoped t buf (extend_lean_strs t items)) (\<lambda>(_, buf).
       lean_into_lean_str t buf)))"

definition string_from_iter_lean_strings :: "target \<Rightarrow> repr list \<Rightarrow> ('r st, byte list) prog" where
  "string_from_iter_lean_strings t items = string_extend_lean_strings t [] items"

definition string_from_iter_lean_strs :: "target \<Rightarrow> repr list \<Rightarrow> ('r st, byte list) prog" where
  "string_from_iter_lean_strs t items = string_extend_lean_strs t [] items"

section \<open>Formatting\<close>

text \<open>What a \<^verbatim>\<open>Display\<close> implementation does to its formatter: it writes strings, may look at
  the result of each write, and ends with a result or a panic.\<close>

datatype formatting =
    Finish bool
  | Abort
  | Write "byte list" "bool \<Rightarrow> formatting"

text \<open>\<^verbatim>\<open>fmt::Arguments\<close>: \<^verbatim>\<open>as_str()\<close> is the text when it is a literal.\<close>

datatype fmt_arguments = FmtArguments (literal: "byte list option") (formatter: formatting)

primrec run_formatting :: "(byte list \<Rightarrow> ('s, bool) prog) \<Rightarrow> formatting \<Rightarrow> ('s, bool) prog" where
  "run_formatting write (Finish ok) = ret ok"
| "run_formatting write Abort = panic"
| "run_formatting write (Write x k) = bind (write x) (\<lambda>ok. run_formatting write (k ok))"

definition lean_write_str :: "target \<Rightarrow> byte list \<Rightarrow> (repr st, bool) prog" where
  "lean_write_str t s = bind (lean_push_str t s) (\<lambda>_. ret True)"

text \<open>An assignment drops what the place held.\<close>

definition lean_assign :: "target \<Rightarrow> repr \<Rightarrow> (repr st, unit) prog" where
  "lean_assign t new = bind (gets self) (\<lambda>old. bind (lean_drop t old) (\<lambda>_. set_self new))"

definition lean_write_fmt :: "target \<Rightarrow> fmt_arguments \<Rightarrow> (repr st, bool) prog" where
  "lean_write_fmt t args = (case literal args of
     Some s \<Rightarrow>
       bind (gets self) (\<lambda>r.
       bind (lean_is_empty t r) (\<lambda>empty.
       bind (lean_is_heap_allocated t r) (\<lambda>heap.
       bind (if empty \<and> \<not> heap then bind (lean_from_static_str t s) (lean_assign t)
             else lean_push_str t s) (\<lambda>_.
       ret True))))
   | None \<Rightarrow> run_formatting (lean_write_str t) (formatter args))"

section \<open>What extending does\<close>

lemma holds_try_reserve:
  assumes "holds t R xs s"
  shows "wp (attempt (try_reserve t n)) (\<lambda>_ s'. holds t R xs s' \<and> later s s') E P s"
proof (cases "n = 0")
  case True
  with assms show ?thesis by (simp add: try_reserve_def reserve_def)
next
  case False
  from holds_reserve [OF assms this] show ?thesis
    unfolding wp_attempt try_reserve_def by (rule wp_mono) (auto simp: roomy_def rejected_def)
qed

lemma holds_extend_chars:
  assumes h: "holds t R xs s" and cs: "list_all scalar cs" and n: "length xs + length (str_of cs) \<le> n"
  shows "wp (extend_chars t lower cs) (\<lambda>_ s'. holds t R (xs @ str_of cs) s' \<and> later s s') E (stuck t R n s) s"
proof -
  have "wp (attempt (try_reserve t lower))
    (\<lambda>_. wp (for_each cs (lean_push t)) (\<lambda>_ s'. holds t R (xs @ str_of cs) s' \<and> later s s') E (stuck t R n s))
    E (stuck t R n s) s"
  proof (rule wp_mono [OF holds_try_reserve [OF h]])
    fix x s1 assume s1: "holds t R xs s1 \<and> later s s1"
    show "wp (for_each cs (lean_push t)) (\<lambda>_ s'. holds t R (xs @ str_of cs) s' \<and> later s s') E (stuck t R n s) s1"
      by (rule wp_mono [OF lean_chars.push_chars [OF s1 [THEN conjunct1] cs n]])
        (use s1 in \<open>auto intro: later_trans stuck_from\<close>)
  qed simp_all
  then show ?thesis by (simp only: extend_chars_def wp_bind)
qed

lemma holds_extend_strs:
  assumes h: "holds t R xs s" and ys: "list_all valid_utf8 yss" and n: "length xs + length (concat yss) \<le> n"
  shows "wp (extend_strs t yss) (\<lambda>_ s'. holds t R (xs @ concat yss) s' \<and> later s s') E (stuck t R n s) s"
  unfolding extend_strs_def by (rule wp_mono [OF lean_strs.push_strs [OF h ys n]]) simp_all

text \<open>Items that are values: each is read, and released, on every way out.\<close>

locale item_type = string_type t h create read clone discard
  for t :: target and h :: header and create :: "byte list \<Rightarrow> (repr st, repr) prog"
    and read :: "repr \<Rightarrow> (repr st, byte list) prog" and clone :: "repr \<Rightarrow> (repr st, repr) prog"
    and discard :: "repr \<Rightarrow> (repr st, unit) prog"
begin

lemma discard_items:
  assumes "holds t (live_values h ws + R) xs s"
  shows "wp (for_each (map fst ws) discard) (\<lambda>_ s'. holds t R xs s' \<and> later s s') E P s"
proof -
  have "sound t (live_values h ws + add_mset (Mutable, self s, xs) R) s"
    using assms by (simp add: holds_def)
  from discard_all [OF this] show ?thesis
    by (rule wp_mono) (auto simp: holds_def mem_only_self intro: mem_only_later)
qed

lemma discard_item:
  assumes "holds t (add_mset (h, r, ys) R) xs s"
  shows "wp (discard r) (\<lambda>_ s'. holds t R xs s' \<and> later s s') E P s"
  using discard_items [of "[(r, ys)]"] assms by simp

lemma extend_values:
  assumes "holds t (live_values h ws + R) xs s" "length xs + length (concat (map snd ws)) \<le> n"
  shows "wp (extend_values t read discard (map fst ws))
    (\<lambda>_ s'. holds t R (xs @ concat (map snd ws)) s' \<and> later s s') E (stuck t R n s) s"
  using assms
proof (induction ws arbitrary: xs s)
  case (Cons w ws)
  obtain r ys where w: "w = (r, ys)" by (cases w)
  let ?R = "live_values h (w # ws) + R" and ?items = "map fst ws"
  let ?Q = "\<lambda>_ s'. holds t R (xs @ concat (map snd (w # ws))) s' \<and> later s s'" and ?P = "stuck t R n s"
  have snd: "sound t (add_mset (Mutable, self s, xs) ?R) s" and mem: "(h, r, ys) \<in># add_mset (Mutable, self s, xs) ?R"
    using Cons.prems(1) by (simp_all add: holds_def w)
  have v: "valid_utf8 ys" using snd mem by (rule sound_valid)
  have "wp (lean_push_str t ys) (\<lambda>_. wp (discard r) (\<lambda>_. wp (extend_values t read discard ?items) ?Q E ?P) E ?P)
    (wp (for_each (r # ?items) discard) (\<lambda>_. E) E ?P) (wp (for_each (r # ?items) discard) (\<lambda>_. ?P) E ?P) s"
  proof (rule wp_mono [OF lean_push_str_stuck [OF Cons.prems(1) v]])
    show "length xs + length ys \<le> n" using Cons.prems(2) by (simp add: w)
    fix u s1 assume "holds t ?R (xs @ ys) s1 \<and> later s s1"
    then have s1: "holds t (add_mset (h, r, ys) (live_values h ws + R)) (xs @ ys) s1" "later s s1"
      by (simp_all add: w)
    show "wp (discard r) (\<lambda>_. wp (extend_values t read discard ?items) ?Q E ?P) E ?P s1"
    proof (rule wp_mono [OF discard_item [OF s1(1)]])
      fix u s2 assume s2: "holds t (live_values h ws + R) (xs @ ys) s2 \<and> later s1 s2"
      show "wp (extend_values t read discard ?items) ?Q E ?P s2"
        by (rule wp_mono [OF Cons.IH [OF s2 [THEN conjunct1]]])
          (use s1(2) s2 Cons.prems(2) in \<open>auto simp: w intro: later_trans stuck_from\<close>)
    qed simp_all
  next
    fix s1 assume "stuck t ?R n s s1"
    then obtain zs where zs: "holds t ?R zs s1" "later s s1" "out_of_memory t n s s1"
      by (auto simp: stuck_def)
    have "wp (for_each (map fst (w # ws)) discard) (\<lambda>_. ?P) E ?P s1"
      by (rule wp_mono [OF discard_items [OF zs(1)]])
        (use zs(2,3) in \<open>auto simp: stuck_def intro: later_trans out_of_memory_mono\<close>)
    then show "wp (for_each (r # ?items) discard) (\<lambda>_. ?P) E ?P s1" by (simp only: w list.map fst_conv)
  qed simp
  then show ?case by (simp only: w list.map fst_conv extend_values.simps wp_bind wp_on_unwind read [OF snd mem])
qed simp

lemma string_extend:
  "sound t (live_values h ws + R) s \<Longrightarrow>
    wp (string_extend read discard xs (map fst ws))
      (\<lambda>ys s'. ys = xs @ concat (map snd ws) \<and> sound t R s' \<and> mem_only s s') E P s"
proof (induction ws arbitrary: xs s)
  case (Cons w ws)
  obtain r ys where w: "w = (r, ys)" by (cases w)
  have snd: "sound t (add_mset (h, r, ys) (live_values h ws + R)) s"
    and mem: "(h, r, ys) \<in># add_mset (h, r, ys) (live_values h ws + R)" using Cons.prems by (simp_all add: w)
  let ?Q = "\<lambda>zs s'. zs = xs @ concat (map snd (w # ws)) \<and> sound t R s' \<and> mem_only s s'"
  have "wp (discard r) (\<lambda>_. wp (string_extend read discard (xs @ ys) (map fst ws)) ?Q E P) E P s"
  proof (rule wp_mono [OF discard [OF snd]])
    fix u s1 assume s1: "sound t (live_values h ws + R) s1 \<and> mem_only s s1 \<and> calls s1 = calls s"
    show "wp (string_extend read discard (xs @ ys) (map fst ws)) ?Q E P s1"
      by (rule wp_mono [OF Cons.IH [OF s1 [THEN conjunct1]]]) (use s1 in \<open>auto simp: w intro: mem_only_trans\<close>)
  qed simp_all
  then show ?case by (simp only: w list.map fst_conv string_extend.simps wp_bind read [OF snd mem])
qed simp

end

interpretation lean_items: item_type t Mutable "lean_from t Mutable" "lean_as_str t" "lean_clone t" "lean_drop t"
  for t by unfold_locales

interpretation lstr_items: item_type t Immutable "lean_from t Immutable" "lstr_as_str t" "lstr_clone t" "lstr_drop t"
  for t by unfold_locales

section \<open>What collecting builds\<close>

lemma fill_value:
  assumes "wp m (\<lambda>_ s2. holds t R ys s2 \<and> later (s\<lparr>self := r\<rparr>) s2) (\<lambda>_. False)
    (stuck t R n (s\<lparr>self := r\<rparr>)) (s\<lparr>self := r\<rparr>)"
  shows "wp (bind (scoped t r m) (\<lambda>(_, r). ret r))
    (\<lambda>r' s'. sound t (add_mset (Mutable, r', ys) R) s' \<and> mem_only s s') E (gave_up t R n s) s"
proof -
  let ?Q = "\<lambda>p s'. sound t (add_mset (Mutable, snd p, ys) R) s' \<and> mem_only s s'"
  have "wp m (\<lambda>x s'. ?Q (x, self s') (s'\<lparr>self := self s\<rparr>)) (\<lambda>_. False)
    (stuck t R n (s\<lparr>self := r\<rparr>)) (s\<lparr>self := r\<rparr>)"
    by (rule wp_mono [OF assms]) (auto simp: holds_def later_mem_only)
  from wp_scoped_panic [where Q = ?Q and E = E, OF this] show ?thesis by (simp add: case_prod_beta)
qed

lemma from_iter_from:
  assumes m: "wp m (\<lambda>r s'. sound t (add_mset (Mutable, r, xs) R) s' \<and> mem_only s s') E (gave_up t R n s) s"
    and k: "\<And>r s1. sound t (add_mset (Mutable, r, xs) R) s1 \<Longrightarrow>
      wp (k r) (\<lambda>r' s'. sound t (add_mset (h, r', ys) R') s' \<and> mem_only s1 s') E (gave_up t R' n s1) s1"
    and out: "\<And>s'. gave_up t R n s s' \<Longrightarrow> gave_up t R' n s s'"
  shows "wp (bind m k) (\<lambda>r' s'. sound t (add_mset (h, r', ys) R') s' \<and> mem_only s s') E (gave_up t R' n s) s"
proof -
  have "wp m (\<lambda>r. wp (k r) (\<lambda>r' s'. sound t (add_mset (h, r', ys) R') s' \<and> mem_only s s') E (gave_up t R' n s))
    E (gave_up t R' n s) s"
  proof (rule wp_mono [OF m])
    fix r s1 assume s1: "sound t (add_mset (Mutable, r, xs) R) s1 \<and> mem_only s s1"
    show "wp (k r) (\<lambda>r' s'. sound t (add_mset (h, r', ys) R') s' \<and> mem_only s s') E (gave_up t R' n s) s1"
      by (rule wp_mono [OF k]) (use s1 in \<open>auto intro: mem_only_trans gave_up_from\<close>)
  qed (simp_all add: out)
  then show ?thesis by (simp only: wp_bind)
qed

lemma sound_new_or_capacity:
  fixes s :: "repr st"
  assumes "sound t R s"
  shows "wp (bind (attempt (try_with_capacity t c)) (\<lambda>res. case res of Some buf \<Rightarrow> ret buf | None \<Rightarrow> lean_new t))
    (\<lambda>r s'. sound t (add_mset (Mutable, r, []) R) s' \<and> mem_only s s') E P s"
proof -
  have "wp (repr_with_capacity t c)
    (\<lambda>r. wp (case Some r of Some buf \<Rightarrow> ret buf | None \<Rightarrow> lean_new t)
      (\<lambda>r s'. sound t (add_mset (Mutable, r, []) R) s' \<and> mem_only s s') E P)
    (wp (lean_new t) (\<lambda>r s'. sound t (add_mset (Mutable, r, []) R) s' \<and> mem_only s s') E P) P s"
    by (rule wp_mono [OF sound_with_capacity [OF assms]]) (simp_all add: lean_new_def repr_new_eq sound_repr_new)
  then show ?thesis by (simp add: try_with_capacity_def)
qed

lemma bind_assoc: "bind (bind m f) g = bind m (\<lambda>x. bind (f x) g)"
  by (auto simp: bind_def fun_eq_iff split: outcome.split)

lemma sound_from_iter_chars:
  assumes snd: "sound t R s" and cs: "list_all scalar cs"
  shows "wp (from_iter_chars t lower cs) (\<lambda>r s'. sound t (add_mset (Mutable, r, str_of cs) R) s' \<and> mem_only s s')
    E (gave_up t R (length (str_of cs)) s) s"
proof -
  let ?new = "bind (attempt (try_with_capacity t lower))
    (\<lambda>res. case res of Some buf \<Rightarrow> ret buf | None \<Rightarrow> lean_new t) :: (repr st, repr) prog"
  have "wp (bind ?new (\<lambda>buf. bind (scoped t buf (for_each cs (lean_push t))) (\<lambda>(_, buf). ret buf)))
    (\<lambda>r s'. sound t (add_mset (Mutable, r, str_of cs) R) s' \<and> mem_only s s') E (gave_up t R (length (str_of cs)) s) s"
  proof (rule from_iter_from [OF sound_new_or_capacity [OF snd]])
    fix r and s1 :: "repr st" assume s1: "sound t (add_mset (Mutable, r, []) R) s1"
    show "wp (bind (scoped t r (for_each cs (lean_push t))) (\<lambda>(_, buf). ret buf))
      (\<lambda>r s'. sound t (add_mset (Mutable, r, str_of cs) R) s' \<and> mem_only s1 s') E
      (gave_up t R (length (str_of cs)) s1) s1"
      by (rule fill_value) (use lean_chars.push_chars [OF s1 [folded holds_local] cs] in simp)
  qed
  then show ?thesis by (simp only: from_iter_chars_def bind_assoc)
qed

lemma sound_from_iter_strs:
  assumes snd: "sound t R s" and ys: "list_all valid_utf8 yss"
  shows "wp (from_iter_strs t yss) (\<lambda>r s'. sound t (add_mset (Mutable, r, concat yss) R) s' \<and> mem_only s s')
    E (gave_up t R (length (concat yss)) s) s"
proof -
  let ?r = "repr_of_inline t (inline_bytes t [])"
  have h: "holds t R [] (s\<lparr>self := ?r\<rparr>)" using sound_repr_new [OF snd, where h = Mutable] by (simp add: holds_local)
  have "wp (bind (scoped t ?r (extend_strs t yss)) (\<lambda>(_, buf). ret buf))
    (\<lambda>r s'. sound t (add_mset (Mutable, r, concat yss) R) s' \<and> mem_only s s') E (gave_up t R (length (concat yss)) s) s"
    by (rule fill_value) (use holds_extend_strs [OF h ys] in simp)
  then show ?thesis by (simp add: from_iter_strs_def lean_new_def repr_new_eq)
qed

lemma sound_from_iter_lean_strings:
  assumes snd: "sound t (live_values Mutable ws + R) s"
  shows "wp (from_iter_lean_strings t (map fst ws))
    (\<lambda>r s'. sound t (add_mset (Mutable, r, concat (map snd ws)) R) s' \<and> mem_only s s') E
    (gave_up t R (length (concat (map snd ws))) s) s"
proof (cases ws)
  case Nil
  with snd show ?thesis by (simp add: from_iter_lean_strings_def lean_new_def repr_new_eq sound_repr_new)
next
  case (Cons w ws')
  obtain r ys where w: "w = (r, ys)" by (cases w)
  have h: "holds t (live_values Mutable ws' + R) ys (s\<lparr>self := r\<rparr>)"
    using snd by (simp add: Cons w holds_local)
  have "wp (bind (scoped t r (extend_lean_strings t (map fst ws'))) (\<lambda>(_, buf). ret buf))
    (\<lambda>r s'. sound t (add_mset (Mutable, r, ys @ concat (map snd ws')) R) s' \<and> mem_only s s') E
    (gave_up t R (length (concat (map snd ws))) s) s"
    unfolding extend_lean_strings_def
    by (rule fill_value) (use lean_items.extend_values [OF h] in \<open>simp add: Cons w\<close>)
  then show ?thesis by (simp add: from_iter_lean_strings_def Cons w)
qed

text \<open>Collecting values of the immutable type, into either type.\<close>

lemma into_first:
  assumes snd: "sound t (add_mset (Immutable, r, ys) (live_values Immutable ws + R)) s" and n: "length ys \<le> n"
  shows "wp (on_unwind (lstr_into_lean_string t r) (for_each (map fst ws) (lstr_drop t)))
    (\<lambda>r' s'. sound t (add_mset (Mutable, r', ys) (live_values Immutable ws + R)) s' \<and> mem_only s s') E
    (gave_up t R n s) s"
proof -
  let ?R = "live_values Immutable ws + R"
  have "wp (lstr_into_lean_string t r)
    (\<lambda>r' s'. sound t (add_mset (Mutable, r', ys) ?R) s' \<and> mem_only s s')
    (wp (for_each (map fst ws) (lstr_drop t)) (\<lambda>_. E) E (gave_up t R n s))
    (wp (for_each (map fst ws) (lstr_drop t)) (\<lambda>_. gave_up t R n s) E (gave_up t R n s)) s"
    unfolding lstr_into_lean_string_def
  proof (rule wp_mono [OF to_lean.into [OF snd]])
    fix s1 assume s1: "gave_up t ?R (length ys) s s1"
    then have "sound t ?R s1" by (simp add: gave_up_def)
    from lstr.discard_all [OF this]
    show "wp (for_each (map fst ws) (lstr_drop t)) (\<lambda>_. gave_up t R n s) E (gave_up t R n s) s1"
    proof (rule wp_mono)
      fix u s' assume s': "sound t R s' \<and> mem_only s1 s'"
      with s1 n show "gave_up t R n s s'"
        by (auto simp: gave_up_def intro: mem_only_trans out_of_memory_mono mem_only_later)
    qed
  qed simp_all
  then show ?thesis by (simp only: wp_on_unwind)
qed

lemma sound_from_iter_lean_strs:
  fixes s :: "repr st"
  assumes snd: "sound t (live_values Immutable ws + R) s"
  shows "wp (from_iter_lean_strs t (map fst ws))
    (\<lambda>r s'. sound t (add_mset (Mutable, r, concat (map snd ws)) R) s' \<and> mem_only s s') E
    (gave_up t R (length (concat (map snd ws))) s) s"
proof (cases ws)
  case Nil
  with snd show ?thesis by (simp add: from_iter_lean_strs_def lean_new_def repr_new_eq sound_repr_new)
next
  case (Cons w ws')
  obtain r ys where w: "w = (r, ys)" by (cases w)
  let ?n = "length (concat (map snd ws))" and ?R = "live_values Immutable ws' + R"
  let ?Q = "\<lambda>r s'. sound t (add_mset (Mutable, r, ys @ concat (map snd ws')) R) s' \<and> mem_only s s'"
  have 1: "sound t (add_mset (Immutable, r, ys) ?R) s" "length ys \<le> ?n" using snd by (simp_all add: Cons w)
  have "wp (on_unwind (lstr_into_lean_string t r) (for_each (map fst ws') (lstr_drop t)))
    (\<lambda>buf. wp (bind (scoped t buf (extend_lean_strs t (map fst ws'))) (\<lambda>(_, buf). ret buf)) ?Q E (gave_up t R ?n s))
    E (gave_up t R ?n s) s"
  proof (rule wp_mono [OF into_first [OF 1]])
    fix buf s1 assume s1: "sound t (add_mset (Mutable, buf, ys) ?R) s1 \<and> mem_only s s1"
    then have h: "holds t ?R ys (s1\<lparr>self := buf\<rparr>)" by (simp add: holds_local)
    have "wp (bind (scoped t buf (extend_lean_strs t (map fst ws'))) (\<lambda>(_, buf). ret buf))
      (\<lambda>r s'. sound t (add_mset (Mutable, r, ys @ concat (map snd ws')) R) s' \<and> mem_only s1 s') E (gave_up t R ?n s1) s1"
      unfolding extend_lean_strs_def
      by (rule fill_value) (use lstr_items.extend_values [OF h] in \<open>simp add: Cons w\<close>)
    then show "wp (bind (scoped t buf (extend_lean_strs t (map fst ws'))) (\<lambda>(_, buf). ret buf)) ?Q E (gave_up t R ?n s) s1"
      by (rule wp_mono) (use s1 in \<open>auto intro: mem_only_trans gave_up_from\<close>)
  qed simp_all
  then have "wp (bind (on_unwind (lstr_into_lean_string t r) (for_each (map fst ws') (lstr_drop t)))
    (\<lambda>buf. bind (scoped t buf (extend_lean_strs t (map fst ws'))) (\<lambda>(_, buf). ret buf))) ?Q E (gave_up t R ?n s) s"
    by (subst wp_bind)
  then show ?thesis
    by (simp only: from_iter_lean_strs_def Cons w list.map fst_conv list.case snd_conv concat.simps)
qed

lemma lstr_from_iter_lean_strs_eq:
  "lstr_from_iter_lean_strs t items =
    (if items = [] then lstr_new t else bind (from_iter_lean_strs t items) (lean_into_lean_str t))"
  by (cases items)
    (simp_all add: lstr_from_iter_lean_strs_def from_iter_lean_strs_def bind_assoc split_def)

lemma sound_lstr_from_iter:
  fixes s :: "repr st"
  shows "sound t R s \<Longrightarrow> list_all scalar cs \<Longrightarrow> wp (lstr_from_iter_chars t lower cs)
      (\<lambda>r s'. sound t (add_mset (Immutable, r, str_of cs) R) s' \<and> mem_only s s') E (gave_up t R (length (str_of cs)) s) s"
    and "sound t R s \<Longrightarrow> list_all valid_utf8 yss \<Longrightarrow> wp (lstr_from_iter_strs t yss)
      (\<lambda>r s'. sound t (add_mset (Immutable, r, concat yss) R) s' \<and> mem_only s s') E (gave_up t R (length (concat yss)) s) s"
    and "sound t (live_values Mutable ws + R) s \<Longrightarrow> wp (lstr_from_iter_lean_strings t (map fst ws))
      (\<lambda>r s'. sound t (add_mset (Immutable, r, concat (map snd ws)) R) s' \<and> mem_only s s') E
      (gave_up t R (length (concat (map snd ws))) s) s"
    and "sound t (live_values Immutable ws + R) s \<Longrightarrow> wp (lstr_from_iter_lean_strs t (map fst ws))
      (\<lambda>r s'. sound t (add_mset (Immutable, r, concat (map snd ws)) R) s' \<and> mem_only s s') E
      (gave_up t R (length (concat (map snd ws))) s) s"
  unfolding lstr_from_iter_chars_def lstr_from_iter_strs_def lstr_from_iter_lean_strings_def
    lstr_from_iter_lean_strs_eq
  by (rule sound_into_after, erule (1) sound_from_iter_chars, simp)
    (rule sound_into_after, erule (1) sound_from_iter_strs, simp,
     rule sound_into_after, erule sound_from_iter_lean_strings, simp,
     auto intro!: sound_into_after sound_from_iter_lean_strs
       simp del: wp_bind simp: lstr_new_def repr_new_eq sound_repr_new)

text \<open>The other item types are collected like \<^verbatim>\<open>char\<close> and \<^verbatim>\<open>&str\<close>.\<close>

lemma from_iter_same:
  "from_iter_char_refs = from_iter_chars" "lstr_from_iter_char_refs = lstr_from_iter_chars"
  "from_iter_boxed_strs = from_iter_strs" "lstr_from_iter_boxed_strs = lstr_from_iter_strs"
  "from_iter_cows = from_iter_strs" "lstr_from_iter_cows = lstr_from_iter_strs"
  "from_iter_strings = from_iter_strs" "lstr_from_iter_strings = lstr_from_iter_strs"
  by (simp_all add: fun_eq_iff from_iter_char_refs_def lstr_from_iter_char_refs_def lstr_from_iter_chars_def
      from_iter_boxed_strs_def from_iter_cows_def from_iter_strings_def from_iter_strs_def lstr_from_iter_strs_def
      lstr_from_iter_boxed_strs_def lstr_from_iter_cows_def lstr_from_iter_strings_def)

section \<open>What formatting writes\<close>

text \<open>What a formatter writes as long as every write succeeds, and how it then ends.\<close>

primrec fmt_text :: "formatting \<Rightarrow> byte list" where
  "fmt_text (Finish ok) = []"
| "fmt_text Abort = []"
| "fmt_text (Write x k) = x @ fmt_text (k True)"

primrec fmt_end :: "formatting \<Rightarrow> bool option" where
  "fmt_end (Finish ok) = Some ok"
| "fmt_end Abort = None"
| "fmt_end (Write x k) = fmt_end (k True)"

text \<open>How it ends once memory is refused: every write after the first that fails, fails too. The
  formatter decides what it makes of that; it may panic.\<close>

primrec refused_end :: "formatting \<Rightarrow> bool option" where
  "refused_end (Finish ok) = Some ok"
| "refused_end Abort = None"
| "refused_end (Write x k) = refused_end (k False)"

primrec panics_if_refused :: "formatting \<Rightarrow> bool" where
  "panics_if_refused (Finish ok) \<longleftrightarrow> False"
| "panics_if_refused Abort \<longleftrightarrow> False"
| "panics_if_refused (Write x k) \<longleftrightarrow> refused_end (k False) = None \<or> panics_if_refused (k True)"

primrec fmt_valid :: "formatting \<Rightarrow> bool" where
  "fmt_valid (Finish ok) \<longleftrightarrow> True"
| "fmt_valid Abort \<longleftrightarrow> True"
| "fmt_valid (Write x k) \<longleftrightarrow> valid_utf8 x \<and> (\<forall>ok. fmt_valid (k ok))"

lemma holds_run_formatting:
  "holds t R xs s \<Longrightarrow> fmt_valid f \<Longrightarrow> length xs + length (fmt_text f) \<le> n \<Longrightarrow>
    wp (run_formatting (lean_write_str t) f)
      (\<lambda>ok s'. fmt_end f = Some ok \<and> holds t R (xs @ fmt_text f) s' \<and> later s s') E
      (\<lambda>s'. stuck t R n s s' \<or> (fmt_end f = None \<and> holds t R (xs @ fmt_text f) s' \<and> later s s')) s"
proof (induction f arbitrary: xs s)
  case (Write x k)
  let ?Q = "\<lambda>ok s'. fmt_end (k True) = Some ok \<and> holds t R (xs @ x @ fmt_text (k True)) s' \<and> later s s'"
  let ?P = "\<lambda>s'. stuck t R n s s' \<or> (fmt_end (k True) = None \<and> holds t R (xs @ x @ fmt_text (k True)) s' \<and> later s s')"
  have x: "valid_utf8 x" "fmt_valid (k True)" "length xs + length x \<le> n"
    "length (xs @ x) + length (fmt_text (k True)) \<le> n" using Write.prems(2,3) by simp_all
  have "wp (lean_push_str t x) (\<lambda>_. wp (run_formatting (lean_write_str t) (k True)) ?Q E ?P) E ?P s"
  proof (rule wp_mono [OF lean_push_str_stuck [OF Write.prems(1) x(1,3)]])
    fix u s1 assume s1: "holds t R (xs @ x) s1 \<and> later s s1"
    show "wp (run_formatting (lean_write_str t) (k True)) ?Q E ?P s1"
      by (rule wp_mono [OF Write.IH [OF rangeI s1 [THEN conjunct1] x(2,4)]])
        (use s1 in \<open>auto intro: later_trans stuck_from\<close>)
  qed simp_all
  then show ?case by (simp add: lean_write_str_def [of t x])
qed simp_all

lemma holds_assign:
  assumes "sound t (add_mset (Mutable, new, ys) (add_mset (Mutable, self s, xs) R)) s"
  shows "wp (lean_assign t new) (\<lambda>_ s'. holds t R ys s' \<and> later s s') E P s"
proof -
  have "sound t (add_mset (Mutable, self s, xs) (add_mset (Mutable, new, ys) R)) s"
    using assms by (simp add: add_mset_commute)
  from lean.discard [OF this] have "wp (lean_drop t (self s))
      (\<lambda>_ s'. holds t R ys (s'\<lparr>self := new\<rparr>) \<and> later s s') E P s"
    by (rule wp_mono) (auto simp: holds_local intro: mem_only_later)
  then show ?thesis by (simp add: lean_assign_def set_self_def)
qed

text \<open>A literal is appended; into an empty string that owns no allocation it is put as it is.\<close>

lemma holds_write_fmt_literal:
  assumes h: "holds t R xs s" and a: "literal args = Some ys" "valid_utf8 ys"
  shows "wp (lean_write_fmt t args) (\<lambda>ok s'. ok \<and> holds t R (xs @ ys) s' \<and> later s s') E
    (\<lambda>s'. stuck t R (length xs + length ys) s s' \<or> (xs = [] \<and> s' = s \<and> Static_MAX_LENGTH t < length ys)) s"
proof -
  let ?Q = "\<lambda>_ s'. holds t R (xs @ ys) s' \<and> later s s'"
  let ?P = "\<lambda>s'. stuck t R (length xs + length ys) s s' \<or> (xs = [] \<and> s' = s \<and> Static_MAX_LENGTH t < length ys)"
  have snd: "sound t (add_mset (Mutable, self s, xs) R) s" using h by (simp add: holds_def)
  have "wp (if xs = [] \<and> block_of (self s) = None then bind (lean_from_static_str t ys) (lean_assign t)
      else lean_push_str t ys) ?Q E ?P s"
  proof (cases "xs = [] \<and> block_of (self s) = None")
    case True
    have "wp (lean_from_static_str t ys) (\<lambda>r. wp (lean_assign t r) ?Q E ?P) E ?P s"
      unfolding lean_from_static_str_def wp_bind wp_attempt
      by (rule wp_mono [OF sound_from_static_str [OF snd a(2), where h = Mutable]])
        (use True in \<open>auto intro!: holds_assign\<close>)
    with True show ?thesis by simp
  next
    case False
    have "wp (lean_push_str t ys) ?Q E ?P s"
      by (rule wp_mono [OF lean_push_str_stuck [OF h a(2) order_refl]]) auto
    then show ?thesis by (simp only: False if_False)
  qed
  then show ?thesis
    by (simp add: lean_write_fmt_def a(1) lean_is_empty_def is_empty_def lean_is_heap_allocated_def
        holds_repr_len [OF h] holds_is_heap_buffer [OF h] del: wp_if)
qed

end
