(* ===== verification/NumToRepr.thy ===== *)
theory NumToRepr
  imports ReprCore
begin

text \<open>
  \<open>src/src/repr/num_to_repr.rs\<close>: integers to decimal. The number of digits comes from a chain of
  ranges per type, the digits are written backwards, four at a time, from a table of digit pairs.
  The theory shows that this is the decimal notation of the number for every value of every type,
  \<open>MIN\<close> included, with no access outside the buffer.
\<close>

section \<open>The integer types\<close>

datatype int_type = I8 | U8 | I16 | U16 | I32 | U32 | I64 | U64 | Isize | Usize

fun bit_size :: "target \<Rightarrow> int_type \<Rightarrow> nat" where
  "bit_size t I8 = 8"
| "bit_size t U8 = 8"
| "bit_size t I16 = 16"
| "bit_size t U16 = 16"
| "bit_size t I32 = 32"
| "bit_size t U32 = 32"
| "bit_size t I64 = 64"
| "bit_size t U64 = 64"
| "bit_size t Isize = USIZE_BITS t"
| "bit_size t Usize = USIZE_BITS t"

fun is_signed :: "int_type \<Rightarrow> bool" where
  "is_signed ty \<longleftrightarrow> ty \<in> {I8, I16, I32, I64, Isize}"

definition in_range :: "target \<Rightarrow> int_type \<Rightarrow> int \<Rightarrow> bool" where
  "in_range t ty x \<longleftrightarrow>
    (if is_signed ty then - (2 ^ (bit_size t ty - 1)) \<le> x \<and> x < 2 ^ (bit_size t ty - 1)
     else 0 \<le> x \<and> x < 2 ^ bit_size t ty)"

text \<open>The unsigned type that the digits are computed in: \<open>u64\<close>, and on 32-bit targets other than
  \<^verbatim>\<open>wasm32\<close> \<open>u32\<close> for the types up to 32 bits.\<close>

definition work_bits :: "target \<Rightarrow> bool \<Rightarrow> int_type \<Rightarrow> nat" where
  "work_bits t wasm ty =
    (if ty = I64 \<or> ty = U64 then 64
     else if pointer_width t = P64 \<or> wasm then 64 else 32)"

section \<open>Digit counts\<close>

definition digit_count_u8 :: "int \<Rightarrow> nat" where
  "digit_count_u8 n =
    (if n \<le> 9 then 1
     else if n \<le> 99 then 2
     else 3)"

definition digit_count_i8 :: "int \<Rightarrow> nat" where
  "digit_count_i8 n =
    (if n \<le> -100 then 4
     else if n \<le> -10 then 3
     else if n \<le> -1 then 2
     else if n \<le> 9 then 1
     else if n \<le> 99 then 2
     else 3)"

definition digit_count_u16 :: "int \<Rightarrow> nat" where
  "digit_count_u16 n =
    (if n \<le> 9 then 1
     else if n \<le> 99 then 2
     else if n \<le> 999 then 3
     else if n \<le> 9999 then 4
     else 5)"

definition digit_count_i16 :: "int \<Rightarrow> nat" where
  "digit_count_i16 n =
    (if n \<le> -10000 then 6
     else if n \<le> -1000 then 5
     else if n \<le> -100 then 4
     else if n \<le> -10 then 3
     else if n \<le> -1 then 2
     else if n \<le> 9 then 1
     else if n \<le> 99 then 2
     else if n \<le> 999 then 3
     else if n \<le> 9999 then 4
     else 5)"

definition digit_count_u32 :: "int \<Rightarrow> nat" where
  "digit_count_u32 n =
    (if n \<le> 9 then 1
     else if n \<le> 99 then 2
     else if n \<le> 999 then 3
     else if n \<le> 9999 then 4
     else if n \<le> 99999 then 5
     else if n \<le> 999999 then 6
     else if n \<le> 9999999 then 7
     else if n \<le> 99999999 then 8
     else if n \<le> 999999999 then 9
     else 10)"

definition digit_count_i32 :: "int \<Rightarrow> nat" where
  "digit_count_i32 n =
    (if n \<le> -1000000000 then 11
     else if n \<le> -100000000 then 10
     else if n \<le> -10000000 then 9
     else if n \<le> -1000000 then 8
     else if n \<le> -100000 then 7
     else if n \<le> -10000 then 6
     else if n \<le> -1000 then 5
     else if n \<le> -100 then 4
     else if n \<le> -10 then 3
     else if n \<le> -1 then 2
     else if n \<le> 9 then 1
     else if n \<le> 99 then 2
     else if n \<le> 999 then 3
     else if n \<le> 9999 then 4
     else if n \<le> 99999 then 5
     else if n \<le> 999999 then 6
     else if n \<le> 9999999 then 7
     else if n \<le> 99999999 then 8
     else if n \<le> 999999999 then 9
     else 10)"

definition digit_count_u64 :: "int \<Rightarrow> nat" where
  "digit_count_u64 n =
    (if n \<le> 9 then 1
     else if n \<le> 99 then 2
     else if n \<le> 999 then 3
     else if n \<le> 9999 then 4
     else if n \<le> 99999 then 5
     else if n \<le> 999999 then 6
     else if n \<le> 9999999 then 7
     else if n \<le> 99999999 then 8
     else if n \<le> 999999999 then 9
     else if n \<le> 9999999999 then 10
     else if n \<le> 99999999999 then 11
     else if n \<le> 999999999999 then 12
     else if n \<le> 9999999999999 then 13
     else if n \<le> 99999999999999 then 14
     else if n \<le> 999999999999999 then 15
     else if n \<le> 9999999999999999 then 16
     else if n \<le> 99999999999999999 then 17
     else if n \<le> 999999999999999999 then 18
     else if n \<le> 9999999999999999999 then 19
     else 20)"

definition digit_count_i64 :: "int \<Rightarrow> nat" where
  "digit_count_i64 n =
    (if n \<le> -1000000000000000000 then 20
     else if n \<le> -100000000000000000 then 19
     else if n \<le> -10000000000000000 then 18
     else if n \<le> -1000000000000000 then 17
     else if n \<le> -100000000000000 then 16
     else if n \<le> -10000000000000 then 15
     else if n \<le> -1000000000000 then 14
     else if n \<le> -100000000000 then 13
     else if n \<le> -10000000000 then 12
     else if n \<le> -1000000000 then 11
     else if n \<le> -100000000 then 10
     else if n \<le> -10000000 then 9
     else if n \<le> -1000000 then 8
     else if n \<le> -100000 then 7
     else if n \<le> -10000 then 6
     else if n \<le> -1000 then 5
     else if n \<le> -100 then 4
     else if n \<le> -10 then 3
     else if n \<le> -1 then 2
     else if n \<le> 9 then 1
     else if n \<le> 99 then 2
     else if n \<le> 999 then 3
     else if n \<le> 9999 then 4
     else if n \<le> 99999 then 5
     else if n \<le> 999999 then 6
     else if n \<le> 9999999 then 7
     else if n \<le> 99999999 then 8
     else if n \<le> 999999999 then 9
     else if n \<le> 9999999999 then 10
     else if n \<le> 99999999999 then 11
     else if n \<le> 999999999999 then 12
     else if n \<le> 9999999999999 then 13
     else if n \<le> 99999999999999 then 14
     else if n \<le> 999999999999999 then 15
     else if n \<le> 9999999999999999 then 16
     else if n \<le> 99999999999999999 then 17
     else if n \<le> 999999999999999999 then 18
     else 19)"

fun digit_count :: "target \<Rightarrow> int_type \<Rightarrow> int \<Rightarrow> nat" where
  "digit_count t I8 n = digit_count_i8 n"
| "digit_count t U8 n = digit_count_u8 n"
| "digit_count t I16 n = digit_count_i16 n"
| "digit_count t U16 n = digit_count_u16 n"
| "digit_count t I32 n = digit_count_i32 n"
| "digit_count t U32 n = digit_count_u32 n"
| "digit_count t I64 n = digit_count_i64 n"
| "digit_count t U64 n = digit_count_u64 n"
| "digit_count t Isize n = (case pointer_width t of P64 \<Rightarrow> digit_count_i64 n | P32 \<Rightarrow> digit_count_i32 n)"
| "digit_count t Usize n = (case pointer_width t of P64 \<Rightarrow> digit_count_u64 n | P32 \<Rightarrow> digit_count_u32 n)"

section \<open>Writing the digits\<close>

definition DEC_DIGITS_LUT :: "byte list" where
  "DEC_DIGITS_LUT = map of_char
    (''0001020304050607080910111213141516171819'' @
     ''2021222324252627282930313233343536373839'' @
     ''4041424344454647484950515253545556575859'' @
     ''6061626364656667686970717273747576777879'' @
     ''8081828384858687888990919293949596979899'')"

definition lut_copy :: "nat \<Rightarrow> nat \<Rightarrow> byte option list \<Rightarrow> ('s, byte option list) prog" where
  "lut_copy d off buf =
    bind (assert_unchecked (d + 2 \<le> length DEC_DIGITS_LUT \<and> off + 2 \<le> length buf)) (\<lambda>_.
    ret (overwrite buf off (map Some (window DEC_DIGITS_LUT d 2))))"

definition put_byte :: "nat \<Rightarrow> byte \<Rightarrow> byte option list \<Rightarrow> ('s, byte option list) prog" where
  "put_byte off b buf =
    bind (assert_unchecked (off < length buf)) (\<lambda>_. ret (buf[off := Some b]))"

function write_quads ::
  "target \<Rightarrow> nat \<Rightarrow> nat \<Rightarrow> byte option list \<Rightarrow> ('s, nat \<times> nat \<times> byte option list) prog"
where
  "write_quads t n pos buf =
    (if 10000 \<le> n then
       let remainder = n mod 10000;
           d1 = push_bit 1 (remainder div 100);
           d2 = push_bit 1 (remainder mod 100) in
       bind (usize_sub t pos 4) (\<lambda>pos.
       bind (lut_copy d1 pos buf) (\<lambda>buf.
       bind (lut_copy d2 (pos + 2) buf) (\<lambda>buf.
       write_quads t (n div 10000) pos buf)))
     else ret (n, pos, buf))"
  by pat_completeness auto

termination
  by (relation "measure (\<lambda>(_, n, _). n)") auto

declare write_quads.simps [simp del]

definition write_number ::
  "target \<Rightarrow> int_type \<Rightarrow> bool \<Rightarrow> nat \<Rightarrow> nat \<Rightarrow> byte option list \<Rightarrow> ('s, byte option list) prog"
where
  "write_number t ty is_nonnegative n digits_count buf =
    bind (if 2 \<le> bit_size t ty div 8 then write_quads t n digits_count buf else ret (n, digits_count, buf))
      (\<lambda>(n, pos, buf).
    bind (if 100 \<le> n then
        bind (usize_sub t pos 2) (\<lambda>pos.
        bind (lut_copy (push_bit 1 (n mod 100)) pos buf) (\<lambda>buf.
        ret (n div 100, pos, buf)))
      else ret (n, pos, buf)) (\<lambda>(n, pos, buf).
    bind (if n < 10 then
        bind (usize_sub t pos 1) (\<lambda>pos.
        bind (put_byte pos (byte_of n + 0x30) buf) (\<lambda>buf. ret (pos, buf)))
      else
        bind (usize_sub t pos 2) (\<lambda>pos.
        bind (lut_copy (push_bit 1 n) pos buf) (\<lambda>buf. ret (pos, buf)))) (\<lambda>(pos, buf).
    bind (if \<not> is_nonnegative then
        bind (usize_sub t pos 1) (\<lambda>pos.
        bind (put_byte pos 0x2D buf) (\<lambda>buf. ret (pos, buf)))
      else ret (pos, buf)) (\<lambda>(pos, buf).
    bind (debug_assert t (pos = 0)) (\<lambda>_. ret buf)))))"

text \<open>\<^verbatim>\<open>self as $u\<close>, and its negation in two's complement.\<close>

definition magnitude :: "nat \<Rightarrow> int \<Rightarrow> nat" where
  "magnitude w x =
    (if 0 \<le> x then nat (x mod 2 ^ w)
     else (2 ^ w - 1 - nat (x mod 2 ^ w) + 1) mod 2 ^ w)"

definition num_into_repr :: "target \<Rightarrow> bool \<Rightarrow> header \<Rightarrow> int_type \<Rightarrow> int \<Rightarrow> ('r st, repr) prog" where
  "num_into_repr t wasm h ty x =
    (let digits_count = digit_count t ty x; is_nonnegative = (0 \<le> x);
         n = magnitude (work_bits t wasm ty) x in
     new_with t h digits_count (write_number t ty is_nonnegative n digits_count))"

definition nonzero_into_repr :: "target \<Rightarrow> bool \<Rightarrow> header \<Rightarrow> int_type \<Rightarrow> int \<Rightarrow> ('r st, repr) prog" where
  "nonzero_into_repr t wasm h ty x = num_into_repr t wasm h ty x"

text \<open>Floats and 128-bit integers are formatted by other crates; the formatter is a parameter.\<close>

definition formatted_into_repr :: "target \<Rightarrow> header \<Rightarrow> ('n \<Rightarrow> byte list) \<Rightarrow> 'n \<Rightarrow> ('r st, repr) prog" where
  "formatted_into_repr t h format x = from_str t h (format x)"

section \<open>Decimal notation\<close>

function digits :: "nat \<Rightarrow> byte list" where
  "digits n = (if n < 10 then [byte_of (0x30 + n)] else digits (n div 10) @ [byte_of (0x30 + n mod 10)])"
  by pat_completeness auto

termination
  by (relation "measure id") auto

declare digits.simps [simp del]

definition decimal :: "int \<Rightarrow> byte list" where
  "decimal x = (if x < 0 then 0x2D # digits (nat (- x)) else digits (nat x))"

lemma digits_small: "n < 10 \<Longrightarrow> digits n = [byte_of (0x30 + n)]"
  by (subst digits.simps) simp

lemma digits_step: "10 \<le> n \<Longrightarrow> digits n = digits (n div 10) @ [byte_of (0x30 + n mod 10)]"
  by (subst digits.simps) simp

text \<open>Reading the notation back.\<close>

definition read_digits :: "byte list \<Rightarrow> nat" where
  "read_digits ds = foldl (\<lambda>n b. 10 * n + (unat b - 0x30)) 0 ds"

definition read_decimal :: "byte list \<Rightarrow> int" where
  "read_decimal xs = (case xs of
     [] \<Rightarrow> 0
   | b # ds \<Rightarrow> if b = 0x2D then - int (read_digits ds) else int (read_digits xs))"

lemma unat_digit: "k < 10 \<Longrightarrow> unat (byte_of (0x30 + k)) = 0x30 + k"
  by (simp add: unat_byte_of)

lemma read_digits_digits [simp]: "read_digits (digits n) = n"
proof (induction n rule: digits.induct)
  case (1 n)
  then show ?case
    by (cases "n < 10") (simp_all add: digits_small digits_step read_digits_def unat_digit)
qed

lemma digits_head: "\<exists>k ds. k < 10 \<and> digits n = byte_of (0x30 + k) # ds"
proof (induction n rule: digits.induct)
  case (1 n)
  then show ?case by (cases "n < 10") (auto simp: digits_small digits_step)
qed

lemma read_decimal_decimal [simp]: "read_decimal (decimal x) = x"
proof (cases "x < 0")
  case False
  obtain k ds where k: "k < 10" "digits (nat x) = byte_of (0x30 + k) # ds" using digits_head by blast
  then have "unat (byte_of (0x30 + k)) \<noteq> unat (0x2D :: byte)" by (simp add: unat_digit)
  then have "byte_of (0x30 + k) \<noteq> 0x2D" by metis
  with False k(2) read_digits_digits [of "nat x"] show ?thesis by (simp add: decimal_def read_decimal_def)
qed (simp add: decimal_def read_decimal_def)

definition pair :: "nat \<Rightarrow> byte list" where
  "pair n = [byte_of (0x30 + n div 10), byte_of (0x30 + n mod 10)]"

lemma digits_pair: "10 \<le> n \<Longrightarrow> n < 100 \<Longrightarrow> digits n = pair n"
  by (simp add: digits_step digits_small pair_def)

lemma mod_split: "0 < b \<Longrightarrow> (n :: nat) mod (a * b) div a = n div a mod b \<and> n mod (a * b) mod a = n mod a"
  by (cases "a = 0") (simp_all add: mod_mult2_eq)

lemma digits_100: "100 \<le> n \<Longrightarrow> digits n = digits (n div 100) @ pair (n mod 100)"
proof -
  assume "100 \<le> n"
  then have n: "10 \<le> n" "10 \<le> n div 10" by simp_all
  have "digits n = digits (n div 10 div 10) @ [byte_of (0x30 + n div 10 mod 10), byte_of (0x30 + n mod 10)]"
    unfolding digits_step [OF n(1)] digits_step [OF n(2)] by simp
  moreover have "n div 10 div 10 = n div 100" by (simp add: div_mult2_eq [symmetric])
  moreover have "n mod 100 div 10 = n div 10 mod 10" "n mod 100 mod 10 = n mod 10"
    using mod_split [of 10 n 10] by simp_all
  ultimately show ?thesis unfolding pair_def by (simp only:)
qed

lemma digits_quad:
  "10000 \<le> n \<Longrightarrow>
    digits n = digits (n div 10000) @ pair (n mod 10000 div 100) @ pair (n mod 10000 mod 100)"
proof -
  assume "10000 \<le> n"
  then have n: "100 \<le> n" "100 \<le> n div 100" by simp_all
  have "digits n = digits (n div 100 div 100) @ pair (n div 100 mod 100) @ pair (n mod 100)"
    unfolding digits_100 [OF n(1)] digits_100 [OF n(2)] by simp
  moreover have "n div 100 div 100 = n div 10000" by (simp add: div_mult2_eq [symmetric])
  moreover have "n mod 10000 div 100 = n div 100 mod 100" "n mod 10000 mod 100 = n mod 100"
    using mod_split [of 100 n 100] by simp_all
  ultimately show ?thesis by (simp only:)
qed

lemma length_pair [simp]: "length (pair n) = 2"
  by (simp add: pair_def)

lemma digits_ascii: "b \<in> set (digits n) \<Longrightarrow> unat b < 0x80"
proof (induction n rule: digits.induct)
  case (1 n)
  then show ?case
    by (cases "n < 10") (auto simp: digits_small digits_step unat_byte_of)
qed

lemma valid_decimal: "valid_utf8 (decimal x)"
  by (rule valid_utf8_ascii) (auto simp: decimal_def digits_ascii)

lemma digits_bounds: "n < 10 ^ length (digits n) \<and> (n = 0 \<or> 10 ^ (length (digits n) - 1) \<le> n) \<and> 0 < length (digits n)"
proof (induction n rule: digits.induct)
  case (1 n)
  show ?case
  proof (cases "n < 10")
    case True
    then show ?thesis by (auto simp: digits_small)
  next
    case False
    then have ih: "n div 10 < 10 ^ length (digits (n div 10))" "10 ^ (length (digits (n div 10)) - 1) \<le> n div 10"
      "0 < length (digits (n div 10))" using 1 by auto
    obtain k where k: "length (digits (n div 10)) = Suc k" using ih(3) gr0_implies_Suc by blast
    have "n < 10 * 10 ^ Suc k" "10 * 10 ^ k \<le> n" using ih(1,2) k by simp_all
    with False k show ?thesis by (simp add: digits_step)
  qed
qed

lemma length_digits: "10 ^ k \<le> n \<Longrightarrow> n < 10 ^ Suc k \<Longrightarrow> length (digits n) = Suc k"
proof -
  assume k: "10 ^ k \<le> n" "n < 10 ^ Suc k"
  have "0 < n" using k(1) by (metis gr0I not_less power_eq_0_iff zero_neq_numeral zero_less_iff_neq_zero)
  then have b: "n < 10 ^ length (digits n)" "10 ^ (length (digits n) - 1) \<le> n" "0 < length (digits n)"
    using digits_bounds [of n] by auto
  have "k < length (digits n)" using le_less_trans [OF k(1) b(1)] by (simp add: power_less_imp_less_exp)
  moreover have "length (digits n) - 1 < Suc k" using le_less_trans [OF b(2) k(2)] by (rule power_less_imp_less_exp [rotated]) simp
  ultimately show ?thesis by simp
qed

section \<open>The digit table\<close>

lemma length_LUT [simp]: "length DEC_DIGITS_LUT = 200"
  by (simp add: DEC_DIGITS_LUT_def)

lemma LUT_pairs: "DEC_DIGITS_LUT = concat (map pair [0..<100])"
  by code_simp

lemma window_concat_pairs:
  "n < length ns \<Longrightarrow> window (concat (map pair ns)) (2 * n) 2 = pair (ns ! n)"
proof (induction ns arbitrary: n)
  case (Cons m ns)
  show ?case
  proof (cases n)
    case 0
    then show ?thesis by (simp add: window_def)
  next
    case (Suc k)
    have "window (pair m @ concat (map pair ns)) (2 + 2 * k) 2 = window (concat (map pair ns)) (2 * k) 2"
      by (simp add: window_def)
    with Suc Cons show ?thesis by simp
  qed
qed simp

lemma LUT_pair: "n < 100 \<Longrightarrow> window DEC_DIGITS_LUT (2 * n) 2 = pair n"
  unfolding LUT_pairs by (subst window_concat_pairs) simp_all

section \<open>The writer\<close>

text \<open>A buffer of \<open>L\<close> bytes with \<open>xs\<close> at the end, from \<open>pos\<close> on.\<close>

definition written :: "nat \<Rightarrow> nat \<Rightarrow> byte list \<Rightarrow> byte option list \<Rightarrow> bool" where
  "written L pos xs buf \<longleftrightarrow> length buf = L \<and> pos + length xs = L \<and> drop pos buf = map Some xs"

lemma lut_copy_pair:
  "n < 100 \<Longrightarrow> off + 2 \<le> length buf \<Longrightarrow>
    lut_copy (n * 2) off buf = ret (overwrite buf off (map Some (pair n)))"
  using LUT_pair [of n] by (simp add: lut_copy_def assert_unchecked_def push_bit_eq_mult mult.commute)

lemma written_pair:
  "written L pos xs buf \<Longrightarrow> 2 \<le> pos \<Longrightarrow>
    written L (pos - 2) (pair n @ xs) (overwrite buf (pos - 2) (map Some (pair n)))"
  by (auto simp: written_def overwrite_def simp flip: add_2_eq_Suc')

lemma put_byte_eq: "off < length buf \<Longrightarrow> put_byte off b buf = ret (buf[off := Some b])"
  by (simp add: put_byte_def assert_unchecked_def)

lemma written_byte:
  assumes w: "written L pos xs buf" and p: "1 \<le> pos"
  shows "written L (pos - 1) (b # xs) (buf[pos - 1 := Some b])"
proof -
  obtain k where k: "pos = Suc k" using p by (cases pos) auto
  then have lt: "k < length buf" using w by (simp add: written_def)
  have "drop k (buf[k := Some b]) = Some b # drop (Suc k) buf"
    using lt Cons_nth_drop_Suc [of k "buf[k := Some b]"] by simp
  with w k show ?thesis by (simp add: written_def)
qed

lemma sub_ok: "k \<le> n \<Longrightarrow> usize_sub t n k = ret (n - k)"
  by (simp add: usize_sub_def usize_result_def)

lemma write_quads_ok:
  assumes "written L pos xs buf" "length (digits n) \<le> pos"
  shows "\<exists>m pos' buf' ys. write_quads t n pos buf = (ret (m, pos', buf') :: ('s, nat \<times> nat \<times> byte option list) prog) \<and> m < 10000 \<and>
    digits n = digits m @ ys \<and> written L pos' (ys @ xs) buf' \<and> length (digits m) \<le> pos'"
  using assms
proof (induction n arbitrary: pos xs buf rule: less_induct)
  case (less n)
  show ?case
  proof (cases "10000 \<le> n")
    case False
    then have "write_quads t n pos buf = (ret (n, pos, buf) :: ('s, nat \<times> nat \<times> byte option list) prog)" by (subst write_quads.simps) simp
    with False less.prems show ?thesis
      by (intro exI [of _ n] exI [of _ pos] exI [of _ buf] exI [of _ "[]"]) simp
  next
    case True
    let ?a = "n mod 10000 div 100" and ?b = "n mod 10000 mod 100" and ?q = "pos - 4"
    have quad: "digits n = digits (n div 10000) @ pair ?a @ pair ?b" using True by (rule digits_quad)
    have lt: "?a < 100" "?b < 100" by (simp_all add: less_mult_imp_div_less)
    have pos: "4 \<le> pos" "length (digits (n div 10000)) \<le> ?q" using less.prems(2) quad by simp_all
    let ?buf1 = "overwrite buf ?q (map Some (pair ?a))"
    let ?buf2 = "overwrite ?buf1 (?q + 2) (map Some (pair ?b))"
    have len: "pos \<le> length buf" using less.prems(1) by (simp add: written_def)
    have w: "written L ?q (pair ?a @ pair ?b @ xs) ?buf2"
      using less.prems(1) pos(1) by (auto simp: written_def overwrite_def simp flip: add_2_eq_Suc')
    have run: "(write_quads t n pos buf :: ('s, nat \<times> nat \<times> byte option list) prog) = write_quads t (n div 10000) ?q ?buf2"
      using True lt pos(1) len
      by (subst write_quads.simps) (simp add: Let_def lut_copy_pair sub_ok)
    have small: "n div 10000 < n" using True by simp
    from less.IH [OF small w pos(2)] obtain m pos' buf' ys where
      ih: "write_quads t (n div 10000) ?q ?buf2 = (ret (m, pos', buf') :: ('s, nat \<times> nat \<times> byte option list) prog)" "m < 10000"
        "digits (n div 10000) = digits m @ ys" "written L pos' (ys @ pair ?a @ pair ?b @ xs) buf'"
        "length (digits m) \<le> pos'" by blast
    with run quad show ?thesis
      by (intro exI [of _ m] exI [of _ pos'] exI [of _ buf'] exI [of _ "ys @ pair ?a @ pair ?b"]) simp
  qed
qed

text \<open>The whole writer fills the buffer with the decimal notation and stops at its start.\<close>

lemma byte_digit: "byte_of n + 0x30 = byte_of (0x30 + n)"
  by (simp add: byte_of_def add.commute)

lemma write_number_ok:
  assumes len: "length buf = (if nonneg then 0 else 1) + length (digits n)"
    and small: "2 \<le> bit_size t ty div 8 \<or> n < 10000"
  shows "write_number t ty nonneg n (length buf) buf =
    (ret (map Some ((if nonneg then [] else [0x2D]) @ digits n)) :: ('s, byte option list) prog)"
proof -
  let ?L = "length buf"
  have start: "written ?L ?L [] buf" by (simp add: written_def)
  have le: "length (digits n) \<le> ?L" using len by simp
  obtain m pos buf1 ys where f: "(if 2 \<le> bit_size t ty div 8 then write_quads t n ?L buf
      else ret (n, ?L, buf)) = (ret (m, pos, buf1) :: ('s, nat \<times> nat \<times> byte option list) prog)" "m < 10000" "digits n = digits m @ ys"
    "written ?L pos ys buf1" "length (digits m) \<le> pos"
  proof (cases "2 \<le> bit_size t ty div 8")
    case True
    with write_quads_ok [OF start le, of t] that show ?thesis by auto
  next
    case False
    with small start le that [of n ?L buf "[]"] show ?thesis by simp
  qed
  obtain m2 pos2 buf2 ys2 where f2: "(if 100 \<le> m then
        bind (usize_sub t pos 2) (\<lambda>pos. bind (lut_copy (push_bit 1 (m mod 100)) pos buf1) (\<lambda>buf.
        ret (m div 100, pos, buf)))
      else ret (m, pos, buf1)) = (ret (m2, pos2, buf2) :: ('s, nat \<times> nat \<times> byte option list) prog)" "m2 < 100" "digits n = digits m2 @ ys2"
    "written ?L pos2 ys2 buf2" "length (digits m2) \<le> pos2"
  proof (cases "100 \<le> m")
    case True
    have d: "digits m = digits (m div 100) @ pair (m mod 100)" using True by (rule digits_100)
    then have p: "2 \<le> pos" "length (digits (m div 100)) \<le> pos - 2" using f(5) by simp_all
    have "pos \<le> length buf1" using f(4) by (simp add: written_def)
    with True p f(2,3) d written_pair [OF f(4) p(1), of "m mod 100"] show ?thesis
      by (intro that [of "m div 100" "pos - 2"]) (simp_all add: lut_copy_pair sub_ok)
  next
    case False
    with f that show ?thesis by auto
  qed
  obtain pos3 buf3 where f3: "(if m2 < 10 then
        bind (usize_sub t pos2 1) (\<lambda>pos. bind (put_byte pos (byte_of m2 + 0x30) buf2) (\<lambda>buf. ret (pos, buf)))
      else
        bind (usize_sub t pos2 2) (\<lambda>pos. bind (lut_copy (push_bit 1 m2) pos buf2) (\<lambda>buf. ret (pos, buf)))) =
      (ret (pos3, buf3) :: ('s, nat \<times> byte option list) prog)" "written ?L pos3 (digits n) buf3"
  proof (cases "m2 < 10")
    case True
    have p: "1 \<le> pos2" "pos2 \<le> length buf2" using f2(4,5) True by (simp_all add: digits_small written_def)
    with True f2(3) written_byte [OF f2(4) p(1), of "byte_of (0x30 + m2)"] show ?thesis
      by (intro that [of "pos2 - 1"]) (simp_all add: put_byte_eq sub_ok byte_digit digits_small)
  next
    case False
    then have d: "digits m2 = pair m2" using f2(2) by (intro digits_pair) simp_all
    then have p: "2 \<le> pos2" "pos2 \<le> length buf2" using f2(4,5) by (simp_all add: written_def)
    with False f2(2,3) d written_pair [OF f2(4) p(1), of m2] show ?thesis
      by (intro that [of "pos2 - 2"]) (simp_all add: lut_copy_pair sub_ok)
  qed
  have pos3: "pos3 = (if nonneg then 0 else 1)" "length buf3 = ?L"
    using f3(2) len by (simp_all add: written_def)
  obtain buf4 where f4: "(if \<not> nonneg then
        bind (usize_sub t pos3 1) (\<lambda>pos. bind (put_byte pos 0x2D buf3) (\<lambda>buf. ret (pos, buf)))
      else ret (pos3, buf3)) = (ret (0, buf4) :: ('s, nat \<times> byte option list) prog)"
    "written ?L 0 ((if nonneg then [] else [0x2D]) @ digits n) buf4"
  proof (cases nonneg)
    case True
    with f3(2) pos3 that show ?thesis by simp
  next
    case False
    with f3(2) pos3 len written_byte [OF f3(2), of "0x2D"] show ?thesis
      by (intro that) (simp_all add: put_byte_eq sub_ok)
  qed
  from f4(2) have "buf4 = map Some ((if nonneg then [] else [0x2D]) @ digits n)" by (simp add: written_def)
  then show ?thesis
    unfolding write_number_def f(1) f2(1) f3(1) f4(1) ret_bind case_prod_conv by simp
qed

section \<open>The ranges give the number of digits\<close>

lemma digit_count_u64_eq:
  fixes n :: nat
  assumes "n < 10 ^ 20"
  shows "digit_count_u64 (int n) = length (digits n)"
proof (cases "n = 0")
  case True
  then show ?thesis by (simp add: digits_small digit_count_u64_def)
next
  case False
  obtain k where k: "length (digits n) = Suc k" using digits_bounds [of n] gr0_implies_Suc by blast
  have b: "n < 10 ^ Suc k" "10 ^ k \<le> n" using digits_bounds [of n] k False by auto
  have "(10 :: nat) ^ k < 10 ^ 20" using b(2) assms by linarith
  then have "k < 20" by (rule power_less_imp_less_exp [rotated]) simp
  then have "k \<in> {0, 1, 2, 3, 4, 5, 6, 7, 8, 9, 10, 11, 12, 13, 14, 15, 16, 17, 18, 19}"
    by (simp add: numeral_eq_Suc less_Suc_eq)
  then show ?thesis using b unfolding k
    by (elim insertE emptyE) (simp_all add: digit_count_u64_def)
qed

definition signed_count :: "int \<Rightarrow> nat" where
  "signed_count n = (if n < 0 then Suc (digit_count_u64 (- n)) else digit_count_u64 n)"

lemma signed_count_nonneg: "0 \<le> n \<Longrightarrow> signed_count n = digit_count_u64 n"
  by (simp add: signed_count_def)

lemma digit_count_unsigned:
  "n < 256 \<Longrightarrow> digit_count_u8 n = digit_count_u64 n"
  "n < 65536 \<Longrightarrow> digit_count_u16 n = digit_count_u64 n"
  "n < 4294967296 \<Longrightarrow> digit_count_u32 n = digit_count_u64 n"
  by (simp_all add: digit_count_u8_def digit_count_u16_def digit_count_u32_def digit_count_u64_def)

lemma digit_count_i64_eq:
  "- 9223372036854775808 \<le> n \<Longrightarrow> n < 9223372036854775808 \<Longrightarrow> digit_count_i64 n = signed_count n"
  by (simp add: digit_count_i64_def digit_count_u64_def signed_count_def)

lemma digit_count_i32_eq:
  "- 2147483648 \<le> n \<Longrightarrow> n < 2147483648 \<Longrightarrow> digit_count_i32 n = digit_count_i64 n"
  by (simp add: digit_count_i32_def digit_count_i64_def)

lemma digit_count_i16_eq:
  "- 32768 \<le> n \<Longrightarrow> n < 32768 \<Longrightarrow> digit_count_i16 n = digit_count_i64 n"
  by (simp add: digit_count_i16_def digit_count_i64_def)

lemma digit_count_i8_eq:
  "- 128 \<le> n \<Longrightarrow> n < 128 \<Longrightarrow> digit_count_i8 n = digit_count_i64 n"
  by (simp add: digit_count_i8_def digit_count_i64_def)

lemma signed_count_eq:
  assumes "\<bar>n\<bar> < 10 ^ 20"
  shows "signed_count n = length (decimal n)"
proof (cases "n < 0")
  case True
  then have "nat (- n) < 10 ^ 20" "int (nat (- n)) = - n" using assms by simp_all
  with digit_count_u64_eq [of "nat (- n)"] True show ?thesis by (simp add: signed_count_def decimal_def)
next
  case False
  then have "nat n < 10 ^ 20" using assms by simp
  with digit_count_u64_eq [of "nat n"] False show ?thesis by (simp add: signed_count_def decimal_def)
qed

lemma digit_count_eq:
  assumes "in_range t ty x"
  shows "digit_count t ty x = length (decimal x)"
proof -
  have "digit_count t ty x = signed_count x \<and> \<bar>x\<bar> < 10 ^ 20"
    using assms
    by (cases ty; cases "pointer_width t")
      (simp_all add: in_range_def target_numbers_32 target_numbers_64 digit_count_unsigned
        digit_count_i8_eq digit_count_i16_eq digit_count_i32_eq digit_count_i64_eq abs_less_iff
        signed_count_nonneg)
  then show ?thesis by (simp add: signed_count_eq)
qed

section \<open>Converting\<close>

lemma in_range_bounds:
  assumes "in_range t ty x"
  shows "- (2 ^ (work_bits t wasm ty - 1)) \<le> x" "x < 2 ^ work_bits t wasm ty"
    "work_bits t wasm ty \<in> {32, 64}" "bit_size t ty div 8 < 2 \<Longrightarrow> \<bar>x\<bar> < 10000"
  using assms
  by (cases ty; cases "pointer_width t";
      auto simp: in_range_def work_bits_def USIZE_BITS_def USIZE_SIZE_def abs_less_iff)+

lemma magnitude_eq:
  assumes "- (2 ^ (w - 1)) \<le> x" "x < 2 ^ w" "w \<in> {32, 64}"
  shows "magnitude w x = nat \<bar>x\<bar>"
proof (cases "0 \<le> x")
  case True
  with assms(2) show ?thesis by (simp add: magnitude_def)
next
  case False
  have "x mod 2 ^ w = (x + 2 ^ w) mod 2 ^ w" by simp
  also have "\<dots> = x + 2 ^ w" using False assms(1,3) by (intro mod_pos_pos_trivial) auto
  finally have "x mod 2 ^ w = x + 2 ^ w" .
  moreover have "nat (x + 2 ^ w) = 2 ^ w - nat (- x)" "0 < nat (- x)" "nat (- x) < 2 ^ w"
    using False assms(1,3) by auto
  ultimately show ?thesis using False by (simp add: magnitude_def)
qed

lemma sound_num_into_repr:
  assumes "sound t R s" "in_range t ty x"
  shows "wp (num_into_repr t wasm h ty x)
    (\<lambda>r s'. sound t (add_mset (h, r, decimal x) R) s' \<and> mem_only s s' \<and> modifiable R r)
    (\<lambda>s'. sound t R s' \<and> mem_only s s' \<and> MAX_INLINE_SIZE t < length (decimal x) \<and>
      refused t h (length (decimal x)) s s')
    P s"
proof -
  let ?n = "magnitude (work_bits t wasm ty) x"
  note b = in_range_bounds(1-3) [OF assms(2), where wasm = wasm] in_range_bounds(4) [OF assms(2)]
  have n: "?n = nat \<bar>x\<bar>" using b(1-3) by (rule magnitude_eq)
  have dec: "decimal x = (if 0 \<le> x then [] else [0x2D]) @ digits ?n"
    by (auto simp: n decimal_def)
  have "2 \<le> bit_size t ty div 8 \<or> ?n < 10000" using b(4) n by linarith
  then have "write_number t ty (0 \<le> x) ?n (length (decimal x)) d = ret (map Some (decimal x))"
    if "length d = length (decimal x)" for d
    using write_number_ok [of d "0 \<le> x" ?n t ty] that dec by (simp split: if_splits)
  from sound_new_with [OF assms(1) valid_decimal this]
  show ?thesis by (simp add: num_into_repr_def digit_count_eq [OF assms(2)] Let_def)
qed

end
