(* ===== verification/Traits.thy ===== *)
theory Traits
  imports Collect NumToRepr
begin

text \<open>
  The conversion traits. \<^verbatim>\<open>From\<close> and \<^verbatim>\<open>Into\<close> of both types and of the
  standard string types (\<open>src/src/lib.rs\<close>); \<^verbatim>\<open>ToLeanString\<close> and
  \<^verbatim>\<open>ToLeanStr\<close> with their dispatch on the type of the argument and the writer that
  survives a failed allocation (\<open>src/src/traits.rs\<close>, \<open>src/src/errors\<close>); \<^verbatim>\<open>serde\<close> and
  \<^verbatim>\<open>arbitrary\<close> (\<open>src/src/features\<close>).
\<close>

section \<open>From and Into\<close>

datatype cow = Borrowed "byte list" | Owned "byte list"

definition lean_default :: "target \<Rightarrow> ('s, repr) prog" where
  "lean_default t = lean_new t"

definition value_deref :: "target \<Rightarrow> header \<Rightarrow> repr \<Rightarrow> ('r st, byte list) prog" where
  "value_deref t h r = as_str t h r"

definition value_fmt :: "target \<Rightarrow> (byte list \<Rightarrow> 'f \<Rightarrow> 'f) \<Rightarrow> header \<Rightarrow> repr \<Rightarrow> 'f \<Rightarrow> ('r st, 'f) prog" where
  "value_fmt t fmt h r f = bind (as_str t h r) (\<lambda>x. ret (fmt x f))"

definition value_as_ref :: "target \<Rightarrow> header \<Rightarrow> repr \<Rightarrow> ('r st, byte list) prog" where
  "value_as_ref t h r = as_str t h r"

definition value_as_ref_bytes :: "target \<Rightarrow> header \<Rightarrow> repr \<Rightarrow> ('r st, byte list) prog" where
  "value_as_ref_bytes t h r = as_bytes t h r"

definition value_borrow :: "target \<Rightarrow> header \<Rightarrow> repr \<Rightarrow> ('r st, byte list) prog" where
  "value_borrow t h r = as_str t h r"

text \<open>A \<^verbatim>\<open>String\<close> and a \<^verbatim>\<open>Box<str>\<close> are their bytes.\<close>

definition from_mut_str :: "target \<Rightarrow> header \<Rightarrow> byte list \<Rightarrow> ('r st, repr) prog" where
  "from_mut_str t h value = unwrap_with_msg (from_str t h value)"

definition from_string :: "target \<Rightarrow> header \<Rightarrow> byte list \<Rightarrow> ('r st, repr) prog" where
  "from_string t h value = unwrap_with_msg (from_str t h value)"

definition from_string_ref :: "target \<Rightarrow> header \<Rightarrow> byte list \<Rightarrow> ('r st, repr) prog" where
  "from_string_ref t h value = unwrap_with_msg (from_str t h value)"

definition from_cow :: "target \<Rightarrow> header \<Rightarrow> cow \<Rightarrow> ('r st, repr) prog" where
  "from_cow t h c = (case c of
     Borrowed s \<Rightarrow> lean_from t h s
   | Owned s \<Rightarrow> from_string t h s)"

definition from_box_str :: "target \<Rightarrow> header \<Rightarrow> byte list \<Rightarrow> ('r st, repr) prog" where
  "from_box_str t h value = unwrap_with_msg (from_str t h value)"

definition from_ref :: "target \<Rightarrow> header \<Rightarrow> repr \<Rightarrow> ('r st, repr) prog" where
  "from_ref t h r = make_shallow_clone t h r"

definition into_string :: "target \<Rightarrow> header \<Rightarrow> repr \<Rightarrow> ('r st, byte list) prog" where
  "into_string t h r = bind (as_str t h r) (\<lambda>x. bind (drop_in t h r) (\<lambda>_. ret x))"

definition string_from_ref :: "target \<Rightarrow> header \<Rightarrow> repr \<Rightarrow> ('r st, byte list) prog" where
  "string_from_ref t h r = as_str t h r"

definition into_cow :: "target \<Rightarrow> header \<Rightarrow> repr \<Rightarrow> ('r st, cow) prog" where
  "into_cow t h r =
    bind (as_static_str t r) (\<lambda>static. case static of
      Some s \<Rightarrow> bind (drop_in t h r) (\<lambda>_. ret (Borrowed s))
    | None \<Rightarrow> bind (into_string t h r) (\<lambda>x. ret (Owned x)))"

definition cow_from_ref :: "target \<Rightarrow> header \<Rightarrow> repr \<Rightarrow> ('r st, cow) prog" where
  "cow_from_ref t h r = bind (as_str t h r) (\<lambda>x. ret (Borrowed x))"

definition lstr_from_lean_string :: "target \<Rightarrow> repr \<Rightarrow> ('r st, repr) prog" where
  "lstr_from_lean_string t value = lean_into_lean_str t value"

definition lean_from_lean_str :: "target \<Rightarrow> repr \<Rightarrow> ('r st, repr) prog" where
  "lean_from_lean_str t value = lstr_into_lean_string t value"

definition lstr_from_lean_string_ref :: "target \<Rightarrow> repr \<Rightarrow> ('r st, repr) prog" where
  "lstr_from_lean_string_ref t value = bind (lean_clone t value) (lean_into_lean_str t)"

definition lean_from_lean_str_ref :: "target \<Rightarrow> repr \<Rightarrow> ('r st, repr) prog" where
  "lean_from_lean_str_ref t value = bind (lstr_clone t value) (lstr_into_lean_string t)"

definition value_from_str :: "target \<Rightarrow> header \<Rightarrow> byte list \<Rightarrow> ('r st, repr) prog" where
  "value_from_str t h s = from_str t h s"

section \<open>ToLeanString and ToLeanStr\<close>

datatype fmt_error = FmtError

datatype to_lean_string_error = StringReserve reserve_error | StringFmt fmt_error

datatype to_lean_str_error = StrReserve reserve_error | StrFmt fmt_error

definition reserve_message :: "reserve_error \<Rightarrow> string" where
  "reserve_message e = ''Cannot allocate memory to hold LeanString''"

definition to_lean_string_message :: "(fmt_error \<Rightarrow> string) \<Rightarrow> to_lean_string_error \<Rightarrow> string" where
  "to_lean_string_message fmt_message e = (case e of
     StringReserve e \<Rightarrow> reserve_message e | StringFmt e \<Rightarrow> fmt_message e)"

definition to_lean_str_message :: "(fmt_error \<Rightarrow> string) \<Rightarrow> to_lean_str_error \<Rightarrow> string" where
  "to_lean_str_message fmt_message e = (case e of
     StrReserve e \<Rightarrow> reserve_message e | StrFmt e \<Rightarrow> fmt_message e)"

text \<open>The operator \<^verbatim>\<open>?\<close> on a \<^verbatim>\<open>Result<_, ReserveError>\<close> in a function with
  another error type.\<close>

definition reserve_into :: "(reserve_error \<Rightarrow> 'e) \<Rightarrow> ('s, 'a) prog \<Rightarrow> ('s, 'e + 'a) prog" where
  "reserve_into wrap m = bind (attempt m) (\<lambda>r. case r of
     Some x \<Rightarrow> ret (Inr x) | None \<Rightarrow> ret (Inl (wrap ReserveError)))"

definition unwrap_result :: "('s, 'e + 'a) prog \<Rightarrow> ('s, 'a) prog" where
  "unwrap_result m = bind m (\<lambda>res. case res of Inr x \<Rightarrow> ret x | Inl _ \<Rightarrow> panic)"

text \<open>The local writer of \<^verbatim>\<open>try_from_fmt\<close>: a string, or the error of the push that failed,
  which dropped the string.\<close>

definition writer_write_str ::
  "target \<Rightarrow> byte list \<Rightarrow> reserve_error + repr \<Rightarrow> (repr st, bool \<times> (reserve_error + repr)) prog"
where
  "writer_write_str t s writer = (case writer of
     Inl e \<Rightarrow> ret (False, Inl e)
   | Inr string \<Rightarrow>
       bind (with_local string (attempt (try_push_str t s))) (\<lambda>(res, string). case res of
         Some _ \<Rightarrow> ret (True, Inr string)
       | None \<Rightarrow> bind (lean_drop t string) (\<lambda>_. ret (False, Inl ReserveError))))"

definition drop_writer :: "target \<Rightarrow> reserve_error + repr \<Rightarrow> ('r st, unit) prog" where
  "drop_writer t writer = (case writer of Inl _ \<Rightarrow> ret () | Inr string \<Rightarrow> lean_drop t string)"

primrec run_writer ::
  "target \<Rightarrow> formatting \<Rightarrow> reserve_error + repr \<Rightarrow> (repr st, bool \<times> (reserve_error + repr)) prog"
where
  "run_writer t (Finish ok) writer = ret (ok, writer)"
| "run_writer t Abort writer = bind (drop_writer t writer) (\<lambda>_. panic)"
| "run_writer t (Write x k) writer =
    bind (writer_write_str t x writer) (\<lambda>(ok, writer). run_writer t (k ok) writer)"

definition try_from_fmt ::
  "target \<Rightarrow> (reserve_error \<Rightarrow> 'e) \<Rightarrow> (fmt_error \<Rightarrow> 'e) \<Rightarrow> fmt_arguments \<Rightarrow> (repr st, 'e + repr) prog"
where
  "try_from_fmt t from_reserve from_fmt args = (case literal args of
     Some str \<Rightarrow> bind (lean_from_static_str t str) (\<lambda>r. ret (Inr r))
   | None \<Rightarrow>
       bind (lean_new t) (\<lambda>string.
       bind (run_writer t (formatter args) (Inr string)) (\<lambda>(formatted, writer). case writer of
         Inr string \<Rightarrow>
           if formatted then ret (Inr string)
           else bind (lean_drop t string) (\<lambda>_. ret (Inl (from_fmt FmtError)))
       | Inl error \<Rightarrow> ret (Inl (from_reserve error)))))"

text \<open>The argument of the blanket implementation, by the type that \<^verbatim>\<open>match_type!\<close> finds;
  \<open>'n\<close> are the numbers that another crate formats.\<close>

datatype 'n source =
    OfInt int_type int
  | OfNonZero int_type int
  | OfFormatted 'n
  | OfBool bool
  | OfChar uchar
  | OfString "byte list"
  | OfLeanString repr
  | OfLeanStr repr
  | OfDisplay fmt_arguments

definition try_to_lean_string ::
  "target \<Rightarrow> bool \<Rightarrow> ('n \<Rightarrow> byte list) \<Rightarrow> 'n source \<Rightarrow> (repr st, to_lean_string_error + repr) prog"
where
  "try_to_lean_string t wasm format v = (case v of
     OfInt ty x \<Rightarrow> reserve_into StringReserve (num_into_repr t wasm Mutable ty x)
   | OfNonZero ty x \<Rightarrow> reserve_into StringReserve (nonzero_into_repr t wasm Mutable ty x)
   | OfFormatted x \<Rightarrow> reserve_into StringReserve (formatted_into_repr t Mutable format x)
   | OfBool b \<Rightarrow> bind (from_bool t b) (\<lambda>r. ret (Inr r))
   | OfChar c \<Rightarrow> bind (from_char t c) (\<lambda>r. ret (Inr r))
   | OfString s \<Rightarrow> reserve_into StringReserve (from_str t Mutable s)
   | OfLeanString s \<Rightarrow> bind (lean_clone t s) (\<lambda>r. ret (Inr r))
   | OfLeanStr s \<Rightarrow> bind (lstr_clone t s) (\<lambda>r. reserve_into StringReserve (try_into_lean_string t r))
   | OfDisplay args \<Rightarrow> try_from_fmt t StringReserve StringFmt args)"

definition str_try_to_lean_string :: "target \<Rightarrow> byte list \<Rightarrow> (repr st, to_lean_string_error + repr) prog" where
  "str_try_to_lean_string t s = reserve_into StringReserve (from_str t Mutable s)"

definition to_lean_string :: "target \<Rightarrow> bool \<Rightarrow> ('n \<Rightarrow> byte list) \<Rightarrow> 'n source \<Rightarrow> (repr st, repr) prog" where
  "to_lean_string t wasm format v = unwrap_result (try_to_lean_string t wasm format v)"

definition try_to_lean_str ::
  "target \<Rightarrow> bool \<Rightarrow> ('n \<Rightarrow> byte list) \<Rightarrow> 'n source \<Rightarrow> (repr st, to_lean_str_error + repr) prog"
where
  "try_to_lean_str t wasm format v = (case v of
     OfInt ty x \<Rightarrow> reserve_into StrReserve (num_into_repr t wasm Immutable ty x)
   | OfNonZero ty x \<Rightarrow> reserve_into StrReserve (nonzero_into_repr t wasm Immutable ty x)
   | OfFormatted x \<Rightarrow> reserve_into StrReserve (formatted_into_repr t Immutable format x)
   | OfBool b \<Rightarrow> bind (from_bool t b) (\<lambda>r. ret (Inr r))
   | OfChar c \<Rightarrow> bind (from_char t c) (\<lambda>r. ret (Inr r))
   | OfString s \<Rightarrow> reserve_into StrReserve (from_str t Immutable s)
   | OfLeanStr s \<Rightarrow> bind (lstr_clone t s) (\<lambda>r. ret (Inr r))
   | OfLeanString s \<Rightarrow> bind (lean_clone t s) (\<lambda>r. reserve_into StrReserve (try_into_lean_str t r))
   | OfDisplay args \<Rightarrow>
       bind (try_from_fmt t StrReserve StrFmt args) (\<lambda>res. case res of
         Inl e \<Rightarrow> ret (Inl e)
       | Inr string \<Rightarrow> reserve_into StrReserve (try_into_lean_str t string)))"

definition str_try_to_lean_str :: "target \<Rightarrow> byte list \<Rightarrow> (repr st, to_lean_str_error + repr) prog" where
  "str_try_to_lean_str t s = reserve_into StrReserve (from_str t Immutable s)"

definition to_lean_str :: "target \<Rightarrow> bool \<Rightarrow> ('n \<Rightarrow> byte list) \<Rightarrow> 'n source \<Rightarrow> (repr st, repr) prog" where
  "to_lean_str t wasm format v = unwrap_result (try_to_lean_str t wasm format v)"

section \<open>Serde and arbitrary\<close>

text \<open>A serializer is what it makes of a string, a deserializer the visitor method it calls, with an
  argument, or an error of its own.\<close>

datatype 'e visit =
    VisitStr "byte list"
  | VisitBorrowedStr "byte list"
  | VisitBytes "byte list"
  | VisitBorrowedBytes "byte list"
  | VisitFailed 'e

definition value_serialize :: "target \<Rightarrow> (byte list \<Rightarrow> 'o) \<Rightarrow> header \<Rightarrow> repr \<Rightarrow> ('r st, 'o) prog" where
  "value_serialize t serialize_str h r = bind (as_str t h r) (\<lambda>x. ret (serialize_str x))"

text \<open>\<^verbatim>\<open>Error::invalid_value(Unexpected::Bytes(v), &self)\<close>.\<close>

definition map_err :: "(byte list \<Rightarrow> 'e) \<Rightarrow> byte list \<Rightarrow> utf8_error + repr \<Rightarrow> 'e + repr" where
  "map_err invalid_value v res = (case res of Inl _ \<Rightarrow> Inl (invalid_value v) | Inr r \<Rightarrow> Inr r)"

definition lean_deserialize :: "target \<Rightarrow> (byte list \<Rightarrow> 'e) \<Rightarrow> 'e visit \<Rightarrow> ('r st, 'e + repr) prog" where
  "lean_deserialize t invalid_value visitor = (case visitor of
     VisitStr v \<Rightarrow> bind (lean_from t Mutable v) (\<lambda>r. ret (Inr r))
   | VisitBorrowedStr v \<Rightarrow> bind (lean_from t Mutable v) (\<lambda>r. ret (Inr r))
   | VisitBytes v \<Rightarrow> bind (lean_from_utf8 t v) (\<lambda>res. ret (map_err invalid_value v res))
   | VisitBorrowedBytes v \<Rightarrow> bind (lean_from_utf8 t v) (\<lambda>res. ret (map_err invalid_value v res))
   | VisitFailed e \<Rightarrow> ret (Inl e))"

definition lstr_deserialize :: "target \<Rightarrow> (byte list \<Rightarrow> 'e) \<Rightarrow> 'e visit \<Rightarrow> ('r st, 'e + repr) prog" where
  "lstr_deserialize t invalid_value visitor = (case visitor of
     VisitStr v \<Rightarrow> bind (lean_from t Immutable v) (\<lambda>r. ret (Inr r))
   | VisitBorrowedStr v \<Rightarrow> bind (lean_from t Immutable v) (\<lambda>r. ret (Inr r))
   | VisitBytes v \<Rightarrow> bind (lstr_from_utf8 t v) (\<lambda>res. ret (map_err invalid_value v res))
   | VisitBorrowedBytes v \<Rightarrow> bind (lstr_from_utf8 t v) (\<lambda>res. ret (map_err invalid_value v res))
   | VisitFailed e \<Rightarrow> ret (Inl e))"

text \<open>\<^verbatim>\<open><&str as Arbitrary>\<close> is the argument: a string or an error from the unstructured
  bytes.\<close>

definition lean_arbitrary :: "target \<Rightarrow> ('u \<Rightarrow> 'e + byte list) \<Rightarrow> 'u \<Rightarrow> ('r st, 'e + repr) prog" where
  "lean_arbitrary t arbitrary_str u = (case arbitrary_str u of
     Inl e \<Rightarrow> ret (Inl e)
   | Inr x \<Rightarrow> bind (lean_from t Mutable x) (\<lambda>r. ret (Inr r)))"

definition lean_arbitrary_take_rest :: "target \<Rightarrow> ('u \<Rightarrow> 'e + byte list) \<Rightarrow> 'u \<Rightarrow> ('r st, 'e + repr) prog" where
  "lean_arbitrary_take_rest t take_rest_str u = (case take_rest_str u of
     Inl e \<Rightarrow> ret (Inl e)
   | Inr x \<Rightarrow> bind (lean_from t Mutable x) (\<lambda>r. ret (Inr r)))"

definition lean_size_hint :: "(nat \<Rightarrow> nat \<times> nat option) \<Rightarrow> nat \<Rightarrow> nat \<times> nat option" where
  "lean_size_hint str_size_hint depth = str_size_hint depth"

definition lstr_arbitrary :: "target \<Rightarrow> ('u \<Rightarrow> 'e + byte list) \<Rightarrow> 'u \<Rightarrow> ('r st, 'e + repr) prog" where
  "lstr_arbitrary t arbitrary_str u = (case arbitrary_str u of
     Inl e \<Rightarrow> ret (Inl e)
   | Inr x \<Rightarrow> bind (lean_from t Immutable x) (\<lambda>r. ret (Inr r)))"

definition lstr_arbitrary_take_rest :: "target \<Rightarrow> ('u \<Rightarrow> 'e + byte list) \<Rightarrow> 'u \<Rightarrow> ('r st, 'e + repr) prog" where
  "lstr_arbitrary_take_rest t take_rest_str u = (case take_rest_str u of
     Inl e \<Rightarrow> ret (Inl e)
   | Inr x \<Rightarrow> bind (lean_from t Immutable x) (\<lambda>r. ret (Inr r)))"

definition lstr_size_hint :: "(nat \<Rightarrow> nat \<times> nat option) \<Rightarrow> nat \<Rightarrow> nat \<times> nat option" where
  "lstr_size_hint str_size_hint depth = str_size_hint depth"

section \<open>What the conversions mean\<close>

lemma sound_as_static_str:
  assumes "sound t (add_mset (h, r, xs) R) s"
  shows "wp (as_static_str t r) Q E P s = Q (if static_repr r then Some xs else None) s"
proof -
  obtain H where H: "heap_rep t H s" "owns t H (add_mset (h, r, xs) R)" using assms by (rule soundE)
  then have "denotes t H h r xs" by (auto intro: owns_denotes)
  then show ?thesis
  proof (cases rule: denotes_cases)
    case (static sb)
    then obtain ys where "sptr sb = StaticPtr ys" by (auto simp: static_holds_def)
    with static show ?thesis by (simp add: as_static_str_def wp_static_as_str)
  next
    case (heap hb b v)
    then obtain off where "hptr hb = HeapPtr b off" by (auto simp: buf_holds_def)
    with heap show ?thesis by (simp add: as_static_str_def)
  qed (simp add: as_static_str_def)
qed

lemma sound_into_string:
  assumes "sound t (add_mset (h, r, xs) R) s"
  shows "wp (into_string t h r) (\<lambda>ys s'. ys = xs \<and> sound t R s' \<and> mem_only s s') E P s"
proof -
  have "wp (drop_in t h r) (\<lambda>_ s'. xs = xs \<and> sound t R s' \<and> mem_only s s') E P s"
    by (rule wp_mono [OF sound_drop_in [OF assms]]) simp_all
  then show ?thesis using sound_as_str [OF assms, of h r xs] by (simp add: into_string_def)
qed

lemma sound_into_cow:
  assumes "sound t (add_mset (h, r, xs) R) s"
  shows "wp (into_cow t h r)
    (\<lambda>c s'. c = (if static_repr r then Borrowed xs else Owned xs) \<and> sound t R s' \<and> mem_only s s') E P s"
proof (cases "static_repr r")
  case True
  have "wp (drop_in t h r) (\<lambda>_ s'. sound t R s' \<and> mem_only s s') E P s"
    by (rule wp_mono [OF sound_drop_in [OF assms]]) simp_all
  with True show ?thesis by (simp add: into_cow_def sound_as_static_str [OF assms])
next
  case False
  have "wp (into_string t h r) (\<lambda>ys s'. ys = xs \<and> sound t R s' \<and> mem_only s s') E P s"
    using assms by (rule sound_into_string)
  with False show ?thesis by (simp add: into_cow_def sound_as_static_str [OF assms])
qed

text \<open>The text that a source stands for, and when its \<^verbatim>\<open>Display\<close> reports an error.\<close>

definition source_is :: "target \<Rightarrow> ('n \<Rightarrow> byte list) \<Rightarrow> owner multiset \<Rightarrow> 'n source \<Rightarrow> byte list \<Rightarrow> bool" where
  "source_is t format R v xs \<longleftrightarrow> (case v of
     OfInt ty x \<Rightarrow> in_range t ty x \<and> xs = decimal x
   | OfNonZero ty x \<Rightarrow> in_range t ty x \<and> x \<noteq> 0 \<and> xs = decimal x
   | OfFormatted n \<Rightarrow> valid_utf8 xs \<and> xs = format n
   | OfBool b \<Rightarrow> xs = (if b then [0x74, 0x72, 0x75, 0x65] else [0x66, 0x61, 0x6C, 0x73, 0x65])
   | OfChar c \<Rightarrow> scalar c \<and> xs = encode_utf8 c
   | OfString s \<Rightarrow> valid_utf8 xs \<and> xs = s
   | OfLeanString r \<Rightarrow> (Mutable, r, xs) \<in># R
   | OfLeanStr r \<Rightarrow> (Immutable, r, xs) \<in># R
   | OfDisplay args \<Rightarrow> (case literal args of
       Some s \<Rightarrow> valid_utf8 xs \<and> xs = s
     | None \<Rightarrow> fmt_valid (formatter args) \<and> xs = fmt_text (formatter args)))"

definition source_end :: "'n source \<Rightarrow> bool option" where
  "source_end v = (case v of
     OfDisplay args \<Rightarrow> (case literal args of Some s \<Rightarrow> Some True | None \<Rightarrow> fmt_end (formatter args))
   | _ \<Rightarrow> Some True)"

text \<open>The outcome of a conversion: a value with that text, an allocation error after a refusal, or
  the error of the formatter. A panic is the overflow of a reference count, a literal that is too
  long, or a panic of the formatter itself: one it makes in any case, or one it makes because a write
  failed. The conversion never panics because memory is refused.\<close>

definition sourced ::
  "target \<Rightarrow> owner multiset \<Rightarrow> header \<Rightarrow> 'n source \<Rightarrow> byte list \<Rightarrow> (reserve_error \<Rightarrow> 'e) \<Rightarrow> (fmt_error \<Rightarrow> 'e) \<Rightarrow>
    'r st \<Rightarrow> 'e + repr \<Rightarrow> 'r st \<Rightarrow> bool"
where
  "sourced t R h v xs from_reserve from_fmt s res s' \<longleftrightarrow> mem_only s s' \<and> (case res of
     Inr r \<Rightarrow> source_end v = Some True \<and> sound t (add_mset (h, r, xs) R) s'
   | Inl e \<Rightarrow> sound t R s' \<and>
       (e = from_reserve ReserveError \<and> out_of_memory t (length xs) s s' \<or>
        e = from_fmt FmtError \<and> source_end v = Some False))"

definition source_panics :: "target \<Rightarrow> owner multiset \<Rightarrow> 'n source \<Rightarrow> byte list \<Rightarrow> 'r st \<Rightarrow> 'r st \<Rightarrow> bool" where
  "source_panics t R v xs s s' \<longleftrightarrow> sound t R s' \<and> mem_only s s' \<and> (case v of
     OfLeanString r \<Rightarrow> count_limit t R r
   | OfLeanStr r \<Rightarrow> count_limit t R r
   | OfDisplay args \<Rightarrow> (case literal args of
       Some s \<Rightarrow> Static_MAX_LENGTH t < length s
     | None \<Rightarrow> fmt_end (formatter args) = None \<or>
         panics_if_refused (formatter args) \<and> out_of_memory t (length xs) s s')
   | _ \<Rightarrow> False)"

lemma wp_reserve_into [simp]:
  "wp (reserve_into f m) Q E P s = wp m (\<lambda>x. Q (Inr x)) (Q (Inl (f ReserveError))) P s"
proof -
  have "wp (case r of Some x \<Rightarrow> ret (Inr x) | None \<Rightarrow> ret (Inl (f ReserveError))) Q E P s =
    (case r of Some x \<Rightarrow> Q (Inr x) s | None \<Rightarrow> Q (Inl (f ReserveError)) s)" for r s
    by (cases r) simp_all
  then show ?thesis by (simp add: reserve_into_def)
qed

text \<open>The writer at the end of a formatter that started with the text \<open>xs\<close>.\<close>

definition wrote ::
  "target \<Rightarrow> owner multiset \<Rightarrow> nat \<Rightarrow> byte list \<Rightarrow> bool option \<Rightarrow> 'r st \<Rightarrow> bool \<times> (reserve_error + repr) \<Rightarrow> 'r st \<Rightarrow> bool"
where
  "wrote t R n zs e s p s' \<longleftrightarrow> (case snd p of
     Inr r \<Rightarrow> e = Some (fst p) \<and> sound t (add_mset (Mutable, r, zs) R) s' \<and> mem_only s s'
   | Inl _ \<Rightarrow> gave_up t R n s s')"

definition aborted :: "target \<Rightarrow> owner multiset \<Rightarrow> nat \<Rightarrow> formatting \<Rightarrow> 'r st \<Rightarrow> 'r st \<Rightarrow> bool" where
  "aborted t R n f s s' \<longleftrightarrow> sound t R s' \<and> mem_only s s' \<and>
    (fmt_end f = None \<or> panics_if_refused f \<and> out_of_memory t n s s')"

lemma wrote_from: "wrote t R n zs e s1 p s' \<Longrightarrow> mem_only s s1 \<Longrightarrow> wrote t R n zs e s p s'"
  by (auto simp: wrote_def intro: mem_only_trans gave_up_from split: sum.splits)

lemma aborted_from: "aborted t R n (k True) s1 s' \<Longrightarrow> mem_only s s1 \<Longrightarrow> aborted t R n (Write x k) s s'"
  using mem_only_later [of s s1]
  by (auto simp: aborted_def intro: mem_only_trans out_of_memory_mono)

lemma gave_up_aborted: "gave_up t R n s s' \<Longrightarrow> refused_end (k False) = None \<Longrightarrow> aborted t R n (Write x k) s s'"
  by (simp add: gave_up_def aborted_def)

lemma run_writer_refused:
  "wp (run_writer t f (Inl e)) (\<lambda>p s'. snd p = Inl e \<and> s' = s) E (\<lambda>s'. refused_end f = None \<and> s' = s) s"
  by (induction f) (simp_all add: drop_writer_def writer_write_str_def)

lemma wp_run_writer:
  "sound t (add_mset (Mutable, r, xs) R) s \<Longrightarrow> fmt_valid f \<Longrightarrow> length xs + length (fmt_text f) \<le> n \<Longrightarrow>
    wp (run_writer t f (Inr r)) (wrote t R n (xs @ fmt_text f) (fmt_end f) s) E (aborted t R n f s) s"
proof (induction f arbitrary: r xs s)
  case (Finish ok)
  then show ?case by (simp add: wrote_def)
next
  case Abort
  have "wp (lean_drop t r) (\<lambda>_. aborted t R n Abort s) E (aborted t R n Abort s) s"
    by (rule wp_mono [OF lean.discard [OF Abort(1)]]) (simp_all add: aborted_def)
  then show ?case by (simp add: drop_writer_def)
next
  case (Write x k)
  let ?Q = "wrote t R n (xs @ x @ fmt_text (k True)) (fmt_end (k True)) s"
  let ?P = "aborted t R n (Write x k) s"
  have h: "holds t R xs (s\<lparr>self := r\<rparr>)" using Write.prems(1) by (simp add: holds_local)
  have x: "valid_utf8 x" "fmt_valid (k True)" "length xs + length x \<le> n"
    "length (xs @ x) + length (fmt_text (k True)) \<le> n" using Write.prems(2,3) by simp_all
  have "wp (push_str t x)
    (\<lambda>_ s1. wp (run_writer t (k True) (Inr (self s1))) ?Q E ?P (s1\<lparr>self := self s\<rparr>))
    (\<lambda>s1. wp (lean_drop t (self s1)) (\<lambda>_. wp (run_writer t (k False) (Inl ReserveError)) ?Q E ?P) E ?P (s1\<lparr>self := self s\<rparr>))
    (\<lambda>s1. ?P (s1\<lparr>self := self s\<rparr>)) (s\<lparr>self := r\<rparr>)"
  proof (rule wp_mono [OF push_str_stuck [OF h x(1,3), where P = "\<lambda>_. False"]])
    fix u s1 assume s1: "holds t R (xs @ x) s1 \<and> later (s\<lparr>self := r\<rparr>) s1"
    then have snd: "sound t (add_mset (Mutable, self s1, xs @ x) R) (s1\<lparr>self := self s\<rparr>)"
      and mem: "mem_only s (s1\<lparr>self := self s\<rparr>)" by (simp_all add: holds_def later_mem_only)
    show "wp (run_writer t (k True) (Inr (self s1))) ?Q E ?P (s1\<lparr>self := self s\<rparr>)"
      by (rule wp_mono [OF Write.IH [OF rangeI snd x(2,4)]])
        (auto intro: wrote_from [OF _ mem] aborted_from [OF _ mem])
  next
    fix s1 assume s1: "stuck t R n (s\<lparr>self := r\<rparr>) s1"
    show "wp (lean_drop t (self s1)) (\<lambda>_. wp (run_writer t (k False) (Inl ReserveError)) ?Q E ?P) E ?P (s1\<lparr>self := self s\<rparr>)"
      unfolding lean_drop_def
    proof (rule wp_mono [OF stuck_drop_local [OF s1]])
      fix u s2 assume s2: "gave_up t R n s s2"
      show "wp (run_writer t (k False) (Inl ReserveError)) ?Q E ?P s2"
        by (rule wp_mono [OF run_writer_refused]) (use s2 in \<open>auto simp: wrote_def intro: gave_up_aborted\<close>)
    qed
  qed simp
  then show ?case
    by (simp add: writer_write_str_def wp_with_local try_push_str_def case_prod_beta)
qed

lemma sound_reserve_into:
  assumes "wp m (\<lambda>r s'. sound t (add_mset (h, r, xs) R) s' \<and> mem_only s s') (gave_up t R (length xs) s) P s"
    and "source_end v = Some True"
  shows "wp (reserve_into f m) (sourced t R h v xs f g s) E P s"
  unfolding wp_reserve_into
  by (rule wp_mono [OF assms(1)]) (simp_all add: sourced_def assms(2) gave_up_def)

lemma sound_from_str_into:
  assumes "sound t R s" "valid_utf8 xs" "source_end v = Some True"
  shows "wp (reserve_into f (from_str t h xs)) (sourced t R h v xs f g s) E P s"
  by (rule sound_reserve_into [OF _ assms(3)], rule wp_mono [OF sound_from_str [OF assms(1,2)]])
    (auto intro: gave_upI)

lemma sound_num_into:
  assumes "sound t R s" "in_range t ty x" "source_end v = Some True"
  shows "wp (reserve_into f (num_into_repr t wasm h ty x)) (sourced t R h v (decimal x) f g s) E P s"
  by (rule sound_reserve_into [OF _ assms(3)], rule wp_mono [OF sound_num_into_repr [OF assms(1,2)]])
    (auto intro: gave_upI)

lemma sound_from_bool:
  assumes "sound t R s" "source_is t format R (OfBool b) xs"
  shows "wp (from_bool t b) (\<lambda>r. sourced t R h (OfBool b) xs f g s (Inr r)) E P s"
proof -
  have "valid_utf8 xs" using assms(2) by (intro valid_utf8_ascii) (auto simp: source_is_def)
  moreover have "length xs \<le> MAX_INLINE_SIZE t" using assms(2)
    by (cases "pointer_width t") (auto simp: source_is_def MAX_INLINE_SIZE_cases)
  ultimately have "sound t (add_mset (h, repr_of_inline t (inline_bytes t xs), xs) R) s"
    using assms(1) by (intro sound_add_inline inline_holds_inline_bytes)
  with assms(2) show ?thesis by (simp add: wp_from_bool source_is_def sourced_def source_end_def)
qed

lemma sound_from_char:
  assumes "sound t R s" "scalar c"
  shows "wp (from_char t c) (\<lambda>r. sourced t R h (OfChar c) (encode_utf8 c) f g s (Inr r)) E P s"
proof -
  have "sound t (add_mset (h, repr_of_inline t (inline_bytes t (encode_utf8 c)), encode_utf8 c) R) s"
    using assms by (intro sound_add_inline inline_holds_inline_bytes) (simp_all add: len_utf8_inline)
  with assms(2) show ?thesis by (simp add: from_char_eq sourced_def source_end_def)
qed

lemma sound_try_from_fmt:
  fixes format :: "'n \<Rightarrow> byte list"
  assumes snd: "sound t R s" and v: "source_is t format R (OfDisplay args :: 'n source) xs"
  shows "wp (try_from_fmt t f g args) (sourced t R Mutable (OfDisplay args :: 'n source) xs f g s) E
    (source_panics t R (OfDisplay args :: 'n source) xs s) s"
proof (cases "literal args")
  case (Some ys)
  with v have ys: "valid_utf8 ys" "xs = ys" by (auto simp: source_is_def)
  have "wp (lean_from_static_str t ys) (\<lambda>r. sourced t R Mutable (OfDisplay args :: 'n source) xs f g s (Inr r)) E
    (source_panics t R (OfDisplay args :: 'n source) xs s) s"
    unfolding lean_from_static_str_def wp_bind wp_attempt
    by (rule wp_mono [OF sound_from_static_str [OF snd ys(1), where h = Mutable]])
      (use Some snd ys(2) in \<open>simp_all add: sourced_def source_end_def source_panics_def\<close>)
  with Some show ?thesis by (simp add: try_from_fmt_def)
next
  case None
  let ?f = "formatter args" and ?new = "repr_of_inline t (inline_bytes t [])"
  let ?Q = "sourced t R Mutable (OfDisplay args :: 'n source) xs f g s" and ?P = "source_panics t R (OfDisplay args :: 'n source) xs s"
  let ?k = "\<lambda>p. case snd p of
      Inr string \<Rightarrow> if fst p then ret (Inr string) else bind (lean_drop t string) (\<lambda>_. ret (Inl (g FmtError)))
    | Inl error \<Rightarrow> ret (Inl (f error))"
  from None v have fv: "fmt_valid ?f" "xs = fmt_text ?f" by (simp_all add: source_is_def)
  have new: "sound t (add_mset (Mutable, ?new, []) R) s" using snd by (rule sound_repr_new)
  have "wp (run_writer t ?f (Inr ?new)) (\<lambda>p. wp (?k p) ?Q E ?P) E ?P s"
  proof (rule wp_mono [OF wp_run_writer [OF new fv(1)]])
    fix p s1 assume p: "wrote t R (length xs) ([] @ fmt_text ?f) (fmt_end ?f) s p s1"
    show "wp (?k p) ?Q E ?P s1"
    proof (cases "snd p")
      case (Inl e)
      with p show ?thesis by (cases e) (simp add: wrote_def sourced_def gave_up_def)
    next
      case (Inr r)
      with p have r: "fmt_end ?f = Some (fst p)" "sound t (add_mset (Mutable, r, xs) R) s1" "mem_only s s1"
        by (simp_all add: wrote_def fv(2))
      have "wp (lean_drop t r) (\<lambda>_. ?Q (Inl (g FmtError))) E ?P s1" if "\<not> fst p"
        by (rule wp_mono [OF lean.discard [OF r(2)]])
          (use r that None in \<open>auto simp: sourced_def source_end_def intro: mem_only_trans\<close>)
      then show ?thesis
        using Inr r None by (cases "fst p") (simp_all, simp add: sourced_def source_end_def)
    qed
  qed (use None fv(2) in \<open>auto simp: aborted_def source_panics_def\<close>)
  with None show ?thesis by (simp add: try_from_fmt_def lean_new_def repr_new_eq case_prod_beta)
qed

lemma sound_try_to_lean_string:
  assumes snd: "sound t R s" and v: "source_is t format R v xs"
  shows "wp (try_to_lean_string t wasm format v) (sourced t R Mutable v xs StringReserve StringFmt s) E
    (source_panics t R v xs s) s"
proof (cases v)
  case (OfLeanString r)
  with v have r: "(Mutable, r, xs) \<in># R" by (simp add: source_is_def)
  have "wp (lean_clone t r) (\<lambda>r. sourced t R Mutable v xs StringReserve StringFmt s (Inr r)) E (source_panics t R v xs s) s"
    by (rule wp_mono [OF lean.clone [OF snd r]])
      (use OfLeanString snd in \<open>auto simp: sourced_def source_end_def source_panics_def\<close>)
  with OfLeanString show ?thesis by (simp add: try_to_lean_string_def)
next
  case (OfLeanStr r)
  with v have r: "(Immutable, r, xs) \<in># R" by (simp add: source_is_def)
  have "wp (lstr_clone t r) (\<lambda>r. wp (reserve_into StringReserve (try_into_lean_string t r))
      (sourced t R Mutable v xs StringReserve StringFmt s) E (source_panics t R v xs s)) E (source_panics t R v xs s) s"
  proof (rule wp_mono [OF lstr.clone [OF snd r]])
    fix r' s1 assume s1: "r' = r \<and> sound t (add_mset (Immutable, r, xs) R) s1 \<and> mem_only s s1 \<and> calls s1 = calls s"
    have "wp (try_into_lean_string t r) (\<lambda>r' s'. sound t (add_mset (Mutable, r', xs) R) s' \<and> mem_only s s')
      (gave_up t R (length xs) s) (source_panics t R v xs s) s1"
      by (rule wp_mono [OF to_lean.try_into [where P = "\<lambda>_. False"]])
        (use s1 in \<open>auto intro: mem_only_trans gave_up_from\<close>)
    then show "wp (reserve_into StringReserve (try_into_lean_string t r'))
      (sourced t R Mutable v xs StringReserve StringFmt s) E (source_panics t R v xs s) s1"
      unfolding wp_reserve_into using s1
      by (auto elim!: wp_mono simp: sourced_def OfLeanStr source_end_def gave_up_def)
  qed (use OfLeanStr snd in \<open>auto simp: source_panics_def\<close>)
  with OfLeanStr show ?thesis by (simp add: try_to_lean_string_def del: wp_reserve_into)
next
  case (OfDisplay args)
  with sound_try_from_fmt [OF snd v [unfolded OfDisplay]] show ?thesis by (simp add: try_to_lean_string_def)
qed (use v snd in \<open>auto simp: try_to_lean_string_def source_is_def formatted_into_repr_def nonzero_into_repr_def source_end_def
    simp del: wp_reserve_into intro: sound_num_into sound_from_str_into sound_from_char
      sound_from_bool [where format = format]\<close>)

text \<open>Into the immutable type, the text that the formatter wrote is converted as well.\<close>

lemma sound_convert_into:
  assumes "sound t (add_mset (Mutable, r, xs) R) s1" "mem_only s s1" "source_end v = Some True"
  shows "wp (reserve_into f (try_into_lean_str t r)) (sourced t R Immutable v xs f g s) E P s1"
proof -
  have "wp (try_into_lean_str t r) (\<lambda>r' s'. sound t (add_mset (Immutable, r', xs) R) s' \<and> mem_only s s')
    (gave_up t R (length xs) s) P s1"
    by (rule wp_mono [OF to_lstr.try_into [OF assms(1), where P = "\<lambda>_. False"]])
      (use assms(2) in \<open>auto intro: mem_only_trans gave_up_from\<close>)
  then show ?thesis unfolding wp_reserve_into
    by (rule wp_mono) (simp_all add: sourced_def assms(3) gave_up_def)
qed

lemma sound_try_to_lean_str:
  assumes snd: "sound t R s" and v: "source_is t format R v xs"
  shows "wp (try_to_lean_str t wasm format v) (sourced t R Immutable v xs StrReserve StrFmt s) E
    (source_panics t R v xs s) s"
proof (cases v)
  case (OfLeanStr r)
  with v have r: "(Immutable, r, xs) \<in># R" by (simp add: source_is_def)
  have "wp (lstr_clone t r) (\<lambda>r. sourced t R Immutable v xs StrReserve StrFmt s (Inr r)) E (source_panics t R v xs s) s"
    by (rule wp_mono [OF lstr.clone [OF snd r]])
      (use OfLeanStr snd in \<open>auto simp: sourced_def source_end_def source_panics_def\<close>)
  with OfLeanStr show ?thesis by (simp add: try_to_lean_str_def)
next
  case (OfLeanString r)
  with v have r: "(Mutable, r, xs) \<in># R" by (simp add: source_is_def)
  have "wp (lean_clone t r) (\<lambda>r. wp (reserve_into StrReserve (try_into_lean_str t r))
      (sourced t R Immutable v xs StrReserve StrFmt s) E (source_panics t R v xs s)) E (source_panics t R v xs s) s"
    by (rule wp_mono [OF lean.clone [OF snd r]])
      (use OfLeanString snd in \<open>auto simp: source_panics_def source_end_def simp del: wp_reserve_into
        intro: sound_convert_into\<close>)
  with OfLeanString show ?thesis by (simp add: try_to_lean_str_def del: wp_reserve_into)
next
  case (OfDisplay args)
  let ?k = "\<lambda>res. case res of Inl e \<Rightarrow> ret (Inl e) | Inr string \<Rightarrow> reserve_into StrReserve (try_into_lean_str t string)"
  have "wp (try_from_fmt t StrReserve StrFmt args)
    (\<lambda>res. wp (?k res) (sourced t R Immutable v xs StrReserve StrFmt s) E (source_panics t R v xs s)) E
    (source_panics t R v xs s) s"
  proof (rule wp_mono [OF sound_try_from_fmt [OF snd v [unfolded OfDisplay]]])
    fix res s1 assume res: "sourced t R Mutable (OfDisplay args :: 'a source) xs StrReserve StrFmt s res s1"
    show "wp (?k res) (sourced t R Immutable v xs StrReserve StrFmt s) E (source_panics t R v xs s) s1"
    proof (cases res)
      case (Inl e)
      with res show ?thesis by (simp add: sourced_def OfDisplay)
    next
      case (Inr r)
      with res show ?thesis
        by (auto simp: sourced_def OfDisplay simp del: wp_reserve_into intro: sound_convert_into)
    qed
  qed (simp_all add: OfDisplay)
  then show ?thesis by (simp add: try_to_lean_str_def OfDisplay)
qed (use v snd in \<open>auto simp: try_to_lean_str_def source_is_def formatted_into_repr_def nonzero_into_repr_def source_end_def
    simp del: wp_reserve_into intro: sound_num_into sound_from_str_into sound_from_char
      sound_from_bool [where format = format]\<close>)

text \<open>The panicking methods panic on every error.\<close>

lemma wp_unwrap_result [simp]:
  "wp (unwrap_result m) Q E P s = wp m (\<lambda>res s'. case res of Inr x \<Rightarrow> Q x s' | Inl _ \<Rightarrow> P s') E P s"
proof -
  have "wp (case res of Inr x \<Rightarrow> ret x | Inl _ \<Rightarrow> panic) Q E P s' = (case res of Inr x \<Rightarrow> Q x s' | Inl _ \<Rightarrow> P s')"
    for res :: "'c + 'b" and s' by (cases res) simp_all
  then show ?thesis by (simp add: unwrap_result_def)
qed

text \<open>A format that hands back the string it was given, as text or as bytes, gives back the value.\<close>

definition hands_back :: "'e visit \<Rightarrow> byte list \<Rightarrow> bool" where
  "hands_back v xs \<longleftrightarrow> v \<in> {VisitStr xs, VisitBorrowedStr xs, VisitBytes xs, VisitBorrowedBytes xs}"

text \<open>An arbitrary value has the text that was generated; a panic means that memory ran out.\<close>

lemma sound_generated:
  assumes "sound t R s" "\<forall>x. gen u = Inr x \<longrightarrow> valid_utf8 x"
  shows "wp (case gen u of Inl e \<Rightarrow> ret (Inl e) | Inr x \<Rightarrow> bind (lean_from t h x) (\<lambda>r. ret (Inr r)))
    (\<lambda>res s'. case res of Inl e \<Rightarrow> gen u = Inl e \<and> s' = s
      | Inr r \<Rightarrow> \<exists>x. gen u = Inr x \<and> sound t (add_mset (h, r, x) R) s') E
    (\<lambda>s'. \<exists>x. gen u = Inr x \<and> gave_up t R (length x) s s') s"
  by (cases "gen u") (use assms(2) in \<open>auto intro!: wp_mono [OF sound_create [OF assms(1)]]\<close>)

lemmas sound_arbitrary =
  sound_generated [where h = Mutable, folded lean_arbitrary_def]
  sound_generated [where h = Mutable, folded lean_arbitrary_take_rest_def]
  sound_generated [where h = Immutable, folded lstr_arbitrary_def]
  sound_generated [where h = Immutable, folded lstr_arbitrary_take_rest_def]

lemma sound_lean_deserialize:
  assumes snd: "sound t R s" and v: "hands_back visitor xs" "valid_utf8 xs"
  shows "wp (lean_deserialize t invalid_value visitor)
    (\<lambda>res s'. \<exists>r. res = Inr r \<and> sound t (add_mset (Mutable, r, xs) R) s' \<and> mem_only s s') E
    (gave_up t R (length xs) s) s"
  using v
  by (auto simp: hands_back_def lean_deserialize_def map_err_def split: sum.splits
      intro!: wp_mono [OF sound_create [OF snd v(2)]] wp_mono [OF sound_from_utf8 [OF snd]])

lemma lean_deserialize_invalid:
  assumes snd: "sound t R s" and v: "\<not> valid_utf8 xs" "visitor \<in> {VisitBytes xs, VisitBorrowedBytes xs}"
  shows "wp (lean_deserialize t invalid_value visitor) (\<lambda>res s'. res = Inl (invalid_value xs) \<and> s' = s) E P s"
  using v by (auto simp: lean_deserialize_def map_err_def lean_from_utf8_def str_from_utf8_def Let_def
      split: prod.split)

end
