(* ===== verification/Creating.thy ===== *)
theory Creating
  imports Mutations Traits
begin

text \<open>
  All the ways to make a value out of something that is none of the crate's: an \<open>origin\<close> names a
  constructor of one of the two types and its argument, \<open>run_source\<close> runs it. What it promises is told
  without memory: the text the value has, whether the input is accepted, and what may go wrong when
  memory is refused. \<open>sound_source\<close> shows the promise for every origin.
\<close>

section \<open>Constructors\<close>

text \<open>\<open>Shown\<close> is \<^verbatim>\<open>try_to_lean_string\<close> and \<^verbatim>\<open>try_to_lean_str\<close>, on everything but the values of the
  crate; a number that another crate formats is its text. \<open>Text\<close> stands for all of \<^verbatim>\<open>From<&str>\<close>,
  \<^verbatim>\<open>From<String>\<close>, \<^verbatim>\<open>From<Box<str>>\<close> and \<^verbatim>\<open>From<Cow<str>>\<close>, which are the same program.\<close>

datatype origin =
    Empty header
  | Text header "byte list"
  | Parsed header "byte list"
  | Literal header "byte list"
  | Capacity nat
  | CapacityOrPanic nat
  | Character header uchar
  | CheckedUtf8 header "byte list"
  | UncheckedUtf8 header "byte list"
  | LossyUtf8 header "byte list"
  | CheckedUtf16 header "unit16 list"
  | LossyUtf16 header "unit16 list"
  | CheckedUtf16Bytes header endian bool "byte list"
  | LossyUtf16Bytes header endian bool "byte list"
  | Pieces header "byte list list"
  | Characters header nat "uchar list"
  | Shown bool header "byte list source"
  | ShownOrPanic bool header "byte list source"
  | Deserialized header "unit visit"
  | Arbitrary header bool "unit + byte list"

definition made :: "('s, repr) prog \<Rightarrow> ('s, repr option) prog" where
  "made m = bind m (\<lambda>r. ret (Some r))"

text \<open>A constructor that checks its input, and one whose error may be an allocation error.\<close>

definition checked :: "('s, 'e + repr) prog \<Rightarrow> ('s, repr option) prog" where
  "checked m = bind m (\<lambda>res. case res of Inl _ \<Rightarrow> ret None | Inr r \<Rightarrow> ret (Some r))"

definition shown_string :: "('s, to_lean_string_error + repr) prog \<Rightarrow> ('s, repr option) prog" where
  "shown_string m = bind m (\<lambda>res. case res of
     Inl (StringReserve _) \<Rightarrow> fail
   | Inl (StringFmt _) \<Rightarrow> ret None
   | Inr r \<Rightarrow> ret (Some r))"

definition shown_str :: "('s, to_lean_str_error + repr) prog \<Rightarrow> ('s, repr option) prog" where
  "shown_str m = bind m (\<lambda>res. case res of
     Inl (StrReserve _) \<Rightarrow> fail
   | Inl (StrFmt _) \<Rightarrow> ret None
   | Inr r \<Rightarrow> ret (Some r))"

definition as_is :: "byte list \<Rightarrow> byte list" where
  "as_is x = x"

definition generated :: "unit + byte list \<Rightarrow> unit + byte list" where
  "generated g = g"

fun run_source :: "target \<Rightarrow> origin \<Rightarrow> (repr st, repr option) prog" where
  "run_source t (Empty Mutable) = made (lean_new t)"
| "run_source t (Empty Immutable) = made (lstr_new t)"
| "run_source t (Text h xs) = made (lean_from t h xs)"
| "run_source t (Parsed h xs) = made (value_from_str t h xs)"
| "run_source t (Literal Mutable xs) = made (lean_from_static_str t xs)"
| "run_source t (Literal Immutable xs) = made (lstr_from_static_str t xs)"
| "run_source t (Capacity n) = made (try_with_capacity t n)"
| "run_source t (CapacityOrPanic n) = made (lean_with_capacity t n)"
| "run_source t (Character h c) = made (lean_from_char t c)"
| "run_source t (CheckedUtf8 Mutable xs) = checked (lean_from_utf8 t xs)"
| "run_source t (CheckedUtf8 Immutable xs) = checked (lstr_from_utf8 t xs)"
| "run_source t (UncheckedUtf8 Mutable xs) = made (lean_from_utf8_unchecked t xs)"
| "run_source t (UncheckedUtf8 Immutable xs) = made (lstr_from_utf8_unchecked t xs)"
| "run_source t (LossyUtf8 Mutable xs) = made (lean_from_utf8_lossy t xs)"
| "run_source t (LossyUtf8 Immutable xs) = made (lstr_from_utf8_lossy t xs)"
| "run_source t (CheckedUtf16 Mutable us) = checked (lean_from_utf16 t us)"
| "run_source t (CheckedUtf16 Immutable us) = checked (lstr_from_utf16 t us)"
| "run_source t (LossyUtf16 Mutable us) = made (lean_from_utf16_lossy t us)"
| "run_source t (LossyUtf16 Immutable us) = made (lstr_from_utf16_lossy t us)"
| "run_source t (CheckedUtf16Bytes Mutable LittleEndian a xs) = checked (lean_from_utf16le t a xs)"
| "run_source t (CheckedUtf16Bytes Mutable BigEndian a xs) = checked (lean_from_utf16be t a xs)"
| "run_source t (CheckedUtf16Bytes Immutable LittleEndian a xs) = checked (lstr_from_utf16le t a xs)"
| "run_source t (CheckedUtf16Bytes Immutable BigEndian a xs) = checked (lstr_from_utf16be t a xs)"
| "run_source t (LossyUtf16Bytes Mutable LittleEndian a xs) = made (lean_from_utf16le_lossy t a xs)"
| "run_source t (LossyUtf16Bytes Mutable BigEndian a xs) = made (lean_from_utf16be_lossy t a xs)"
| "run_source t (LossyUtf16Bytes Immutable LittleEndian a xs) = made (lstr_from_utf16le_lossy t a xs)"
| "run_source t (LossyUtf16Bytes Immutable BigEndian a xs) = made (lstr_from_utf16be_lossy t a xs)"
| "run_source t (Pieces Mutable yss) = made (from_iter_strs t yss)"
| "run_source t (Pieces Immutable yss) = made (lstr_from_iter_strs t yss)"
| "run_source t (Characters Mutable lower cs) = made (from_iter_chars t lower cs)"
| "run_source t (Characters Immutable lower cs) = made (lstr_from_iter_chars t lower cs)"
| "run_source t (Shown wasm Mutable v) = shown_string (try_to_lean_string t wasm as_is v)"
| "run_source t (Shown wasm Immutable v) = shown_str (try_to_lean_str t wasm as_is v)"
| "run_source t (ShownOrPanic wasm Mutable v) = made (to_lean_string t wasm as_is v)"
| "run_source t (ShownOrPanic wasm Immutable v) = made (to_lean_str t wasm as_is v)"
| "run_source t (Deserialized Mutable v) = checked (lean_deserialize t (\<lambda>_. ()) v)"
| "run_source t (Deserialized Immutable v) = checked (lstr_deserialize t (\<lambda>_. ()) v)"
| "run_source t (Arbitrary Mutable rest g) =
    checked (if rest then lean_arbitrary_take_rest t generated g else lean_arbitrary t generated g)"
| "run_source t (Arbitrary Immutable rest g) =
    checked (if rest then lstr_arbitrary_take_rest t generated g else lstr_arbitrary t generated g)"

fun source_header :: "origin \<Rightarrow> header" where
  "source_header (Empty h) = h"
| "source_header (Text h xs) = h"
| "source_header (Parsed h xs) = h"
| "source_header (Literal h xs) = h"
| "source_header (Capacity n) = Mutable"
| "source_header (CapacityOrPanic n) = Mutable"
| "source_header (Character h c) = h"
| "source_header (CheckedUtf8 h xs) = h"
| "source_header (UncheckedUtf8 h xs) = h"
| "source_header (LossyUtf8 h xs) = h"
| "source_header (CheckedUtf16 h us) = h"
| "source_header (LossyUtf16 h us) = h"
| "source_header (CheckedUtf16Bytes h e a xs) = h"
| "source_header (LossyUtf16Bytes h e a xs) = h"
| "source_header (Pieces h yss) = h"
| "source_header (Characters h lower cs) = h"
| "source_header (Shown wasm h v) = h"
| "source_header (ShownOrPanic wasm h v) = h"
| "source_header (Deserialized h v) = h"
| "source_header (Arbitrary h rest g) = h"

section \<open>What a constructor promises\<close>

definition units_in :: "endian \<Rightarrow> byte list \<Rightarrow> unit16 list" where
  "units_in e xs = units_of (case e of LittleEndian \<Rightarrow> unit_from_le_bytes | BigEndian \<Rightarrow> unit_from_be_bytes) xs"

definition lossy_units_text :: "endian \<Rightarrow> byte list \<Rightarrow> byte list" where
  "lossy_units_text e xs =
    utf16_text (units_in e xs) @ (if even (length xs) then [] else encode_utf8 REPLACEMENT_CHARACTER)"

text \<open>The text a \<^verbatim>\<open>Display\<close> implementation writes, and what a deserializer hands over.\<close>

definition shown_text :: "byte list source \<Rightarrow> byte list" where
  "shown_text v = (case v of
     OfInt ty x \<Rightarrow> decimal x
   | OfNonZero ty x \<Rightarrow> decimal x
   | OfFormatted x \<Rightarrow> x
   | OfBool b \<Rightarrow> (if b then [0x74, 0x72, 0x75, 0x65] else [0x66, 0x61, 0x6C, 0x73, 0x65])
   | OfChar c \<Rightarrow> encode_utf8 c
   | OfString s \<Rightarrow> s
   | OfLeanString r \<Rightarrow> []
   | OfLeanStr r \<Rightarrow> []
   | OfDisplay args \<Rightarrow> (case literal args of Some s \<Rightarrow> s | None \<Rightarrow> fmt_text (formatter args)))"

fun visited :: "'e visit \<Rightarrow> byte list option" where
  "visited (VisitStr v) = Some v"
| "visited (VisitBorrowedStr v) = Some v"
| "visited (VisitBytes v) = (if valid_utf8 v then Some v else None)"
| "visited (VisitBorrowedBytes v) = (if valid_utf8 v then Some v else None)"
| "visited (VisitFailed e) = None"

fun source_text :: "origin \<Rightarrow> byte list" where
  "source_text (Empty h) = []"
| "source_text (Text h xs) = xs"
| "source_text (Parsed h xs) = xs"
| "source_text (Literal h xs) = xs"
| "source_text (Capacity n) = []"
| "source_text (CapacityOrPanic n) = []"
| "source_text (Character h c) = encode_utf8 c"
| "source_text (CheckedUtf8 h xs) = xs"
| "source_text (UncheckedUtf8 h xs) = xs"
| "source_text (LossyUtf8 h xs) = lossy_text xs"
| "source_text (CheckedUtf16 h us) = utf16_text us"
| "source_text (LossyUtf16 h us) = utf16_text us"
| "source_text (CheckedUtf16Bytes h e a xs) = utf16_text (units_in e xs)"
| "source_text (LossyUtf16Bytes h e a xs) = lossy_units_text e xs"
| "source_text (Pieces h yss) = concat yss"
| "source_text (Characters h lower cs) = str_of cs"
| "source_text (Shown wasm h v) = shown_text v"
| "source_text (ShownOrPanic wasm h v) = shown_text v"
| "source_text (Deserialized h v) = (case visited v of Some xs \<Rightarrow> xs | None \<Rightarrow> [])"
| "source_text (Arbitrary h rest g) = (case g of Inr xs \<Rightarrow> xs | Inl _ \<Rightarrow> [])"

text \<open>What the types guarantee of the argument, or, for the \<^verbatim>\<open>unsafe\<close> constructor, its contract.\<close>

fun source_ok :: "target \<Rightarrow> origin \<Rightarrow> bool" where
  "source_ok t (Text h xs) \<longleftrightarrow> valid_utf8 xs"
| "source_ok t (Parsed h xs) \<longleftrightarrow> valid_utf8 xs"
| "source_ok t (Literal h xs) \<longleftrightarrow> valid_utf8 xs"
| "source_ok t (Character h c) \<longleftrightarrow> scalar c"
| "source_ok t (UncheckedUtf8 h xs) \<longleftrightarrow> valid_utf8 xs"
| "source_ok t (Pieces h yss) \<longleftrightarrow> list_all valid_utf8 yss"
| "source_ok t (Characters h lower cs) \<longleftrightarrow> list_all scalar cs"
| "source_ok t (Shown wasm h v) \<longleftrightarrow> source_is t as_is {#} v (shown_text v)"
| "source_ok t (ShownOrPanic wasm h v) \<longleftrightarrow> source_is t as_is {#} v (shown_text v)"
| "source_ok t (Deserialized h (VisitStr v)) \<longleftrightarrow> valid_utf8 v"
| "source_ok t (Deserialized h (VisitBorrowedStr v)) \<longleftrightarrow> valid_utf8 v"
| "source_ok t (Arbitrary h rest (Inr xs)) \<longleftrightarrow> valid_utf8 xs"
| "source_ok t src \<longleftrightarrow> True"

text \<open>Whether the input is accepted; \<open>None\<close> when the caller's own formatter panics.\<close>

fun source_fate :: "origin \<Rightarrow> bool option" where
  "source_fate (CheckedUtf8 h xs) = Some (valid_utf8 xs)"
| "source_fate (CheckedUtf16 h us) = Some (well_formed_utf16 us)"
| "source_fate (CheckedUtf16Bytes h e a xs) = Some (even (length xs) \<and> well_formed_utf16 (units_in e xs))"
| "source_fate (Shown wasm h v) = source_end v"
| "source_fate (ShownOrPanic wasm h v) = (if source_end v = Some True then Some True else None)"
| "source_fate (Deserialized h v) = Some (visited v \<noteq> None)"
| "source_fate (Arbitrary h rest g) = Some (\<not> isl g)"
| "source_fate src = Some True"

text \<open>A \<^verbatim>\<open>'static\<close> text has a largest length.\<close>

definition display_too_long :: "target \<Rightarrow> byte list source \<Rightarrow> bool" where
  "display_too_long t v \<longleftrightarrow> (case v of
     OfDisplay args \<Rightarrow> (case literal args of Some s \<Rightarrow> Static_MAX_LENGTH t < length s | None \<Rightarrow> False)
   | _ \<Rightarrow> False)"

fun source_too_long :: "target \<Rightarrow> origin \<Rightarrow> bool" where
  "source_too_long t (Literal h xs) \<longleftrightarrow> Static_MAX_LENGTH t < length xs"
| "source_too_long t (Shown wasm h v) \<longleftrightarrow> display_too_long t v"
| "source_too_long t (ShownOrPanic wasm h v) \<longleftrightarrow> display_too_long t v"
| "source_too_long t src \<longleftrightarrow> False"

text \<open>How many bytes a constructor needs at most, and what it does when they are refused: it reports
  the error, or panics. A formatter may panic of itself when a write failed.\<close>

fun source_demand :: "origin \<Rightarrow> nat" where
  "source_demand (Capacity n) = n"
| "source_demand (CapacityOrPanic n) = n"
| "source_demand (LossyUtf8 h xs) = max (length xs) (length (lossy_text xs))"
| "source_demand (CheckedUtf16 h us) = utf16_size us"
| "source_demand (LossyUtf16 h us) = utf16_size us"
| "source_demand (CheckedUtf16Bytes h e a xs) = utf16_size (units_in e xs)"
| "source_demand (LossyUtf16Bytes h e a xs) = max (length xs) (length (lossy_units_text e xs))"
| "source_demand (Deserialized h v) = (case v of
     VisitStr x \<Rightarrow> length x
   | VisitBorrowedStr x \<Rightarrow> length x
   | VisitBytes x \<Rightarrow> length x
   | VisitBorrowedBytes x \<Rightarrow> length x
   | VisitFailed e \<Rightarrow> 0)"
| "source_demand src = length (source_text src)"

fun source_reports :: "origin \<Rightarrow> bool" where
  "source_reports (Parsed h xs) \<longleftrightarrow> True"
| "source_reports (Capacity n) \<longleftrightarrow> True"
| "source_reports (Shown wasm h v) \<longleftrightarrow> True"
| "source_reports src \<longleftrightarrow> False"

definition display_panics_if_refused :: "byte list source \<Rightarrow> bool" where
  "display_panics_if_refused v \<longleftrightarrow> (case v of
     OfDisplay args \<Rightarrow> literal args = None \<and> panics_if_refused (formatter args)
   | _ \<Rightarrow> False)"

fun source_unwinds :: "origin \<Rightarrow> bool" where
  "source_unwinds (Empty h) \<longleftrightarrow> False"
| "source_unwinds (Parsed h xs) \<longleftrightarrow> False"
| "source_unwinds (Literal h xs) \<longleftrightarrow> False"
| "source_unwinds (Capacity n) \<longleftrightarrow> False"
| "source_unwinds (Character h c) \<longleftrightarrow> False"
| "source_unwinds (Shown wasm h v) \<longleftrightarrow> display_panics_if_refused v"
| "source_unwinds src \<longleftrightarrow> True"

datatype ending = Completed reply | Rejected | OutOfMemory | Unwound

definition source_promises :: "target \<Rightarrow> (nat \<Rightarrow> bool) \<Rightarrow> origin \<Rightarrow> ending \<Rightarrow> bool" where
  "source_promises t starved src e \<longleftrightarrow> (case e of
     Completed a \<Rightarrow> a = Done \<and> source_fate src = Some True
   | Rejected \<Rightarrow> source_fate src = Some False
   | OutOfMemory \<Rightarrow> source_reports src \<and> starved (source_demand src)
   | Unwound \<Rightarrow> source_fate src = None \<or> source_too_long t src \<or> source_unwinds src \<and> starved (source_demand src))"

lemma source_promises_simps [simp]:
  "source_promises t starved src (Completed a) \<longleftrightarrow> a = Done \<and> source_fate src = Some True"
  "source_promises t starved src Rejected \<longleftrightarrow> source_fate src = Some False"
  "source_promises t starved src OutOfMemory \<longleftrightarrow> source_reports src \<and> starved (source_demand src)"
  "source_promises t starved src Unwound \<longleftrightarrow>
    source_fate src = None \<or> source_too_long t src \<or> source_unwinds src \<and> starved (source_demand src)"
  by (simp_all add: source_promises_def)


section \<open>The promises are kept\<close>

lemma wp_made [simp]: "wp (made m) Q E P s = wp m (\<lambda>r. Q (Some r)) E P s"
  by (simp add: made_def)

lemma wp_checked [simp]:
  "wp (checked m) Q E P s = wp m (\<lambda>res. Q (case res of Inl _ \<Rightarrow> None | Inr r \<Rightarrow> Some r)) E P s"
proof -
  have "wp (case res of Inl _ \<Rightarrow> ret None | Inr r \<Rightarrow> ret (Some r)) Q E P s' =
    Q (case res of Inl _ \<Rightarrow> None | Inr r \<Rightarrow> Some r) s'" for res :: "'b + repr" and s' by (cases res) simp_all
  then show ?thesis by (simp add: checked_def)
qed

lemma wp_shown_string [simp]:
  "wp (shown_string m) Q E P s = wp m (\<lambda>res s'. case res of
     Inl (StringReserve _) \<Rightarrow> E s' | Inl (StringFmt _) \<Rightarrow> Q None s' | Inr r \<Rightarrow> Q (Some r) s') E P s"
  unfolding shown_string_def wp_bind
  by (rule arg_cong [where f = "\<lambda>F. wp m F E P s"]) (auto simp: fun_eq_iff split: sum.split to_lean_string_error.split)

lemma wp_shown_str [simp]:
  "wp (shown_str m) Q E P s = wp m (\<lambda>res s'. case res of
     Inl (StrReserve _) \<Rightarrow> E s' | Inl (StrFmt _) \<Rightarrow> Q None s' | Inr r \<Rightarrow> Q (Some r) s') E P s"
  unfolding shown_str_def wp_bind
  by (rule arg_cong [where f = "\<lambda>F. wp m F E P s"]) (auto simp: fun_eq_iff split: sum.split to_lean_str_error.split)

definition begun :: "target \<Rightarrow> owner multiset \<Rightarrow> origin \<Rightarrow> repr option \<Rightarrow> repr st \<Rightarrow> bool" where
  "begun t R src res s' \<longleftrightarrow> (case res of
     Some r \<Rightarrow> source_fate src = Some True \<and> sound t (add_mset (source_header src, r, source_text src) R) s'
   | None \<Rightarrow> source_fate src = Some False \<and> sound t R s')"

definition broken_off :: "target \<Rightarrow> owner multiset \<Rightarrow> origin \<Rightarrow> ending \<Rightarrow> repr st \<Rightarrow> repr st \<Rightarrow> bool" where
  "broken_off t R src e s s' \<longleftrightarrow> sound t R s' \<and> source_promises t (\<lambda>n. out_of_memory t n s s') src e"

lemma begun_simps [simp]:
  "begun t R src (Some r) s' \<longleftrightarrow>
    source_fate src = Some True \<and> sound t (add_mset (source_header src, r, source_text src) R) s'"
  "begun t R src None s' \<longleftrightarrow> source_fate src = Some False \<and> sound t R s'"
  by (simp_all add: begun_def)

lemma broken_off_panic:
  "gave_up t R n s s' \<Longrightarrow> source_unwinds src \<Longrightarrow> n = source_demand src \<Longrightarrow> broken_off t R src Unwound s s'"
  by (simp add: broken_off_def gave_up_def)

lemma broken_off_error:
  "sound t R s' \<Longrightarrow> refused t h m s s' \<Longrightarrow> m \<le> source_demand src \<Longrightarrow> source_reports src \<Longrightarrow>
    broken_off t R src OutOfMemory s s'"
  by (auto simp: broken_off_def intro: out_of_memoryI)

lemma units_in_simps:
  "units_in LittleEndian = units_of unit_from_le_bytes" "units_in BigEndian = units_of unit_from_be_bytes"
  "lossy_units_text LittleEndian = lossy_bytes_text unit_from_le_bytes"
  "lossy_units_text BigEndian = lossy_bytes_text unit_from_be_bytes"
  by (auto simp: units_in_def lossy_units_text_def lossy_bytes_text_def fun_eq_iff)

text \<open>The immutable type decodes UTF-8 directly and UTF-16 through the mutable one.\<close>

lemma sound_lstr_from_utf8:
  assumes "sound t R s"
  shows "wp (lstr_from_utf8 t buf)
    (\<lambda>res s'. mem_only s s' \<and> (case res of
        Inr r \<Rightarrow> valid_utf8 buf \<and> sound t (add_mset (Immutable, r, buf) R) s'
      | Inl e \<Rightarrow> \<not> valid_utf8 buf \<and> s' = s))
    E (gave_up t R (length buf) s) s"
proof (cases "valid_utf8 buf")
  case True
  from sound_create [OF assms True, of Immutable] show ?thesis
    by (auto simp: lstr_from_utf8_def str_from_utf8_def Let_def True elim!: wp_mono split: prod.split)
next
  case False
  then show ?thesis by (auto simp: lstr_from_utf8_def str_from_utf8_def Let_def split: prod.split)
qed

lemma sound_map_into_bytes:
  assumes m: "wp m (bytes16_result t R Mutable f buf s) E (gave_up t R (utf16_size (units_of f buf)) s) s"
  shows "wp (bind m (map_into_lean_str t)) (bytes16_result t R Immutable f buf s) E
    (gave_up t R (utf16_size (units_of f buf)) s) s"
proof -
  let ?P = "gave_up t R (utf16_size (units_of f buf)) s"
  have "wp m (\<lambda>res. wp (map_into_lean_str t res) (bytes16_result t R Immutable f buf s) E ?P) E ?P s"
  proof (rule wp_mono [OF m])
    fix res s1 assume "bytes16_result t R Mutable f buf s res s1"
    then show "wp (map_into_lean_str t res) (bytes16_result t R Immutable f buf s) E ?P s1"
      by (cases "even (length buf)")
        (auto simp: bytes16_result_def [abs_def] map_into_lean_str_def [of _ "Inl _"] intro: sound_map_into [OF _ order_refl])
  qed
  then show ?thesis by (simp only: wp_bind)
qed

lemmas sound_lstr_from_utf16_bytes =
  sound_map_into_bytes [OF sound_from_utf16_bytes(1), folded lstr_from_utf16le_def]
  sound_map_into_bytes [OF sound_from_utf16_bytes(2), folded lstr_from_utf16be_def]

text \<open>A conversion by \<^verbatim>\<open>Display\<close>, which may report either error.\<close>

lemma source_is_mono: "source_is t format {#} v xs \<Longrightarrow> source_is t format R v xs"
  by (cases v) (auto simp: source_is_def)

lemma source_panics_shown:
  assumes "source_is t as_is {#} v (shown_text v)" "source_panics t R v (shown_text v) s s'"
  shows "sound t R s' \<and> (source_end v = None \<or> display_too_long t v \<or>
    display_panics_if_refused v \<and> out_of_memory t (length (shown_text v)) s s')"
  using assms
  by (cases v) (auto simp: source_is_def source_panics_def display_too_long_def display_panics_if_refused_def source_end_def
      split: option.splits)

lemma sound_shown:
  assumes snd: "sound t R s" and ok: "source_is t as_is {#} v (shown_text v)"
  shows "wp (run_source t (Shown wasm h v)) (begun t R (Shown wasm h v))
    (broken_off t R (Shown wasm h v) OutOfMemory s) (broken_off t R (Shown wasm h v) Unwound s) s"
proof -
  have P: "broken_off t R (Shown wasm h v) Unwound s s'" if "source_panics t R v (shown_text v) s s'" for s'
    using source_panics_shown [OF ok that] by (simp add: broken_off_def)
  note ok' = source_is_mono [OF ok, of R]
  show ?thesis
  proof (cases h)
    case GrowableHeader
    from wp_mono [OF sound_try_to_lean_string [OF snd ok', of wasm] _ _ P] show ?thesis
      unfolding GrowableHeader run_source.simps wp_shown_string
      by (rule wp_mono) (auto simp: sourced_def broken_off_def split: sum.splits to_lean_string_error.splits)
  next
    case ExactHeader
    from wp_mono [OF sound_try_to_lean_str [OF snd ok', of wasm] _ _ P] show ?thesis
      unfolding ExactHeader run_source.simps wp_shown_str
      by (rule wp_mono) (auto simp: sourced_def broken_off_def split: sum.splits to_lean_str_error.splits)
  qed
qed

lemma sound_shown_or_panic:
  assumes snd: "sound t R s" and ok: "source_is t as_is {#} v (shown_text v)"
  shows "wp (run_source t (ShownOrPanic wasm h v)) (begun t R (ShownOrPanic wasm h v))
    (broken_off t R (ShownOrPanic wasm h v) OutOfMemory s) (broken_off t R (ShownOrPanic wasm h v) Unwound s) s"
proof -
  have P: "broken_off t R (ShownOrPanic wasm h v) Unwound s s'" if "source_panics t R v (shown_text v) s s'" for s'
    using source_panics_shown [OF ok that] by (auto simp: broken_off_def)
  note ok' = source_is_mono [OF ok, of R]
  show ?thesis
  proof (cases h)
    case GrowableHeader
    from wp_mono [OF sound_try_to_lean_string [OF snd ok', of wasm] _ _ P] show ?thesis
      unfolding GrowableHeader run_source.simps wp_made to_lean_string_def wp_unwrap_result
      by (rule wp_mono) (auto simp: sourced_def broken_off_def split: sum.splits)
  next
    case ExactHeader
    from wp_mono [OF sound_try_to_lean_str [OF snd ok', of wasm] _ _ P] show ?thesis
      unfolding ExactHeader run_source.simps wp_made to_lean_str_def wp_unwrap_result
      by (rule wp_mono) (auto simp: sourced_def broken_off_def split: sum.splits)
  qed
qed

lemma sound_generated_value:
  assumes snd: "sound t R s" and ok: "source_ok t (Arbitrary h rest g)"
  shows "wp (run_source t (Arbitrary h rest g)) (begun t R (Arbitrary h rest g)) E
    (broken_off t R (Arbitrary h rest g) Unwound s) s"
proof (cases g)
  case (Inl e)
  with snd show ?thesis
    by (cases h) (simp_all add: lean_arbitrary_def lean_arbitrary_take_rest_def lstr_arbitrary_def
        lstr_arbitrary_take_rest_def generated_def)
next
  case (Inr xs)
  with ok have "valid_utf8 xs" by simp
  from wp_mono [OF sound_create [OF snd this], of h] Inr show ?thesis
    by (cases h) (simp_all add: lean_arbitrary_def lean_arbitrary_take_rest_def lstr_arbitrary_def
        lstr_arbitrary_take_rest_def generated_def broken_off_panic)
qed

lemma sound_deserialized:
  assumes snd: "sound t R s" and ok: "source_ok t (Deserialized h v)"
  shows "wp (run_source t (Deserialized h v)) (begun t R (Deserialized h v)) E
    (broken_off t R (Deserialized h v) Unwound s) s"
  using ok
  by (cases h; cases v)
    (auto simp: lean_deserialize_def lstr_deserialize_def map_err_def snd broken_off_panic split: sum.splits
      intro!: wp_mono [OF sound_create [OF snd]] wp_mono [OF sound_from_utf8 [OF snd]]
        wp_mono [OF sound_lstr_from_utf8 [OF snd]] broken_off_panic)

lemma sound_checked_utf8:
  assumes snd: "sound t R s"
  shows "wp (run_source t (CheckedUtf8 h xs)) (begun t R (CheckedUtf8 h xs)) E
    (broken_off t R (CheckedUtf8 h xs) Unwound s) s"
  by (cases h) (auto simp: snd split: sum.splits
      intro!: wp_mono [OF sound_from_utf8 [OF snd]] wp_mono [OF sound_lstr_from_utf8 [OF snd]] broken_off_panic)

lemma sound_checked_utf16:
  assumes snd: "sound t R s"
  shows "wp (run_source t (CheckedUtf16 h us)) (begun t R (CheckedUtf16 h us)) E
      (broken_off t R (CheckedUtf16 h us) Unwound s) s"
    and "wp (run_source t (CheckedUtf16Bytes h e a xs)) (begun t R (CheckedUtf16Bytes h e a xs)) E
      (broken_off t R (CheckedUtf16Bytes h e a xs) Unwound s) s"
proof -
  show "wp (run_source t (CheckedUtf16 h us)) (begun t R (CheckedUtf16 h us)) E
      (broken_off t R (CheckedUtf16 h us) Unwound s) s"
    by (cases h) (auto simp: utf16_result_def snd split: sum.splits
      intro!: wp_mono [OF sound_from_utf16 [OF snd]] wp_mono [OF sound_lstr_from_utf16 [OF snd]] broken_off_panic)
  show "wp (run_source t (CheckedUtf16Bytes h e a xs)) (begun t R (CheckedUtf16Bytes h e a xs)) E
      (broken_off t R (CheckedUtf16Bytes h e a xs) Unwound s) s"
    by (cases h; cases e) (auto simp: bytes16_result_def utf16_result_def snd units_in_simps split: sum.splits if_splits
      intro!: wp_mono [OF sound_from_utf16_bytes(1) [OF snd]] wp_mono [OF sound_from_utf16_bytes(2) [OF snd]]
        wp_mono [OF sound_lstr_from_utf16_bytes(1) [OF snd]] wp_mono [OF sound_lstr_from_utf16_bytes(2) [OF snd]]
        broken_off_panic)
qed

lemma sound_decoded_lossily:
  assumes snd: "sound t R s"
  shows "wp (run_source t (LossyUtf8 h xs)) (begun t R (LossyUtf8 h xs)) E
      (broken_off t R (LossyUtf8 h xs) Unwound s) s"
    and "wp (run_source t (LossyUtf16 h us)) (begun t R (LossyUtf16 h us)) E
      (broken_off t R (LossyUtf16 h us) Unwound s) s"
    and "wp (run_source t (LossyUtf16Bytes h e a xs)) (begun t R (LossyUtf16Bytes h e a xs)) E
      (broken_off t R (LossyUtf16Bytes h e a xs) Unwound s) s"
proof -
  note panic = broken_off_panic
  show "wp (run_source t (LossyUtf8 h xs)) (begun t R (LossyUtf8 h xs)) E (broken_off t R (LossyUtf8 h xs) Unwound s) s"
    by (cases h) (auto intro: panic intro!: wp_mono [OF sound_from_utf8_lossy [OF snd]] wp_mono [OF sound_lstr_lossy(1) [OF snd]])
  show "wp (run_source t (LossyUtf16 h us)) (begun t R (LossyUtf16 h us)) E (broken_off t R (LossyUtf16 h us) Unwound s) s"
    by (cases h) (auto intro: panic intro!: wp_mono [OF sound_from_utf16_lossy [OF snd]] wp_mono [OF sound_lstr_lossy(2) [OF snd]])
  show "wp (run_source t (LossyUtf16Bytes h e a xs)) (begun t R (LossyUtf16Bytes h e a xs)) E
      (broken_off t R (LossyUtf16Bytes h e a xs) Unwound s) s"
    by (cases h; cases e) (auto simp: units_in_simps from_utf16le_lossy_eq from_utf16be_lossy_eq lossy_bytes_size_def
        intro: panic intro!: wp_mono [OF sound_bytes_lossy [OF snd]]
          wp_mono [OF sound_lstr_lossy(3) [OF snd]] wp_mono [OF sound_lstr_lossy(4) [OF snd]])
qed

lemma sound_source:
  assumes snd: "sound t R s" and ok: "source_ok t src"
  shows "wp (run_source t src) (begun t R src) (broken_off t R src OutOfMemory s) (broken_off t R src Unwound s) s"
proof (cases src)
  case (Empty h)
  with snd show ?thesis
    by (cases h) (simp_all add: lean_new_def lstr_new_def repr_new_eq sound_repr_new)
next
  case (Text h xs)
  with ok show ?thesis by (auto intro!: broken_off_panic wp_mono [OF sound_create [OF snd]])
next
  case (Parsed h xs)
  with ok show ?thesis
    by (auto simp: value_from_str_def intro!: broken_off_error wp_mono [OF sound_from_str [OF snd, where P = "\<lambda>_. False"]])
next
  case (Literal h xs)
  with ok show ?thesis
    by (cases h) (auto simp: lean_from_static_str_def lstr_from_static_str_def snd broken_off_def
        intro!: wp_mono [OF sound_from_static_str [OF snd, where P = "\<lambda>_. False"]])
next
  case (Capacity n)
  then show ?thesis
    by (auto simp: try_with_capacity_def intro!: broken_off_error
      wp_mono [OF sound_with_capacity [OF snd, where P = "\<lambda>_. False"]])
next
  case (CapacityOrPanic n)
  then show ?thesis
    by (auto simp: try_with_capacity_def lean_with_capacity_def broken_off_def dest: out_of_memoryI [OF _ le_add1]
      intro!: wp_mono [OF sound_with_capacity [OF snd, where P = "\<lambda>_. False"]])
next
  case (Character h c)
  with ok snd show ?thesis
    by (simp add: lean_from_char_def from_char_eq sound_add_inline inline_holds_inline_bytes len_utf8_inline)
next
  case (UncheckedUtf8 h xs)
  with ok show ?thesis
    by (cases h) (auto simp: lean_from_utf8_unchecked_def lstr_from_utf8_unchecked_def from_utf8_unchecked_def
        intro!: broken_off_panic wp_mono [OF sound_create [OF snd]])
next
  case (Pieces h yss)
  with ok show ?thesis
    by (cases h) (auto intro!: broken_off_panic wp_mono [OF sound_from_iter_strs [OF snd]]
        wp_mono [OF sound_lstr_from_iter(2) [OF snd]])
next
  case (Characters h lower cs)
  with ok show ?thesis
    by (cases h) (auto intro!: broken_off_panic wp_mono [OF sound_from_iter_chars [OF snd]]
        wp_mono [OF sound_lstr_from_iter(1) [OF snd]])
next
  case (Arbitrary h rest g)
  with sound_generated_value [OF snd] ok show ?thesis by blast
next
  case (Deserialized h v)
  with sound_deserialized [OF snd] ok show ?thesis by blast
next
  case (CheckedUtf8 h xs)
  with sound_checked_utf8 [OF snd] show ?thesis by blast
next
  case (CheckedUtf16 h us)
  with sound_checked_utf16(1) [OF snd] show ?thesis by blast
next
  case (CheckedUtf16Bytes h e a xs)
  with sound_checked_utf16(2) [OF snd] show ?thesis by blast
next
  case (LossyUtf8 h xs)
  with sound_decoded_lossily(1) [OF snd] show ?thesis by blast
next
  case (LossyUtf16 h us)
  with sound_decoded_lossily(2) [OF snd] show ?thesis by blast
next
  case (LossyUtf16Bytes h e a xs)
  with sound_decoded_lossily(3) [OF snd] show ?thesis by blast
next
  case (Shown wasm h v)
  with sound_shown [OF snd] ok show ?thesis by auto
next
  case (ShownOrPanic wasm h v)
  with sound_shown_or_panic [OF snd] ok show ?thesis by auto
qed

end
