(* ===== verification/Gathering.thy ===== *)
theory Gathering
  imports Creating
begin

text \<open>
  The methods that consume several values at once: \<^verbatim>\<open>FromIterator\<close> and \<^verbatim>\<open>Extend\<close> over the values of
  the crate, from each type and into each type, and into a \<^verbatim>\<open>String\<close>. The values are picked out of
  all that are alive, in the order of the iterator.
\<close>

section \<open>Values and what they stand for\<close>

type_synonym handle = "header \<times> repr"
type_synonym meaning = "header \<times> byte list"

definition handle_of :: "owner \<Rightarrow> handle" where
  "handle_of w = (fst w, fst (snd w))"

definition meaning_of :: "owner \<Rightarrow> meaning" where
  "meaning_of w = (fst w, snd (snd w))"

lemma views [simp]: "handle_of (h, r, xs) = (h, r)" "meaning_of (h, r, xs) = (h, xs)"
  by (simp_all add: handle_of_def meaning_of_def)

lemma fst_views [simp]: "fst (handle_of w) = fst w" "fst (meaning_of w) = fst w"
  by (simp_all add: handle_of_def meaning_of_def)

section \<open>Picking values\<close>

definition picked :: "nat list \<Rightarrow> 'a list \<Rightarrow> 'a list" where
  "picked js xs = map (\<lambda>j. xs ! j) js"

definition unpicked :: "nat list \<Rightarrow> 'a list \<Rightarrow> 'a list" where
  "unpicked js xs = map (\<lambda>j. xs ! j) (filter (\<lambda>j. j \<notin> set js) [0..<length xs])"

definition can_pick :: "nat list \<Rightarrow> nat \<Rightarrow> bool" where
  "can_pick js n \<longleftrightarrow> distinct js \<and> (\<forall>j \<in> set js. j < n)"

lemma map_picked: "can_pick js (length xs) \<Longrightarrow> map f (picked js xs) = picked js (map f xs)"
  by (simp add: picked_def can_pick_def)

lemma map_unpicked: "map f (unpicked js xs) = unpicked js (map f xs)"
  by (auto simp: unpicked_def)

lemma mset_picked:
  assumes "can_pick js (length xs)"
  shows "mset xs = mset (picked js xs) + mset (unpicked js xs)"
proof -
  let ?n = "[0..<length xs]"
  have "set js = set (filter (\<lambda>j. j \<in> set js) ?n)" using assms by (auto simp: can_pick_def)
  then have "mset js = mset (filter (\<lambda>j. j \<in> set js) ?n)"
    using assms by (subst set_eq_iff_mset_eq_distinct [symmetric]) (simp_all add: can_pick_def)
  then have "mset ?n = mset js + mset (filter (\<lambda>j. j \<notin> set js) ?n)"
    by (simp only: mset_filter multiset_partition [symmetric])
  then have "image_mset ((!) xs) (mset ?n) = image_mset ((!) xs) (mset js) +
      image_mset ((!) xs) (mset (filter (\<lambda>j. j \<notin> set js) ?n))" by simp
  moreover have "image_mset ((!) xs) (mset ?n) = mset xs" by (simp only: mset_map [symmetric] map_nth)
  ultimately show ?thesis by (simp only: picked_def unpicked_def mset_map)
qed

section \<open>Gathering\<close>

text \<open>\<open>Onto h\<close> is \<^verbatim>\<open>extend\<close>: the first value is the one that grows.\<close>

datatype gathering =
    IntoValue header header
  | IntoText header
  | AddToText header "byte list"
  | Onto header

fun collect :: "target \<Rightarrow> header \<Rightarrow> header \<Rightarrow> repr list \<Rightarrow> (repr st, repr) prog" where
  "collect t Mutable Mutable rs = from_iter_lean_strings t rs"
| "collect t Mutable Immutable rs = lstr_from_iter_lean_strings t rs"
| "collect t Immutable Mutable rs = from_iter_lean_strs t rs"
| "collect t Immutable Immutable rs = lstr_from_iter_lean_strs t rs"

fun run_gathering :: "target \<Rightarrow> gathering \<Rightarrow> handle list \<Rightarrow> (repr st, reply \<times> handle list) prog" where
  "run_gathering t (IntoValue h h') vs = bind (collect t h h' (map snd vs)) (\<lambda>r. ret (Done, [(h', r)]))"
| "run_gathering t (IntoText h) vs =
    bind (if h = Mutable then string_from_iter_lean_strings t (map snd vs)
          else string_from_iter_lean_strs t (map snd vs)) (\<lambda>x. ret (Content x, []))"
| "run_gathering t (AddToText h text) vs =
    bind (if h = Mutable then string_extend_lean_strings t text (map snd vs)
          else string_extend_lean_strs t text (map snd vs)) (\<lambda>x. ret (Content x, []))"
| "run_gathering t (Onto h) (v # vs) =
    bind (set_self (snd v)) (\<lambda>_.
    bind (if h = Mutable then extend_lean_strings t (map snd vs) else extend_lean_strs t (map snd vs)) (\<lambda>_.
    bind (gets self) (\<lambda>r.
    ret (Done, [(Mutable, r)]))))"
| "run_gathering t (Onto h) [] = undef"

text \<open>What is left of the values after a panic: the one that was extended.\<close>

fun left_over :: "gathering \<Rightarrow> repr st \<Rightarrow> handle list" where
  "left_over (Onto h) s = [(Mutable, self s)]"
| "left_over g s = []"

fun gathering_ok :: "gathering \<Rightarrow> header list \<Rightarrow> bool" where
  "gathering_ok (IntoValue h h') hs \<longleftrightarrow> list_all (\<lambda>x. x = h) hs"
| "gathering_ok (IntoText h) hs \<longleftrightarrow> list_all (\<lambda>x. x = h) hs"
| "gathering_ok (AddToText h text) hs \<longleftrightarrow> list_all (\<lambda>x. x = h) hs"
| "gathering_ok (Onto h) hs \<longleftrightarrow> hs \<noteq> [] \<and> hd hs = Mutable \<and> list_all (\<lambda>x. x = h) (tl hs)"

text \<open>Whatever is gathered is the concatenation, and needs memory for that.\<close>

definition joined :: "meaning list \<Rightarrow> byte list" where
  "joined ws = concat (map snd ws)"

fun gathers :: "gathering \<Rightarrow> meaning list \<Rightarrow> reply \<Rightarrow> meaning list \<Rightarrow> bool" where
  "gathers (IntoValue h h') ws a us \<longleftrightarrow> a = Done \<and> us = [(h', joined ws)]"
| "gathers (IntoText h) ws a us \<longleftrightarrow> a = Content (joined ws) \<and> us = []"
| "gathers (AddToText h text) ws a us \<longleftrightarrow> a = Content (text @ joined ws) \<and> us = []"
| "gathers (Onto h) ws a us \<longleftrightarrow> a = Done \<and> us = [(Mutable, joined ws)]"

fun gathers_partly :: "gathering \<Rightarrow> meaning list \<Rightarrow> bool" where
  "gathers_partly (IntoValue h h') us \<longleftrightarrow> us = []"
| "gathers_partly (Onto h) us \<longleftrightarrow> map fst us = [Mutable]"
| "gathers_partly g us \<longleftrightarrow> False"

definition gathering_promises ::
  "(nat \<Rightarrow> bool) \<Rightarrow> gathering \<Rightarrow> meaning list \<Rightarrow> ending \<Rightarrow> meaning list \<Rightarrow> bool"
where
  "gathering_promises starved g ws e us \<longleftrightarrow> (case e of
     Completed a \<Rightarrow> gathers g ws a us
   | Rejected \<Rightarrow> False
   | OutOfMemory \<Rightarrow> False
   | Unwound \<Rightarrow> starved (length (joined ws)) \<and> gathers_partly g us)"

lemma gathering_promises_simps [simp]:
  "gathering_promises starved g ws (Completed a) us \<longleftrightarrow> gathers g ws a us"
  "gathering_promises starved g ws Rejected us \<longleftrightarrow> False"
  "gathering_promises starved g ws OutOfMemory us \<longleftrightarrow> False"
  "gathering_promises starved g ws Unwound us \<longleftrightarrow> starved (length (joined ws)) \<and> gathers_partly g us"
  by (simp_all add: gathering_promises_def)

section \<open>The promises are kept\<close>

definition gathered ::
  "target \<Rightarrow> owner multiset \<Rightarrow> gathering \<Rightarrow> owner list \<Rightarrow> repr st \<Rightarrow> ending \<Rightarrow> handle list \<Rightarrow> repr st \<Rightarrow> bool"
where
  "gathered t R g ps s e vs s' \<longleftrightarrow> (\<exists>ns. map handle_of ns = vs \<and> sound t (mset ns + R) s' \<and>
    gathering_promises (\<lambda>n. out_of_memory t n s s') g (map meaning_of ps) e (map meaning_of ns))"

lemma gatheredI:
  "sound t (mset ns + R) s' \<Longrightarrow> map handle_of ns = vs \<Longrightarrow>
    gathering_promises (\<lambda>n. out_of_memory t n s s') g (map meaning_of ps) e (map meaning_of ns) \<Longrightarrow>
    gathered t R g ps s e vs s'"
  unfolding gathered_def by blast

lemma owners_live_values:
  "list_all (\<lambda>x. x = h) (map fst ps) \<Longrightarrow> mset ps = live_values h (map snd ps)"
  by (induction ps) (auto simp: live_values_def)

lemma joined_owners: "joined (map meaning_of ps) = concat (map snd (map snd ps))"
  by (simp add: joined_def meaning_of_def comp_def)

lemma map_snd_handle_of: "map snd (map handle_of ps) = map fst (map snd ps)"
  by (simp add: handle_of_def)

lemma sound_collect:
  assumes "sound t (live_values h ws + R) s"
  shows "wp (collect t h h' (map fst ws))
    (\<lambda>r s'. sound t (add_mset (h', r, concat (map snd ws)) R) s' \<and> mem_only s s') E
    (gave_up t R (length (concat (map snd ws))) s) s"
  using assms
  by (cases h; cases h') (simp_all add: sound_from_iter_lean_strings sound_from_iter_lean_strs sound_lstr_from_iter)

lemma sound_gathering:
  assumes snd: "sound t (mset ps + R) s" and ok: "gathering_ok g (map fst ps)"
  shows "wp (run_gathering t g (map handle_of ps))
    (\<lambda>p. gathered t R g ps s (Completed (fst p)) (snd p)) E
    (\<lambda>s'. gathered t R g ps s Unwound (left_over g s') s') s"
proof (cases g)
  case (IntoValue h h')
  with ok snd have "sound t (live_values h (map snd ps) + R) s" by (simp add: owners_live_values)
  then have "wp (collect t h h' (map snd (map handle_of ps)))
    (\<lambda>r. gathered t R g ps s (Completed Done) [(h', r)]) E (gathered t R g ps s Unwound []) s"
    unfolding map_snd_handle_of
  proof (rule wp_mono [OF sound_collect])
    fix r s' assume "sound t (add_mset (h', r, concat (map snd (map snd ps))) R) s' \<and> mem_only s s'"
    then show "gathered t R g ps s (Completed Done) [(h', r)] s'"
      by (intro gatheredI [where ns = "[(h', r, concat (map snd (map snd ps)))]"]) (simp_all add: IntoValue joined_owners)
  next
    fix s' assume "gave_up t R (length (concat (map snd (map snd ps)))) s s'"
    then show "gathered t R g ps s Unwound [] s'"
      by (intro gatheredI [where ns = "[]"]) (simp_all add: IntoValue joined_owners gave_up_def)
  qed
  then show ?thesis by (simp add: IntoValue del: map_map)
next
  case (IntoText h)
  with ok snd have "sound t (live_values h (map snd ps) + R) s" by (simp add: owners_live_values)
  with IntoText show ?thesis
    by (cases h) (auto simp: string_from_iter_lean_strings_def string_from_iter_lean_strs_def
        string_extend_lean_strings_def string_extend_lean_strs_def map_snd_handle_of joined_owners
        simp del: map_map intro!: wp_mono [OF lean_items.string_extend [where P = "\<lambda>_. False" and E = E]]
          wp_mono [OF lstr_items.string_extend [where P = "\<lambda>_. False" and E = E]] gatheredI [where ns = "[]"])
next
  case (AddToText h x)
  with ok snd have "sound t (live_values h (map snd ps) + R) s" by (simp add: owners_live_values)
  with AddToText show ?thesis
    by (cases h) (auto simp: string_extend_lean_strings_def string_extend_lean_strs_def
        map_snd_handle_of joined_owners
        simp del: map_map intro!: wp_mono [OF lean_items.string_extend [where P = "\<lambda>_. False" and E = E]]
          wp_mono [OF lstr_items.string_extend [where P = "\<lambda>_. False" and E = E]] gatheredI [where ns = "[]"])
next
  case (Onto h)
  with ok obtain r xs qs where ps: "ps = (Mutable, r, xs) # qs" "list_all (\<lambda>x. x = h) (map fst qs)"
    by (cases ps) auto
  let ?s = "s\<lparr>self := r\<rparr>"
  have "holds t (live_values h (map snd qs) + R) xs ?s"
    using snd ps by (simp add: holds_local owners_live_values [OF ps(2)])
  then have "wp (if h = Mutable then extend_lean_strings t (map fst (map snd qs)) else extend_lean_strs t (map fst (map snd qs)))
    (\<lambda>_ s'. holds t R (xs @ concat (map snd (map snd qs))) s' \<and> later ?s s') E
    (stuck t R (length xs + length (concat (map snd (map snd qs)))) ?s) ?s"
    using lean_items.extend_values [of t "map snd qs" R xs ?s, OF _ order_refl]
      lstr_items.extend_values [of t "map snd qs" R xs ?s, OF _ order_refl]
    unfolding extend_lean_strings_def extend_lean_strs_def by (cases h) (simp_all del: map_map)
  then have "wp (if h = Mutable then extend_lean_strings t (map fst (map snd qs)) else extend_lean_strs t (map fst (map snd qs)))
    (\<lambda>_ s'. gathered t R g ps s (Completed Done) [(Mutable, self s')] s') E
    (\<lambda>s'. gathered t R g ps s Unwound [(Mutable, self s')] s') ?s"
  proof (rule wp_mono)
    fix x s' assume "holds t R (xs @ concat (map snd (map snd qs))) s' \<and> later ?s s'"
    then show "gathered t R g ps s (Completed Done) [(Mutable, self s')] s'"
      by (intro gatheredI [where ns = "[(Mutable, self s', xs @ concat (map snd (map snd qs)))]"])
        (auto simp: holds_def Onto ps joined_def meaning_of_def comp_def)
  next
    fix s' assume "stuck t R (length xs + length (concat (map snd (map snd qs)))) ?s s'"
    then obtain ys where "holds t R ys s'" "out_of_memory t (length xs + length (concat (map snd (map snd qs)))) ?s s'"
      by (auto simp: stuck_def)
    then show "gathered t R g ps s Unwound [(Mutable, self s')] s'"
      by (intro gatheredI [where ns = "[(Mutable, self s', ys)]"])
        (auto simp: holds_def Onto ps joined_def meaning_of_def comp_def)
  qed
  then show ?thesis by (cases h) (simp_all add: Onto ps set_self_def map_snd_handle_of del: map_map)
qed

end
