(* ===== verification/Reading.thy ===== *)
theory Reading
  imports Mutations Traits
begin

text \<open>
  The methods on \<^verbatim>\<open>&self\<close> that make no value of the crate, as one family: \<open>run_reading\<close> runs one,
  \<open>read_reply\<close> says what it may answer. What the text determines is determined; the capacity, the
  place of a value, and whether it still borrows a static text are not.
\<close>

section \<open>Reading one value\<close>

text \<open>\<open>AsStr\<close> stands for \<^verbatim>\<open>Deref\<close>, \<^verbatim>\<open>AsRef\<close>, \<^verbatim>\<open>Borrow\<close>, \<^verbatim>\<open>Display\<close>, \<^verbatim>\<open>Debug\<close> and
  \<^verbatim>\<open>Serialize\<close> as well, which all begin with \<^verbatim>\<open>as_str\<close>. The hasher is one that keeps what
  is written to it.\<close>

datatype reading =
    Length
  | IsEmpty
  | Room
  | OnHeap
  | AsStr
  | AsBytes
  | AsStatic
  | EqualTo "byte list"
  | Hashed

fun run_reading :: "target \<Rightarrow> reading \<Rightarrow> header \<Rightarrow> repr \<Rightarrow> (repr st, reply) prog" where
  "run_reading t Length Mutable r = answering Size (lean_len t r)"
| "run_reading t Length Immutable r = answering Size (lstr_len t r)"
| "run_reading t IsEmpty Mutable r = answering Truth (lean_is_empty t r)"
| "run_reading t IsEmpty Immutable r = answering Truth (lstr_is_empty t r)"
| "run_reading t Room h r = answering Size (lean_capacity t r)"
| "run_reading t OnHeap Mutable r = answering Truth (lean_is_heap_allocated t r)"
| "run_reading t OnHeap Immutable r = answering Truth (lstr_is_heap_allocated t r)"
| "run_reading t AsStr Mutable r = answering Content (lean_as_str t r)"
| "run_reading t AsStr Immutable r = answering Content (lstr_as_str t r)"
| "run_reading t AsBytes Mutable r = answering Content (lean_as_bytes t r)"
| "run_reading t AsBytes Immutable r = answering Content (lstr_as_bytes t r)"
| "run_reading t AsStatic Mutable r = answering StaticContent (lean_as_static_str t r)"
| "run_reading t AsStatic Immutable r = answering StaticContent (lstr_as_static_str t r)"
| "run_reading t (EqualTo ys) h r = answering Truth (value_eq_str t h r ys)"
| "run_reading t Hashed h r = answering Content (value_hash t (@) h r [])"

fun reading_ok :: "reading \<Rightarrow> header \<Rightarrow> bool" where
  "reading_ok Room h \<longleftrightarrow> h = Mutable"
| "reading_ok q h \<longleftrightarrow> True"

fun read_reply :: "reading \<Rightarrow> byte list \<Rightarrow> reply \<Rightarrow> bool" where
  "read_reply Length xs a \<longleftrightarrow> a = Size (length xs)"
| "read_reply IsEmpty xs a \<longleftrightarrow> a = Truth (xs = [])"
| "read_reply Room xs a \<longleftrightarrow> (case a of Size n \<Rightarrow> length xs \<le> n | _ \<Rightarrow> False)"
| "read_reply OnHeap xs a \<longleftrightarrow> a \<in> {Truth True, Truth False}"
| "read_reply AsStr xs a \<longleftrightarrow> a = Content xs"
| "read_reply AsBytes xs a \<longleftrightarrow> a = Content xs"
| "read_reply AsStatic xs a \<longleftrightarrow> a \<in> {StaticContent None, StaticContent (Some xs)}"
| "read_reply (EqualTo ys) xs a \<longleftrightarrow> a = Truth (xs = ys)"
| "read_reply Hashed xs a \<longleftrightarrow> a = Content (xs @ [0xFF])"

lemma sound_repr_capacity:
  fixes s :: "repr st"
  assumes snd: "sound t R s" and w: "(Mutable, r, xs) \<in># R"
  obtains n where "repr_capacity t r s = Ret n s" "length xs \<le> n"
proof -
  from multi_member_split [OF w] obtain R' where R: "R = add_mset (Mutable, r, xs) R'" by blast
  from snd obtain H where H: "heap_rep t H s" "owns t H R" by (rule soundE)
  from owns_denotes [OF H(2) w] have "\<exists>n. wp (repr_capacity t r) (\<lambda>c s'. c = n \<and> s' = s) (\<lambda>_. False) (\<lambda>_. False) s \<and>
    length xs \<le> n"
  proof (cases rule: denotes_cases)
    case (inline B)
    then show ?thesis by (simp add: repr_capacity_def inline_holds_def)
  next
    case (static sb)
    then show ?thesis by (simp add: repr_capacity_def static_holds_word static_holds_len)
  next
    case (heap hb b v)
    have "length xs \<le> vcap v" by (rule buf_holds_le_cap [OF heap(3) heap_rep_ok [OF H(1) heap(2)]])
    with heap show ?thesis using wp_header_capacity [OF live_intro [OF H(1) heap(2,3)]]
      by (simp add: repr_capacity_def heap_capacity_def)
  qed
  then show ?thesis using that by (auto simp: wp_Ret_iff)
qed

lemma sound_static_str:
  assumes "sound t R s" "(h, r, xs) \<in># R"
  shows "wp (as_static_str t r) Q E P s = Q (if static_repr r then Some xs else None) s"
  using sound_as_static_str [of t h r xs "R - {#(h, r, xs)#}" s] assms by simp

lemma reading_sound:
  assumes snd: "sound t R s" and w: "(h, r, xs) \<in># R" and ok: "reading_ok q h"
  shows "wp (run_reading t q h r) (\<lambda>a s'. s' = s \<and> read_reply q xs a) E P s"
proof (cases "q = Room")
  case True
  with ok have "h = Mutable" by simp
  with snd w obtain n where "repr_capacity t r s = Ret n s" "length xs \<le> n" by (auto intro: sound_repr_capacity)
  with True show ?thesis by (simp add: lean_capacity_def wp_Ret)
next
  case False
  have known: "\<And>Q. wp (repr_len t h r) Q E P s = Q (length xs) s" "\<And>Q. wp (as_str t h r) Q E P s = Q xs s"
    "\<And>Q. wp (as_bytes t h r) Q E P s = Q xs s"
    "\<And>Q. wp (as_static_str t r) Q E P s = Q (if static_repr r then Some xs else None) s"
    "is_heap_buffer t r = (ret (block_of r \<noteq> None) :: (repr st, bool) prog)"
    using snd w by (simp_all add: sound_repr_len sound_as_str sound_as_bytes sound_static_str sound_is_heap_buffer)
  show ?thesis using known False
    by (cases q; cases h)
      (simp_all add: lean_len_def lstr_len_def lean_is_empty_def lstr_is_empty_def is_empty_def
        lean_is_heap_allocated_def lstr_is_heap_allocated_def lean_as_str_def lstr_as_str_def lean_as_bytes_def
        lstr_as_bytes_def lean_as_static_str_def lstr_as_static_str_def value_eq_str_def value_hash_def str_hash_def)
qed

section \<open>Comparing two values\<close>

datatype comparison = Equals | Compares

fun run_comparison :: "target \<Rightarrow> comparison \<Rightarrow> header \<times> repr \<Rightarrow> header \<times> repr \<Rightarrow> (repr st, reply) prog" where
  "run_comparison t Equals (h, r) (h', q) = answering Truth (value_eq t h r h' q)"
| "run_comparison t Compares (h, r) (h', q) = answering Order (value_cmp t h r q)"

fun comparison_ok :: "comparison \<Rightarrow> header \<Rightarrow> header \<Rightarrow> bool" where
  "comparison_ok Equals h h' \<longleftrightarrow> True"
| "comparison_ok Compares h h' \<longleftrightarrow> h = h'"

text \<open>The order that is answered is that of the characters.\<close>

fun compare_reply :: "comparison \<Rightarrow> byte list \<Rightarrow> byte list \<Rightarrow> reply" where
  "compare_reply Equals xs ys = Truth (xs = ys)"
| "compare_reply Compares xs ys = Order (chars_cmp (chars xs) (chars ys))"

lemma str_cmp_valid:
  assumes "valid_utf8 xs" "valid_utf8 ys"
  shows "str_cmp xs ys = chars_cmp (chars xs) (chars ys)"
  using str_cmp_chars [of "chars xs" "chars ys"] chars_scalar assms by (simp add: str_of_chars)

lemma comparison_sound:
  assumes snd: "sound t R s" and w: "(h, r, xs) \<in># R" "(h', q, ys) \<in># R" and ok: "comparison_ok c h h'"
  shows "wp (run_comparison t c (h, r) (h', q)) (\<lambda>a s'. s' = s \<and> a = compare_reply c xs ys) E P s"
proof -
  have known: "\<And>Q. wp (as_str t h r) Q E P s = Q xs s" "\<And>Q. wp (as_str t h' q) Q E P s = Q ys s"
    using snd w by (simp_all add: sound_as_str)
  with ok str_cmp_valid [OF sound_valid [OF snd w(1)] sound_valid [OF snd w(2)]] show ?thesis
    by (cases c) (simp_all add: value_eq_def value_cmp_def)
qed

end
