(* ===== verification/System.thy ===== *)
theory System
  imports Gathering Reading
begin

text \<open>
  A program that uses the crate calls methods on values. A \<open>command\<close> is a method with its arguments,
  \<open>exec\<close> runs it on one of the values that are alive and says what it returns and which values stand in
  the place of the operand afterwards. The specification next to it knows no memory: a value is its
  type and its text. \<open>exec_sound\<close> is the simulation of one method.
\<close>

section \<open>Commands\<close>

text \<open>\<open>OrPanic\<close> is the method that panics where the other one returns an error. \<open>CopyAcross\<close> makes a value
  of the other type out of a reference; \<open>Add\<close> is the operator.\<close>

datatype command =
    Copy copying
  | CopyAcross
  | CloneFrom nat
  | Drop
  | Convert
  | Mutate mutation
  | SplitOff nat
  | ExtendStrs "byte list list"
  | ExtendChars nat "uchar list"
  | WriteFmt fmt_arguments
  | Add "byte list"
  | IntoString
  | IntoCow
  | Read reading
  | Compare comparison nat
  | OrPanic command

text \<open>A method on \<^verbatim>\<open>&mut self\<close> runs with the operand in \<open>self\<close>.\<close>

definition on_self :: "handle \<Rightarrow> (repr st, reply) prog \<Rightarrow> (repr st, reply \<times> handle list) prog" where
  "on_self v m =
    bind (set_self (snd v)) (\<lambda>_.
    bind m (\<lambda>a.
    bind (gets self) (\<lambda>r'.
    ret (a, [(fst v, r')]))))"

definition on_self_split :: "handle \<Rightarrow> (repr st, repr) prog \<Rightarrow> (repr st, reply \<times> handle list) prog" where
  "on_self_split v m =
    bind (set_self (snd v)) (\<lambda>_.
    bind m (\<lambda>r2.
    bind (gets self) (\<lambda>r'.
    ret (Done, [(fst v, r'), (fst v, r2)]))))"

definition cow_text :: "cow \<Rightarrow> byte list" where
  "cow_text c = (case c of Borrowed x \<Rightarrow> x | Owned x \<Rightarrow> x)"

fun exec_or_panic :: "target \<Rightarrow> unicode \<Rightarrow> command \<Rightarrow> handle \<Rightarrow> (repr st, reply \<times> handle list) prog" where
  "exec_or_panic t u (Copy c) (h, r) =
    bind (run_copying_or_panic t u c h r) (\<lambda>r'. ret (Done, [(h, r), (h, r')]))"
| "exec_or_panic t u Convert (Mutable, r) = bind (lean_into_lean_str t r) (\<lambda>r'. ret (Done, [(Immutable, r')]))"
| "exec_or_panic t u Convert (Immutable, r) = bind (lstr_into_lean_string t r) (\<lambda>r'. ret (Done, [(Mutable, r')]))"
| "exec_or_panic t u (Mutate m) v = on_self v (run_mutation_or_panic t m)"
| "exec_or_panic t u (SplitOff n) v = on_self_split v (lean_split_off t n)"
| "exec_or_panic t u c v = undef"

fun exec :: "target \<Rightarrow> unicode \<Rightarrow> handle list \<Rightarrow> command \<Rightarrow> handle \<Rightarrow> (repr st, reply \<times> handle list) prog" where
  "exec t u others (Copy c) (h, r) = bind (run_copying t u c h r) (\<lambda>r'. ret (Done, [(h, r), (h, r')]))"
| "exec t u others CopyAcross (Mutable, r) =
    bind (lstr_from_lean_string_ref t r) (\<lambda>r'. ret (Done, [(Mutable, r), (Immutable, r')]))"
| "exec t u others CopyAcross (Immutable, r) =
    bind (lean_from_lean_str_ref t r) (\<lambda>r'. ret (Done, [(Immutable, r), (Mutable, r')]))"
| "exec t u others (CloneFrom j) (Mutable, r) =
    on_self (Mutable, r) (silently (lean_clone_from t (snd (others ! j))))"
| "exec t u others (CloneFrom j) (Immutable, r) =
    on_self (Immutable, r) (silently (lstr_clone_from t (snd (others ! j))))"
| "exec t u others Drop (Mutable, r) = bind (lean_drop t r) (\<lambda>_. ret (Done, []))"
| "exec t u others Drop (Immutable, r) = bind (lstr_drop t r) (\<lambda>_. ret (Done, []))"
| "exec t u others Convert (Mutable, r) = bind (try_into_lean_str t r) (\<lambda>r'. ret (Done, [(Immutable, r')]))"
| "exec t u others Convert (Immutable, r) = bind (try_into_lean_string t r) (\<lambda>r'. ret (Done, [(Mutable, r')]))"
| "exec t u others (Mutate m) v = on_self v (run_mutation t m)"
| "exec t u others (SplitOff n) v = on_self_split v (try_split_off t n)"
| "exec t u others (ExtendStrs yss) v = on_self v (silently (extend_strs t yss))"
| "exec t u others (ExtendChars lower cs) v = on_self v (silently (extend_chars t lower cs))"
| "exec t u others (WriteFmt args) v = on_self v (answering Truth (lean_write_fmt t args))"
| "exec t u others (Add ys) (h, r) = bind (lean_add t r ys) (\<lambda>r'. ret (Done, [(h, r')]))"
| "exec t u others IntoString (h, r) = bind (into_string t h r) (\<lambda>x. ret (Content x, []))"
| "exec t u others IntoCow (h, r) = bind (into_cow t h r) (\<lambda>c. ret (Content (cow_text c), []))"
| "exec t u others (Read q) (h, r) = bind (run_reading t q h r) (\<lambda>a. ret (a, [(h, r)]))"
| "exec t u others (Compare c j) v = bind (run_comparison t c v (others ! j)) (\<lambda>a. ret (a, [v]))"
| "exec t u others (OrPanic c) v = exec_or_panic t u c v"

text \<open>What is left of the operand after an error or a panic: what \<open>self\<close> is then, nothing of an operand
  taken by value, and a borrowed operand as it was.\<close>

fun remains :: "command \<Rightarrow> handle \<Rightarrow> repr st \<Rightarrow> handle list" where
  "remains (CloneFrom j) v s = [(fst v, self s)]"
| "remains (Mutate m) v s = [(fst v, self s)]"
| "remains (SplitOff n) v s = [(fst v, self s)]"
| "remains (ExtendStrs yss) v s = [(fst v, self s)]"
| "remains (ExtendChars lower cs) v s = [(fst v, self s)]"
| "remains (WriteFmt args) v s = [(fst v, self s)]"
| "remains Drop v s = []"
| "remains Convert v s = []"
| "remains (Add ys) v s = []"
| "remains IntoString v s = []"
| "remains IntoCow v s = []"
| "remains (OrPanic c) v s = remains c v s"
| "remains c v s = [v]"

section \<open>What the type checker requires of a call\<close>

definition args_ok :: "fmt_arguments \<Rightarrow> bool" where
  "args_ok args \<longleftrightarrow> (case literal args of Some x \<Rightarrow> valid_utf8 x | None \<Rightarrow> fmt_valid (formatter args))"

fun has_two_forms :: "command \<Rightarrow> bool" where
  "has_two_forms (Copy c) \<longleftrightarrow> True"
| "has_two_forms Convert \<longleftrightarrow> True"
| "has_two_forms (Mutate m) \<longleftrightarrow> True"
| "has_two_forms (SplitOff n) \<longleftrightarrow> True"
| "has_two_forms c \<longleftrightarrow> False"

fun permitted :: "target \<Rightarrow> header list \<Rightarrow> command \<Rightarrow> header \<Rightarrow> bool" where
  "permitted t hs (Mutate m) h \<longleftrightarrow> h = Mutable \<and> mutation_ok t m"
| "permitted t hs (SplitOff n) h \<longleftrightarrow> h = Mutable"
| "permitted t hs (CloneFrom j) h \<longleftrightarrow> j < length hs \<and> hs ! j = h"
| "permitted t hs (ExtendStrs yss) h \<longleftrightarrow> h = Mutable \<and> list_all valid_utf8 yss"
| "permitted t hs (ExtendChars lower cs) h \<longleftrightarrow> h = Mutable \<and> list_all scalar cs"
| "permitted t hs (WriteFmt args) h \<longleftrightarrow> h = Mutable \<and> args_ok args"
| "permitted t hs (Add ys) h \<longleftrightarrow> h = Mutable \<and> valid_utf8 ys"
| "permitted t hs (Read q) h \<longleftrightarrow> reading_ok q h"
| "permitted t hs (Compare c j) h \<longleftrightarrow> j < length hs \<and> comparison_ok c h (hs ! j)"
| "permitted t hs (OrPanic c) h \<longleftrightarrow> has_two_forms c \<and> permitted t hs c h"
| "permitted t hs c h \<longleftrightarrow> True"

section \<open>The specification\<close>

text \<open>\<open>crowded\<close>: more values than a reference count may reach. \<open>starved n\<close>: memory for a text of \<open>n\<close>
  bytes was refused. What \<^verbatim>\<open>extend\<close> and \<^verbatim>\<open>write!\<close> leave in the operand when they run out of
  memory half-way the specification does not determine.\<close>

definition crowded :: "target \<Rightarrow> meaning list \<Rightarrow> bool" where
  "crowded t others \<longleftrightarrow> ISIZE_MAX t \<le> length others"

definition other_type :: "header \<Rightarrow> header" where
  "other_type h = (if h = Mutable then Immutable else Mutable)"

definition fmt_written :: "fmt_arguments \<Rightarrow> byte list" where
  "fmt_written args = (case literal args of Some x \<Rightarrow> x | None \<Rightarrow> fmt_text (formatter args))"

definition write_end :: "fmt_arguments \<Rightarrow> bool option" where
  "write_end args = (case literal args of Some x \<Rightarrow> Some True | None \<Rightarrow> fmt_end (formatter args))"

text \<open>A literal that an empty string would have to borrow is too long.\<close>

definition unborrowable :: "target \<Rightarrow> fmt_arguments \<Rightarrow> byte list \<Rightarrow> bool" where
  "unborrowable t args xs \<longleftrightarrow> literal args \<noteq> None \<and> xs = [] \<and> Static_MAX_LENGTH t < length (fmt_written args)"

text \<open>A call that returns: what it returns and what the operand has become.\<close>

fun gives ::
  "target \<Rightarrow> unicode \<Rightarrow> meaning list \<Rightarrow> command \<Rightarrow> meaning \<Rightarrow> reply \<Rightarrow> meaning list \<Rightarrow> bool"
where
  "gives t u others (Copy c) (h, xs) a ws \<longleftrightarrow> a = Done \<and> ws = [(h, xs), (h, copied u c xs)]"
| "gives t u others CopyAcross (h, xs) a ws \<longleftrightarrow> a = Done \<and> ws = [(h, xs), (other_type h, xs)]"
| "gives t u others (CloneFrom j) (h, xs) a ws \<longleftrightarrow> a = Done \<and> ws = [(h, snd (others ! j))]"
| "gives t u others Drop (h, xs) a ws \<longleftrightarrow> a = Done \<and> ws = []"
| "gives t u others Convert (h, xs) a ws \<longleftrightarrow> a = Done \<and> ws = [(other_type h, xs)]"
| "gives t u others (Mutate m) (h, xs) a ws \<longleftrightarrow>
    fst (effect t m xs) \<and> a = replied m xs \<and> ws = [(h, snd (effect t m xs))]"
| "gives t u others (SplitOff n) (h, xs) a ws \<longleftrightarrow>
    is_char_boundary xs n \<and> a = Done \<and> ws = [(h, take n xs), (h, drop n xs)]"
| "gives t u others (ExtendStrs yss) (h, xs) a ws \<longleftrightarrow> a = Done \<and> ws = [(h, xs @ concat yss)]"
| "gives t u others (ExtendChars lower cs) (h, xs) a ws \<longleftrightarrow> a = Done \<and> ws = [(h, xs @ str_of cs)]"
| "gives t u others (WriteFmt args) (h, xs) a ws \<longleftrightarrow>
    (\<exists>ok. write_end args = Some ok \<and> a = Truth ok) \<and> ws = [(h, xs @ fmt_written args)]"
| "gives t u others (Add ys) (h, xs) a ws \<longleftrightarrow> a = Done \<and> ws = [(h, xs @ ys)]"
| "gives t u others IntoString (h, xs) a ws \<longleftrightarrow> a = Content xs \<and> ws = []"
| "gives t u others IntoCow (h, xs) a ws \<longleftrightarrow> a = Content xs \<and> ws = []"
| "gives t u others (Read q) (h, xs) a ws \<longleftrightarrow> read_reply q xs a \<and> ws = [(h, xs)]"
| "gives t u others (Compare c j) (h, xs) a ws \<longleftrightarrow>
    a = compare_reply c xs (snd (others ! j)) \<and> ws = [(h, xs)]"
| "gives t u others (OrPanic c) w a ws \<longleftrightarrow> gives t u others c w a ws"

text \<open>A call that returns an error.\<close>

fun errs :: "target \<Rightarrow> unicode \<Rightarrow> (nat \<Rightarrow> bool) \<Rightarrow> command \<Rightarrow> meaning \<Rightarrow> meaning list \<Rightarrow> bool" where
  "errs t u starved (Copy c) (h, xs) ws \<longleftrightarrow> starved (copy_demand u c xs) \<and> ws = [(h, xs)]"
| "errs t u starved Convert (h, xs) ws \<longleftrightarrow> starved (length xs) \<and> ws = []"
| "errs t u starved (Mutate m) (h, xs) ws \<longleftrightarrow> starved (demand t m (length xs)) \<and> ws = [(h, xs)]"
| "errs t u starved (SplitOff n) (h, xs) ws \<longleftrightarrow> starved (length xs) \<and> ws = [(h, xs)]"
| "errs t u starved c w ws \<longleftrightarrow> False"

text \<open>A call that panics.\<close>

fun unwinds ::
  "target \<Rightarrow> unicode \<Rightarrow> (nat \<Rightarrow> bool) \<Rightarrow> meaning list \<Rightarrow> command \<Rightarrow> meaning \<Rightarrow> meaning list \<Rightarrow> bool"
where
  "unwinds t u starved others (Copy c) (h, xs) ws \<longleftrightarrow>
    (starved (copy_demand u c xs) \<or> crowded t others) \<and> ws = [(h, xs)]"
| "unwinds t u starved others CopyAcross (h, xs) ws \<longleftrightarrow>
    (starved (length xs) \<or> crowded t others) \<and> ws = [(h, xs)]"
| "unwinds t u starved others (CloneFrom j) (h, xs) ws \<longleftrightarrow> crowded t others \<and> ws = [(h, xs)]"
| "unwinds t u starved others (Mutate m) (h, xs) ws \<longleftrightarrow>
    (\<not> fst (effect t m xs) \<or> crowded t others) \<and> ws = [(h, snd (effect t m xs))]"
| "unwinds t u starved others (SplitOff n) (h, xs) ws \<longleftrightarrow> \<not> is_char_boundary xs n \<and> ws = [(h, xs)]"
| "unwinds t u starved others (ExtendStrs yss) (h, xs) ws \<longleftrightarrow>
    starved (length xs + length (concat yss)) \<and> map fst ws = [h]"
| "unwinds t u starved others (ExtendChars lower cs) (h, xs) ws \<longleftrightarrow>
    starved (length xs + length (str_of cs)) \<and> map fst ws = [h]"
| "unwinds t u starved others (WriteFmt args) (h, xs) ws \<longleftrightarrow>
    starved (length xs + length (fmt_written args)) \<and> map fst ws = [h] \<or>
    write_end args = None \<and> ws = [(h, xs @ fmt_written args)] \<or> unborrowable t args xs \<and> ws = [(h, xs)]"
| "unwinds t u starved others (Add ys) (h, xs) ws \<longleftrightarrow> starved (length xs + length ys) \<and> ws = []"
| "unwinds t u starved others (OrPanic c) w ws \<longleftrightarrow> unwinds t u starved others c w ws \<or> errs t u starved c w ws"
| "unwinds t u starved others c w ws \<longleftrightarrow> False"

definition promises ::
  "target \<Rightarrow> unicode \<Rightarrow> (nat \<Rightarrow> bool) \<Rightarrow> meaning list \<Rightarrow> command \<Rightarrow> meaning \<Rightarrow> ending \<Rightarrow> meaning list \<Rightarrow> bool"
where
  "promises t u starved others c w e ws \<longleftrightarrow> (case e of
     Completed a \<Rightarrow> gives t u others c w a ws
   | Rejected \<Rightarrow> False
   | OutOfMemory \<Rightarrow> errs t u starved c w ws
   | Unwound \<Rightarrow> unwinds t u starved others c w ws)"

lemma promises_simps [simp]:
  "promises t u starved others c w (Completed a) ws \<longleftrightarrow> gives t u others c w a ws"
  "promises t u starved others c w Rejected ws \<longleftrightarrow> False"
  "promises t u starved others c w OutOfMemory ws \<longleftrightarrow> errs t u starved c w ws"
  "promises t u starved others c w Unwound ws \<longleftrightarrow> unwinds t u starved others c w ws"
  by (simp_all add: promises_def)

section \<open>One method\<close>

text \<open>The values that replace the operand are what the specification promises, and with the other
  values they are sound.\<close>

definition kept_promise ::
  "target \<Rightarrow> unicode \<Rightarrow> repr st \<Rightarrow> owner list \<Rightarrow> command \<Rightarrow> owner \<Rightarrow> ending \<Rightarrow> handle list \<Rightarrow> repr st \<Rightarrow> bool"
where
  "kept_promise t u s others c w e vs s' \<longleftrightarrow>
    (\<exists>ws. map handle_of ws = vs \<and> sound t (mset ws + mset others) s' \<and>
      promises t u (\<lambda>n. out_of_memory t n s s') (map meaning_of others) c (meaning_of w) e (map meaning_of ws))"

lemma kept_promiseI:
  "sound t (mset ws + mset others) s' \<Longrightarrow> map handle_of ws = vs \<Longrightarrow>
    promises t u (\<lambda>n. out_of_memory t n s s') (map meaning_of others) c (meaning_of w) e (map meaning_of ws) \<Longrightarrow>
    kept_promise t u s others c w e vs s'"
  unfolding kept_promise_def by blast


text \<open>A program carries out a command on an owner: every way it ends is one the specification allows.\<close>

definition carries_out ::
  "target \<Rightarrow> unicode \<Rightarrow> owner list \<Rightarrow> command \<Rightarrow> owner \<Rightarrow> (repr st, reply \<times> handle list) prog \<Rightarrow> repr st \<Rightarrow> bool"
where
  "carries_out t u others c w m s \<longleftrightarrow> wp m
    (\<lambda>p. kept_promise t u s others c w (Completed (fst p)) (snd p))
    (\<lambda>s'. kept_promise t u s others c w OutOfMemory (remains c (handle_of w) s') s')
    (\<lambda>s'. kept_promise t u s others c w Unwound (remains c (handle_of w) s') s') s"

lemma wp_on_self [simp]:
  "wp (on_self v m) Q E P s = wp m (\<lambda>a s'. Q (a, [(fst v, self s')]) s') E P (s\<lparr>self := snd v\<rparr>)"
  by (simp add: on_self_def set_self_def)

lemma wp_on_self_split [simp]:
  "wp (on_self_split v m) Q E P s =
    wp m (\<lambda>r s'. Q (Done, [(fst v, self s'), (fst v, r)]) s') E P (s\<lparr>self := snd v\<rparr>)"
  by (simp add: on_self_split_def set_self_def)

lemma kept_one:
  "sound t (add_mset (h, r', ys) (mset others)) s' \<Longrightarrow>
    promises t u (\<lambda>n. out_of_memory t n s s') (map meaning_of others) c (meaning_of w) e [(h, ys)] \<Longrightarrow>
    kept_promise t u s others c w e [(h, r')] s'"
  by (rule kept_promiseI [where ws = "[(h, r', ys)]"]) simp_all

lemma kept_two:
  "sound t (add_mset (h, r, xs) (add_mset (h', r', ys) (mset others))) s' \<Longrightarrow>
    promises t u (\<lambda>n. out_of_memory t n s s') (map meaning_of others) c (meaning_of w) e [(h, xs), (h', ys)] \<Longrightarrow>
    kept_promise t u s others c w e [(h, r), (h', r')] s'"
  by (rule kept_promiseI [where ws = "[(h, r, xs), (h', r', ys)]"]) simp_all

lemma kept_none:
  "sound t (mset others) s' \<Longrightarrow>
    promises t u (\<lambda>n. out_of_memory t n s s') (map meaning_of others) c (meaning_of w) e [] \<Longrightarrow>
    kept_promise t u s others c w e [] s'"
  by (rule kept_promiseI [where ws = "[]"]) simp_all

lemma kept_stuck:
  assumes "stuck t (mset others) n (s\<lparr>self := r\<rparr>) s'"
    and "\<And>st ys. st n \<Longrightarrow> promises t u st (map meaning_of others) c (meaning_of w) e [(Mutable, ys)]"
  shows "kept_promise t u s others c w e [(Mutable, self s')] s'"
  using assms(1) by (auto simp: stuck_def holds_def intro: kept_one assms(2))

lemma handles_le_size: "handles R b \<le> size R"
  unfolding handles_def by (rule size_filter_mset_lesseq)

lemma count_limit_crowded:
  assumes "count_limit t (add_mset w (mset others)) r"
  shows "crowded t (map meaning_of others)"
proof -
  from assms obtain b where "ISIZE_MAX t < handles (add_mset w (mset others)) b" by (auto simp: count_limit_def)
  also have "\<dots> \<le> Suc (length others)" using handles_le_size [of "add_mset w (mset others)" b] by simp
  finally show ?thesis by (simp add: crowded_def)
qed

lemma other_type_simps [simp]: "other_type Mutable = Immutable" "other_type Immutable = Mutable"
  by (simp_all add: other_type_def)

lemma kept_or_panic:
  "kept_promise t u s others c w (Completed a) vs s' \<Longrightarrow> kept_promise t u s others (OrPanic c) w (Completed a) vs s'"
  "kept_promise t u s others c w Unwound vs s' \<Longrightarrow> kept_promise t u s others (OrPanic c) w Unwound vs s'"
  "kept_promise t u s others c w OutOfMemory vs s' \<Longrightarrow> kept_promise t u s others (OrPanic c) w Unwound vs s'"
  unfolding kept_promise_def promises_simps gives.simps unwinds.simps by blast+

text \<open>A method that panics where the other one returns an error.\<close>

lemma carries_out_or_panic:
  assumes "carries_out t u others c w m s" "\<And>Q E P. wp m' Q E P s = wp m Q P P s"
  shows "carries_out t u others (OrPanic c) w m' s"
  using assms(1) unfolding carries_out_def assms(2)
  by (auto elim!: wp_mono intro: kept_or_panic)

lemma carries_out_copy:
  assumes u: "unicode_ok u" and snd: "sound t (add_mset (h, r, xs) (mset others)) s"
  shows "carries_out t u others (Copy c) (h, r, xs) (exec t u hs (Copy c) (h, r)) s"
    and "carries_out t u others (OrPanic (Copy c)) (h, r, xs) (exec t u hs (OrPanic (Copy c)) (h, r)) s"
proof -
  let ?R = "add_mset (h, r, xs) (mset others)"
  have full: "crowded t (map meaning_of others)" if "count_limit t ?R r" using that by (rule count_limit_crowded)
  show "carries_out t u others (Copy c) (h, r, xs) (exec t u hs (Copy c) (h, r)) s"
    unfolding carries_out_def exec.simps wp_bind
    by (rule wp_mono [OF copying_sound [OF u snd, of h r xs c]])
      (use snd full in \<open>auto simp: gave_up_def add_mset_commute intro!: kept_one kept_two\<close>)
  show "carries_out t u others (OrPanic (Copy c)) (h, r, xs) (exec t u hs (OrPanic (Copy c)) (h, r)) s"
    unfolding carries_out_def exec.simps exec_or_panic.simps wp_bind
    by (rule wp_mono [OF copying_or_panic_sound [OF u snd, of h r xs c]])
      (use snd full in \<open>auto simp: gave_up_def add_mset_commute intro!: kept_one kept_two\<close>)
qed

text \<open>A copy of the other type: a clone that is converted.\<close>

lemma carries_out_copy_across:
  assumes snd: "sound t (add_mset (h, r, xs) (mset others)) s"
  shows "carries_out t u others CopyAcross (h, r, xs) (exec t u hs CopyAcross (h, r)) s"
proof -
  let ?R = "add_mset (h, r, xs) (mset others)"
  let ?Q = "\<lambda>r'. kept_promise t u s others CopyAcross (h, r, xs) (Completed Done) [(h, r), (other_type h, r')]"
  let ?P = "\<lambda>s'. kept_promise t u s others CopyAcross (h, r, xs) Unwound [(h, r)] s'"
  have full: "?P s" if "count_limit t ?R r"
    using count_limit_crowded [OF that] snd by (auto intro!: kept_one)
  have into: "wp m ?Q E ?P s1"
    if "wp m (\<lambda>r' s'. sound t (add_mset (other_type h, r', xs) ?R) s' \<and> mem_only s1 s') E (gave_up t ?R (length xs) s1) s1"
      and s1: "mem_only s s1" for m s1 E
    using that(1)
    by (rule wp_mono) (use s1 in \<open>auto simp: add_mset_commute gave_up_def intro!: kept_one kept_two
      dest: out_of_memory_mono [OF _ order_refl mem_only_later [OF s1] later_refl]\<close>)
  have mem: "(h, r, xs) \<in># ?R" by simp
  show ?thesis
  proof (cases h)
    case GrowableHeader
    have "wp (lean_clone t r) (\<lambda>x. wp (lean_into_lean_str t x) ?Q E ?P) E ?P s" for E
      by (rule wp_mono [OF lean.clone [OF snd [unfolded GrowableHeader] mem [unfolded GrowableHeader]]])
        (use full in \<open>auto simp: lean_into_lean_str_def GrowableHeader simp del: wp_unwrap_with_msg
          intro!: into [unfolded GrowableHeader other_type_simps] to_lstr.into\<close>)
    then show ?thesis by (simp add: carries_out_def GrowableHeader lstr_from_lean_string_ref_def)
  next
    case ExactHeader
    have "wp (lstr_clone t r) (\<lambda>x. wp (lstr_into_lean_string t x) ?Q E ?P) E ?P s" for E
      by (rule wp_mono [OF lstr.clone [OF snd [unfolded ExactHeader] mem [unfolded ExactHeader]]])
        (use full in \<open>auto simp: lstr_into_lean_string_def ExactHeader simp del: wp_unwrap_with_msg
          intro!: into [unfolded ExactHeader other_type_simps] to_lean.into\<close>)
    then show ?thesis by (simp add: carries_out_def ExactHeader lean_from_lean_str_ref_def)
  qed
qed

text \<open>Editing.\<close>

lemma kept_mutate:
  fixes s :: "repr st" and r :: repr
  shows "returned t (mset others) m xs (s\<lparr>self := r\<rparr>) a s' \<Longrightarrow>
      kept_promise t u s others (Mutate m) (Mutable, r, xs) (Completed a) [(Mutable, self s')] s'"
    and "failed t (mset others) m xs (s\<lparr>self := r\<rparr>) s' \<Longrightarrow>
      kept_promise t u s others (Mutate m) (Mutable, r, xs) OutOfMemory [(Mutable, self s')] s'"
    and "panicked t (mset others) m xs (s\<lparr>self := r\<rparr>) s' \<Longrightarrow>
      kept_promise t u s others (Mutate m) (Mutable, r, xs) Unwound [(Mutable, self s')] s'"
  by (auto simp: returned_def holds_def intro!: kept_one)
    (auto simp: failed_def panicked_def holds_def intro: kept_one [where ys = xs]
      intro!: kept_one [where e = Unwound and ys = "snd (effect t m xs)"] dest: count_limit_crowded)

lemma carries_out_mutate:
  assumes snd: "sound t (add_mset (Mutable, r, xs) (mset others)) s" and ok: "mutation_ok t m"
  shows "carries_out t u others (Mutate m) (Mutable, r, xs) (exec t u hs (Mutate m) (Mutable, r)) s"
    and "carries_out t u others (OrPanic (Mutate m)) (Mutable, r, xs) (exec t u hs (OrPanic (Mutate m)) (Mutable, r)) s"
proof -
  have h: "holds t (mset others) xs (s\<lparr>self := r\<rparr>)" using snd by (simp add: holds_def)
  from wp_mono [OF mutation_sound [OF h ok] kept_mutate]
  show "carries_out t u others (Mutate m) (Mutable, r, xs) (exec t u hs (Mutate m) (Mutable, r)) s"
    by (simp add: carries_out_def)
  show "carries_out t u others (OrPanic (Mutate m)) (Mutable, r, xs) (exec t u hs (OrPanic (Mutate m)) (Mutable, r)) s"
    unfolding carries_out_def exec.simps exec_or_panic.simps wp_on_self snd_conv fst_conv remains.simps
    by (rule wp_mono [OF mutation_or_panic_sound [OF h ok, where E = "\<lambda>_. False"]])
      (auto intro: kept_or_panic kept_mutate)
qed

lemma carries_out_split_off:
  assumes snd: "sound t (add_mset (Mutable, r, xs) (mset others)) s"
  shows "carries_out t u others (SplitOff n) (Mutable, r, xs) (exec t u hs (SplitOff n) (Mutable, r)) s"
proof -
  have "holds t (mset others) xs (s\<lparr>self := r\<rparr>)" using snd by (simp add: holds_def)
  from holds_split_off [OF this, of n] show ?thesis
    unfolding carries_out_def exec.simps wp_on_self_split snd_conv fst_conv
    by (rule wp_mono) (use snd in \<open>auto simp: holds_def add_mset_commute intro!: kept_one kept_two\<close>)
qed

text \<open>What pushes piece by piece may stop in the middle.\<close>

lemma carries_out_extend:
  assumes snd: "sound t (add_mset (Mutable, r, xs) (mset others)) s"
  shows "list_all valid_utf8 yss \<Longrightarrow>
      carries_out t u others (ExtendStrs yss) (Mutable, r, xs) (exec t u hs (ExtendStrs yss) (Mutable, r)) s"
    and "list_all scalar cs \<Longrightarrow>
      carries_out t u others (ExtendChars lower cs) (Mutable, r, xs) (exec t u hs (ExtendChars lower cs) (Mutable, r)) s"
proof -
  have h: "holds t (mset others) xs (s\<lparr>self := r\<rparr>)" using snd by (simp add: holds_def)
  show "carries_out t u others (ExtendStrs yss) (Mutable, r, xs) (exec t u hs (ExtendStrs yss) (Mutable, r)) s"
    if "list_all valid_utf8 yss"
    using holds_extend_strs [OF h that order_refl, where E = "\<lambda>_. False"] unfolding carries_out_def exec.simps wp_on_self
    by (auto simp: holds_def elim!: wp_mono kept_stuck intro!: kept_one)
  show "carries_out t u others (ExtendChars lower cs) (Mutable, r, xs) (exec t u hs (ExtendChars lower cs) (Mutable, r)) s"
    if "list_all scalar cs"
    using holds_extend_chars [where lower = lower, OF h that order_refl, where E = "\<lambda>_. False"] unfolding carries_out_def exec.simps wp_on_self
    by (auto simp: holds_def elim!: wp_mono kept_stuck intro!: kept_one)
qed

lemma carries_out_write_fmt:
  assumes snd: "sound t (add_mset (Mutable, r, xs) (mset others)) s" and ok: "args_ok args"
  shows "carries_out t u others (WriteFmt args) (Mutable, r, xs) (exec t u hs (WriteFmt args) (Mutable, r)) s"
proof -
  let ?s = "s\<lparr>self := r\<rparr>" and ?n = "length xs + length (fmt_written args)"
  have h: "holds t (mset others) xs ?s" using snd by (simp add: holds_def)
  have "wp (lean_write_fmt t args)
    (\<lambda>ok s'. write_end args = Some ok \<and> holds t (mset others) (xs @ fmt_written args) s' \<and> later ?s s') (\<lambda>_. False)
    (\<lambda>s'. stuck t (mset others) ?n ?s s' \<or> (unborrowable t args xs \<and> s' = ?s) \<or>
      (write_end args = None \<and> holds t (mset others) (xs @ fmt_written args) s' \<and> later ?s s')) ?s"
  proof (cases "literal args")
    case None
    with ok have "fmt_valid (formatter args)" by (simp add: args_ok_def)
    from holds_run_formatting [OF h this order_refl, where E = "\<lambda>_. False"] None show ?thesis
      by (auto simp: lean_write_fmt_def write_end_def fmt_written_def elim!: wp_mono)
  next
    case (Some ys)
    with ok have "valid_utf8 ys" by (simp add: args_ok_def)
    from holds_write_fmt_literal [OF h Some this, where E = "\<lambda>_. False"] Some show ?thesis
      by (auto simp: write_end_def fmt_written_def unborrowable_def elim!: wp_mono)
  qed
  moreover have "kept_promise t u s others (WriteFmt args) (Mutable, r, xs) Unwound [(Mutable, self s')] s'"
    if "stuck t (mset others) ?n ?s s'" for s'
    using that by (rule kept_stuck) simp
  moreover have "kept_promise t u s others (WriteFmt args) (Mutable, r, xs) Unwound [(Mutable, r)] ?s"
    if "unborrowable t args xs"
    by (rule kept_one [where ys = xs]) (use that snd in simp_all)
  moreover have "kept_promise t u s others (WriteFmt args) (Mutable, r, xs) Unwound [(Mutable, self s')] s'"
    if "write_end args = None" "holds t (mset others) (xs @ fmt_written args) s'" for s'
    by (rule kept_one [where ys = "xs @ fmt_written args"]) (use that in \<open>simp_all add: holds_def\<close>)
  ultimately show ?thesis unfolding carries_out_def exec.simps wp_on_self wp_answering snd_conv fst_conv
    by (elim wp_mono) (auto simp: holds_def intro: kept_one)
qed

text \<open>\<^verbatim>\<open>clone_from\<close>: the value is released and shares the buffer of the source.\<close>

definition clone_over :: "target \<Rightarrow> header \<Rightarrow> repr \<Rightarrow> (repr st, unit) prog" where
  "clone_over t h source = bind (make_shallow_clone t h source) (\<lambda>other. replace_inner t h other)"

lemma clone_over_eq:
  "lean_clone_from t q = clone_over t Mutable q" "lstr_clone_from t q = clone_over t Immutable q"
  by (simp_all add: lean_clone_from_def lstr_clone_from_def clone_over_def)

lemma sound_clone_over:
  fixes s :: "repr st"
  assumes snd: "sound t (add_mset (h, self s, xs) R) s" and q: "(h, q, ys) \<in># R"
  shows "wp (clone_over t h q) (\<lambda>_ s'. sound t (add_mset (h, self s', ys) R) s' \<and> self s' = q) E
    (\<lambda>s'. s' = s \<and> count_limit t (add_mset (h, self s, xs) R) q) s"
    (is "wp _ ?Q E ?P s")
proof -
  let ?R = "add_mset (h, self s, xs) R"
  have "wp (make_shallow_clone t h q) (\<lambda>r. wp (replace_inner t h r) ?Q E ?P) E ?P s"
  proof (rule wp_mono [OF sound_make_shallow_clone [OF snd, of h q ys]])
    fix r s1
    assume s1: "r = q \<and> \<not> count_limit t ?R q \<and> sound t (add_mset (h, q, ys) ?R) s1 \<and> mem_only s s1 \<and>
      calls s1 = calls s"
    then have "self s1 = self s" by (simp add: mem_only_def)
    with s1 have "sound t (add_mset (h, self s1, xs) (add_mset (h, q, ys) R)) s1"
      by (simp add: add_mset_commute)
    from sound_replace_inner [OF this] show "wp (replace_inner t h r) ?Q E ?P s1"
      by (rule wp_mono) (use s1 in auto)
  qed (use q in auto)
  then show ?thesis by (simp add: clone_over_def)
qed

text \<open>Another value of the configuration.\<close>

lemma other_owner:
  assumes "j < length others"
  obtains q ys where "others ! j = (fst (others ! j), q, ys)" "(fst (others ! j), q, ys) \<in># mset others"
    "map handle_of others ! j = (fst (others ! j), q)" "map meaning_of others ! j = (fst (others ! j), ys)"
proof -
  obtain h q ys where w: "others ! j = (h, q, ys)" by (cases "others ! j")
  with nth_mem_mset [OF assms] that [of q ys] assms show ?thesis by simp
qed

lemma carries_out_clone_from:
  assumes snd: "sound t (add_mset (h, r, xs) (mset others)) s" and j: "j < length others" "fst (others ! j) = h"
  shows "carries_out t u others (CloneFrom j) (h, r, xs) (exec t u (map handle_of others) (CloneFrom j) (h, r)) s"
proof -
  from j(1) obtain q ys where w: "others ! j = (fst (others ! j), q, ys)" "(fst (others ! j), q, ys) \<in># mset others"
    "map handle_of others ! j = (fst (others ! j), q)" "map meaning_of others ! j = (fst (others ! j), ys)"
    by (rule other_owner)
  then have q: "(h, q, ys) \<in># mset others" "snd (map handle_of others ! j) = q" "snd (map meaning_of others ! j) = ys"
    using j by (metis, simp_all)
  have "sound t (add_mset (h, self (s\<lparr>self := r\<rparr>), xs) (mset others)) (s\<lparr>self := r\<rparr>)" using snd by simp
  from sound_clone_over [OF this q(1), where E = "\<lambda>_. False"]
  have "wp (clone_over t h q)
    (\<lambda>_ s'. kept_promise t u s others (CloneFrom j) (h, r, xs) (Completed Done) [(h, self s')] s') (\<lambda>_. False)
    (\<lambda>s'. kept_promise t u s others (CloneFrom j) (h, r, xs) Unwound [(h, self s')] s') (s\<lparr>self := r\<rparr>)"
    by (rule wp_mono) (use snd q(3) in \<open>auto intro!: kept_one dest: count_limit_crowded\<close>)
  moreover have "exec t u (map handle_of others) (CloneFrom j) (h, r) = on_self (h, r) (silently (clone_over t h q))"
    by (cases h) (simp_all add: clone_over_eq q(2))
  ultimately show ?thesis by (auto simp: carries_out_def elim!: wp_mono)
qed

text \<open>Methods that take the operand by value.\<close>

lemma carries_out_consume:
  assumes snd: "sound t (add_mset (h, r, xs) (mset others)) s"
  shows "carries_out t u others Drop (h, r, xs) (exec t u hs Drop (h, r)) s"
    and "carries_out t u others Convert (h, r, xs) (exec t u hs Convert (h, r)) s"
    and "carries_out t u others IntoString (h, r, xs) (exec t u hs IntoString (h, r)) s"
    and "carries_out t u others IntoCow (h, r, xs) (exec t u hs IntoCow (h, r)) s"
    and "h = Mutable \<Longrightarrow> valid_utf8 ys \<Longrightarrow>
      carries_out t u others (Add ys) (h, r, xs) (exec t u hs (Add ys) (h, r)) s"
proof -
  show "carries_out t u others Drop (h, r, xs) (exec t u hs Drop (h, r)) s"
    using sound_drop_in [OF snd, where E = "\<lambda>_. False" and P = "\<lambda>_. False"]
    by (cases h) (auto simp: carries_out_def lean_drop_def lstr_drop_def elim!: wp_mono intro!: kept_none)
  show "carries_out t u others Convert (h, r, xs) (exec t u hs Convert (h, r)) s"
  proof (cases h)
    case GrowableHeader
    from to_lstr.try_into [OF snd [unfolded GrowableHeader], where P = "\<lambda>_. False"] show ?thesis
      by (auto simp: carries_out_def GrowableHeader gave_up_def elim!: wp_mono intro!: kept_none kept_one)
  next
    case ExactHeader
    from to_lean.try_into [OF snd [unfolded ExactHeader], where P = "\<lambda>_. False"] show ?thesis
      by (auto simp: carries_out_def ExactHeader gave_up_def elim!: wp_mono intro!: kept_none kept_one)
  qed
  show "carries_out t u others IntoString (h, r, xs) (exec t u hs IntoString (h, r)) s"
    by (auto simp: carries_out_def intro!: kept_none
      wp_mono [OF sound_into_string [OF snd, where E = "\<lambda>_. False" and P = "\<lambda>_. False"]])
  show "carries_out t u others IntoCow (h, r, xs) (exec t u hs IntoCow (h, r)) s"
    by (auto simp: carries_out_def cow_text_def intro!: kept_none
      wp_mono [OF sound_into_cow [OF snd, where E = "\<lambda>_. False" and P = "\<lambda>_. False"]])
  show "carries_out t u others (Add ys) (h, r, xs) (exec t u hs (Add ys) (h, r)) s" if "h = Mutable" "valid_utf8 ys"
    using sound_add [OF snd [unfolded that(1)] that(2), where E = "\<lambda>_. False"]
    by (auto simp: carries_out_def gave_up_def that(1) elim!: wp_mono intro!: kept_none kept_one)
qed

text \<open>Methods that only read.\<close>

lemma carries_out_look:
  assumes snd: "sound t (add_mset (h, r, xs) (mset others)) s"
  shows "reading_ok q h \<Longrightarrow> carries_out t u others (Read q) (h, r, xs) (exec t u hs (Read q) (h, r)) s"
    and "j < length others \<Longrightarrow> comparison_ok c h (fst (others ! j)) \<Longrightarrow>
      carries_out t u others (Compare c j) (h, r, xs) (exec t u (map handle_of others) (Compare c j) (h, r)) s"
proof -
  have mem: "(h, r, xs) \<in># add_mset (h, r, xs) (mset others)" by simp
  show "carries_out t u others (Read q) (h, r, xs) (exec t u hs (Read q) (h, r)) s" if "reading_ok q h"
    using reading_sound [OF snd mem that, where E = "\<lambda>_. False" and P = "\<lambda>_. False"] snd
    by (auto simp: carries_out_def elim!: wp_mono intro!: kept_one)
  show "carries_out t u others (Compare c j) (h, r, xs) (exec t u (map handle_of others) (Compare c j) (h, r)) s"
    if j: "j < length others" and ok: "comparison_ok c h (fst (others ! j))"
  proof -
    from j obtain q ys where w: "others ! j = (fst (others ! j), q, ys)" "(fst (others ! j), q, ys) \<in># mset others"
      "map handle_of others ! j = (fst (others ! j), q)" "map meaning_of others ! j = (fst (others ! j), ys)"
      by (rule other_owner)
    then have "(fst (others ! j), q, ys) \<in># add_mset (h, r, xs) (mset others)" by simp
    from comparison_sound [OF snd mem this ok, where E = "\<lambda>_. False" and P = "\<lambda>_. False"] show ?thesis
      unfolding carries_out_def exec.simps w(3) wp_bind
      by (rule wp_mono) (use snd w(4) in \<open>auto intro!: kept_one\<close>)
  qed
qed

lemma carries_out_panicking:
  assumes u: "unicode_ok u" and snd: "sound t (add_mset (h, r, xs) (mset others)) s"
    and ok: "has_two_forms c" "permitted t (map fst others) c h"
  shows "carries_out t u others (OrPanic c) (h, r, xs) (exec t u hs (OrPanic c) (h, r)) s"
proof (cases c)
  case (Copy x)
  with carries_out_copy(2) [OF u snd] show ?thesis by simp
next
  case Convert
  show ?thesis unfolding Convert
    by (rule carries_out_or_panic [OF carries_out_consume(2) [OF snd, of u hs]])
      (cases h, simp_all add: lean_into_lean_str_def lstr_into_lean_string_def)
next
  case (Mutate m)
  with ok carries_out_mutate(2) [of t r xs others s m u hs] snd show ?thesis by simp
next
  case (SplitOff n)
  with ok have h: "h = Mutable" by simp
  show ?thesis unfolding SplitOff h
    by (rule carries_out_or_panic [OF carries_out_split_off [OF snd [unfolded h], of u n hs]])
      (simp add: lean_split_off_def)
qed (use ok in simp_all)

text \<open>Every command that the type checker permits is carried out.\<close>

lemma exec_sound:
  assumes u: "unicode_ok u" and snd: "sound t (add_mset w (mset others)) s"
    and ok: "permitted t (map fst others) c (fst w)"
  shows "carries_out t u others c w (exec t u (map handle_of others) c (handle_of w)) s"
proof -
  obtain h r xs where w: "w = (h, r, xs)" by (cases w)
  note snd' = snd [unfolded w]
  show ?thesis
  proof (cases c)
    case (OrPanic c')
    with ok w carries_out_panicking [OF u snd', of c'] show ?thesis by simp
  next
    case (CloneFrom j)
    with ok w carries_out_clone_from [OF snd'] show ?thesis by auto
  next
    case (Compare q j)
    with ok w carries_out_look(2) [OF snd'] show ?thesis by auto
  qed (use ok w snd' u in \<open>auto intro: carries_out_copy(1) carries_out_copy_across carries_out_mutate(1)
      carries_out_split_off carries_out_extend carries_out_write_fmt carries_out_consume carries_out_look(1)
      simp del: exec.simps\<close>)
qed

end
