(* ===== verification/Execution.thy ===== *)
theory Execution
  imports System
begin

text \<open>
  Runs of a program that uses the crate, as an inductive step relation on configurations, next to
  the relation of the specification. The simulation carries over to every reachable configuration;
  from it follow safety (no configuration is \<open>Crashed\<close>), the exactness of the reference counts,
  the absence of leaks, and that a step changes no other value.
\<close>

section \<open>Steps\<close>

datatype config =
    Running "handle list" "repr st"
  | Crashed

datatype event =
    Create origin ending
  | Call nat command ending
  | Gather gathering "nat list" ending
  | Fault

inductive step :: "target \<Rightarrow> unicode \<Rightarrow> config \<Rightarrow> event \<Rightarrow> config \<Rightarrow> bool" for t :: target and u :: unicode where
  created: "source_ok t src \<Longrightarrow> run_source t src s = Ret (Some r) s' \<Longrightarrow>
    step t u (Running V s) (Create src (Completed Done)) (Running ((source_header src, r) # V) s')"
| create_rejected: "source_ok t src \<Longrightarrow> run_source t src s = Ret None s' \<Longrightarrow>
    step t u (Running V s) (Create src Rejected) (Running V s')"
| create_failed: "source_ok t src \<Longrightarrow> run_source t src s = Fail s' \<Longrightarrow>
    step t u (Running V s) (Create src OutOfMemory) (Running V s')"
| create_panicked: "source_ok t src \<Longrightarrow> run_source t src s = Panic s' \<Longrightarrow>
    step t u (Running V s) (Create src Unwound) (Running V s')"
| create_faulted: "source_ok t src \<Longrightarrow> run_source t src s = Undef \<Longrightarrow>
    step t u (Running V s) Fault Crashed"
| returned: "permitted t (map fst (V1 @ V2)) c (fst v) \<Longrightarrow> exec t u (V1 @ V2) c v s = Ret (a, vs) s' \<Longrightarrow>
    step t u (Running (V1 @ v # V2) s) (Call (length V1) c (Completed a)) (Running (V1 @ vs @ V2) s')"
| failed: "permitted t (map fst (V1 @ V2)) c (fst v) \<Longrightarrow> exec t u (V1 @ V2) c v s = Fail s' \<Longrightarrow>
    step t u (Running (V1 @ v # V2) s) (Call (length V1) c OutOfMemory)
      (Running (V1 @ remains c v s' @ V2) s')"
| panicked: "permitted t (map fst (V1 @ V2)) c (fst v) \<Longrightarrow> exec t u (V1 @ V2) c v s = Panic s' \<Longrightarrow>
    step t u (Running (V1 @ v # V2) s) (Call (length V1) c Unwound)
      (Running (V1 @ remains c v s' @ V2) s')"
| faulted: "permitted t (map fst (V1 @ V2)) c (fst v) \<Longrightarrow> exec t u (V1 @ V2) c v s = Undef \<Longrightarrow>
    step t u (Running (V1 @ v # V2) s) Fault Crashed"
| gathered: "can_pick js (length V) \<Longrightarrow> gathering_ok g (map fst (picked js V)) \<Longrightarrow>
    run_gathering t g (picked js V) s = Ret (a, vs) s' \<Longrightarrow>
    step t u (Running V s) (Gather g js (Completed a)) (Running (vs @ unpicked js V) s')"
| gather_failed: "can_pick js (length V) \<Longrightarrow> gathering_ok g (map fst (picked js V)) \<Longrightarrow>
    run_gathering t g (picked js V) s = Fail s' \<Longrightarrow>
    step t u (Running V s) (Gather g js OutOfMemory) (Running (left_over g s' @ unpicked js V) s')"
| gather_panicked: "can_pick js (length V) \<Longrightarrow> gathering_ok g (map fst (picked js V)) \<Longrightarrow>
    run_gathering t g (picked js V) s = Panic s' \<Longrightarrow>
    step t u (Running V s) (Gather g js Unwound) (Running (left_over g s' @ unpicked js V) s')"
| gather_faulted: "can_pick js (length V) \<Longrightarrow> gathering_ok g (map fst (picked js V)) \<Longrightarrow>
    run_gathering t g (picked js V) s = Undef \<Longrightarrow> step t u (Running V s) Fault Crashed"

inductive_cases step_CreateE: "step t u C (Create src e) C'"
inductive_cases step_CallE: "step t u C (Call i c e) C'"
inductive_cases step_GatherE: "step t u C (Gather g js e) C'"
inductive_cases step_FaultE: "step t u C Fault C'"
inductive_simps step_Crashed [simp]: "step t u Crashed e C'"

text \<open>The specification: a value is its type and its text.\<close>

inductive spec_step :: "target \<Rightarrow> unicode \<Rightarrow> (nat \<Rightarrow> bool) \<Rightarrow> meaning list \<Rightarrow> event \<Rightarrow> meaning list \<Rightarrow> bool"
  for t :: target and u :: unicode and starved :: "nat \<Rightarrow> bool"
where
  spec_created: "source_promises t starved src (Completed a) \<Longrightarrow>
    spec_step t u starved W (Create src (Completed a)) ((source_header src, source_text src) # W)"
| spec_refused: "source_promises t starved src e \<Longrightarrow> e \<in> {Rejected, OutOfMemory, Unwound} \<Longrightarrow>
    spec_step t u starved W (Create src e) W"
| spec_called: "promises t u starved (W1 @ W2) c w e ws \<Longrightarrow>
    spec_step t u starved (W1 @ w # W2) (Call (length W1) c e) (W1 @ ws @ W2)"
| spec_gathered: "can_pick js (length W) \<Longrightarrow> gathering_promises starved g (picked js W) e us \<Longrightarrow>
    spec_step t u starved W (Gather g js e) (us @ unpicked js W)"

inductive_simps spec_step_Fault [simp]: "spec_step t u starved W Fault W'"
inductive_cases spec_step_CreateE: "spec_step t u starved W (Create src e) W'"
inductive_cases spec_step_CallE: "spec_step t u starved W (Call i c e) W'"
inductive_cases spec_step_GatherE: "spec_step t u starved W (Gather g js e) W'"

text \<open>Runs start with no value and no allocation, whatever the allocator will do.\<close>

definition blank :: "repr st \<Rightarrow> bool" where
  "blank s \<longleftrightarrow> (\<forall>b. blocks s b = None)"

inductive reachable :: "target \<Rightarrow> unicode \<Rightarrow> config \<Rightarrow> bool" for t :: target and u :: unicode where
  start: "blank s \<Longrightarrow> reachable t u (Running [] s)"
| more: "reachable t u C \<Longrightarrow> step t u C e C' \<Longrightarrow> reachable t u C'"

inductive spec_reachable :: "target \<Rightarrow> unicode \<Rightarrow> meaning list \<Rightarrow> bool" for t :: target and u :: unicode where
  spec_start: "spec_reachable t u []"
| spec_more: "spec_reachable t u W \<Longrightarrow> spec_step t u starved W e W' \<Longrightarrow> spec_reachable t u W'"

section \<open>Simulation\<close>

fun stands_for :: "target \<Rightarrow> config \<Rightarrow> meaning list \<Rightarrow> bool" where
  "stands_for t (Running V s) W \<longleftrightarrow>
    (\<exists>ws. map handle_of ws = V \<and> map meaning_of ws = W \<and> sound t (mset ws) s)"
| "stands_for t Crashed W \<longleftrightarrow> False"

fun memory :: "config \<Rightarrow> repr st option" where
  "memory (Running V s) = Some s"
| "memory Crashed = None"

text \<open>Memory for \<open>n\<close> bytes was refused between two configurations.\<close>

definition starved :: "target \<Rightarrow> config \<Rightarrow> config \<Rightarrow> nat \<Rightarrow> bool" where
  "starved t C C' n \<longleftrightarrow> (case (memory C, memory C') of
     (Some s, Some s') \<Rightarrow> out_of_memory t n s s' | _ \<Rightarrow> False)"

lemma starved_Running [simp]: "starved t (Running V s) (Running V' s') = (\<lambda>n. out_of_memory t n s s')"
  by (simp add: starved_def fun_eq_iff)

lemma stands_for_blank: "blank s \<Longrightarrow> stands_for t (Running [] s) []"
  by (auto simp: blank_def sound_def heap_rep_def owns_def fun_eq_iff intro!: exI [of _ "\<lambda>_. None"])

text \<open>A decomposition of the values gives one of the owners.\<close>

lemma split_owners:
  assumes "map handle_of ws = V1 @ v # V2"
  obtains ws1 w ws2 where "ws = ws1 @ w # ws2" "map handle_of ws1 = V1" "handle_of w = v" "map handle_of ws2 = V2"
  using assms by (auto simp: map_eq_append_conv map_eq_Cons_conv)

lemma handles_fst: "map handle_of ws = V \<Longrightarrow> map fst ws = map fst V"
  by (auto simp: handle_of_def)

text \<open>The specification can follow event \<open>e\<close> from \<open>W\<close> to something the new configuration stands
  for.\<close>

definition followed :: "target \<Rightarrow> unicode \<Rightarrow> config \<Rightarrow> meaning list \<Rightarrow> event \<Rightarrow> config \<Rightarrow> bool" where
  "followed t u C W e C' \<longleftrightarrow> (\<exists>W'. spec_step t u (starved t C C') W e W' \<and> stands_for t C' W')"

lemma exec_followed:
  assumes u: "unicode_ok u" and st: "stands_for t (Running (V1 @ v # V2) s) W"
    and ok: "permitted t (map fst (V1 @ V2)) c (fst v)"
  defines "C \<equiv> Running (V1 @ v # V2) s"
  shows "wp (exec t u (V1 @ V2) c v)
    (\<lambda>p s'. followed t u C W (Call (length V1) c (Completed (fst p))) (Running (V1 @ snd p @ V2) s'))
    (\<lambda>s'. followed t u C W (Call (length V1) c OutOfMemory) (Running (V1 @ remains c v s' @ V2) s'))
    (\<lambda>s'. followed t u C W (Call (length V1) c Unwound) (Running (V1 @ remains c v s' @ V2) s')) s"
proof -
  from st obtain ws where ws: "map handle_of ws = V1 @ v # V2" "map meaning_of ws = W" "sound t (mset ws) s"
    by auto
  from ws(1) obtain ws1 w ws2 where d: "ws = ws1 @ w # ws2" "map handle_of ws1 = V1" "handle_of w = v"
    "map handle_of ws2 = V2" by (rule split_owners)
  let ?o = "ws1 @ ws2"
  let ?W1 = "map meaning_of ws1" and ?W2 = "map meaning_of ws2"
  have others: "map handle_of ?o = V1 @ V2" "map meaning_of ?o = ?W1 @ ?W2" using d by simp_all
  have snd: "sound t (add_mset w (mset ?o)) s" using ws(3) d(1) by simp
  have ok': "permitted t (map fst ?o) c (fst w)"
    using ok d(3) handles_fst [OF others(1)] by (auto simp: handle_of_def)
  have W: "W = ?W1 @ meaning_of w # ?W2" "length V1 = length ?W1" using ws(2) d(1,2) by auto
  have "followed t u C W (Call (length V1) c e) (Running (V1 @ vs @ V2) s')"
    if k: "kept_promise t u s ?o c w e vs s'" for e vs s'
  proof -
    from k obtain ns where ns: "map handle_of ns = vs" "sound t (mset ns + mset ?o) s'"
      "promises t u (\<lambda>n. out_of_memory t n s s') (?W1 @ ?W2) c (meaning_of w) e (map meaning_of ns)"
      unfolding kept_promise_def others(2) by blast
    have "mset (ws1 @ ns @ ws2) = mset ns + mset ?o" by simp
    with ns(1,2) d(2,4) have "stands_for t (Running (V1 @ vs @ V2) s') (?W1 @ map meaning_of ns @ ?W2)"
      unfolding stands_for.simps by (intro exI [of _ "ws1 @ ns @ ws2"]) (simp add: add_ac)
    with spec_called [OF ns(3)] show ?thesis unfolding followed_def C_def starved_Running W by blast
  qed
  note step = this
  show ?thesis
    by (rule wp_mono [OF exec_sound [OF u snd ok', unfolded others d(3) carries_out_def]]) (rule step, assumption)+
qed

lemma source_followed:
  assumes st: "stands_for t (Running V s) W" and ok: "source_ok t src"
  defines "C \<equiv> Running V s"
  shows "wp (run_source t src)
    (\<lambda>res s'. case res of
        Some r \<Rightarrow> followed t u C W (Create src (Completed Done)) (Running ((source_header src, r) # V) s')
      | None \<Rightarrow> followed t u C W (Create src Rejected) (Running V s'))
    (\<lambda>s'. followed t u C W (Create src OutOfMemory) (Running V s'))
    (\<lambda>s'. followed t u C W (Create src Unwound) (Running V s')) s"
proof -
  from st obtain ws where ws: "map handle_of ws = V" "map meaning_of ws = W" "sound t (mset ws) s" by auto
  have none: "followed t u C W (Create src e) (Running V s')"
    if "sound t (mset ws) s'" "source_promises t (\<lambda>n. out_of_memory t n s s') src e"
      "e \<in> {Rejected, OutOfMemory, Unwound}" for e s'
  proof -
    have "stands_for t (Running V s') W" using ws that(1) by auto
    with spec_refused [OF that(2,3)] show ?thesis unfolding followed_def C_def starved_Running by blast
  qed
  have one: "followed t u C W (Create src (Completed Done)) (Running ((source_header src, r) # V) s')"
    if "begun t (mset ws) src (Some r) s'" for r s'
  proof -
    from that have "stands_for t (Running ((source_header src, r) # V) s') ((source_header src, source_text src) # W)"
      using ws by (auto intro!: exI [of _ "(source_header src, r, source_text src) # ws"])
    moreover have "source_promises t (\<lambda>n. out_of_memory t n s s') src (Completed Done)" using that by simp
    ultimately show ?thesis unfolding followed_def C_def starved_Running by (blast intro: spec_created)
  qed
  show ?thesis
    by (rule wp_mono [OF sound_source [OF ws(3) ok]])
      (auto simp: broken_off_def intro: one none split: option.split)
qed

lemma gathering_followed:
  assumes st: "stands_for t (Running V s) W" and js: "can_pick js (length V)"
    and ok: "gathering_ok g (map fst (picked js V))"
  defines "C \<equiv> Running V s"
  shows "wp (run_gathering t g (picked js V))
    (\<lambda>p s'. followed t u C W (Gather g js (Completed (fst p))) (Running (snd p @ unpicked js V) s')) (\<lambda>_. False)
    (\<lambda>s'. followed t u C W (Gather g js Unwound) (Running (left_over g s' @ unpicked js V) s')) s"
proof -
  from st obtain ws where ws: "map handle_of ws = V" "map meaning_of ws = W" "sound t (mset ws) s" by auto
  let ?ps = "picked js ws" and ?qs = "unpicked js ws"
  have can: "can_pick js (length ws)" "can_pick js (length W)" using js ws(1,2) by auto
  have ps: "map handle_of ?ps = picked js V" "map meaning_of ?ps = picked js W"
    using map_picked [OF can(1), of handle_of] map_picked [OF can(1), of meaning_of] ws(1,2) by simp_all
  have qs: "map handle_of ?qs = unpicked js V" "map meaning_of ?qs = unpicked js W"
    using map_unpicked [of handle_of js ws] map_unpicked [of meaning_of js ws] ws(1,2) by simp_all
  have snd: "sound t (mset ?ps + mset ?qs) s" using ws(3) mset_picked [OF can(1)] by simp
  have "followed t u C W (Gather g js e) (Running (vs @ unpicked js V) s')"
    if k: "gathered t (mset ?qs) g ?ps s e vs s'" for e vs s'
  proof -
    from k obtain ns where ns: "map handle_of ns = vs" "sound t (mset ns + mset ?qs) s'"
      "gathering_promises (\<lambda>n. out_of_memory t n s s') g (picked js W) e (map meaning_of ns)"
      unfolding gathered_def ps(2) by blast
    have "stands_for t (Running (vs @ unpicked js V) s') (map meaning_of ns @ unpicked js W)"
      unfolding stands_for.simps by (intro exI [of _ "ns @ ?qs"]) (simp add: ns(1,2) qs)
    with spec_gathered [OF can(2) ns(3)] show ?thesis unfolding followed_def C_def starved_Running by blast
  qed
  note step = this
  have "gathering_ok g (map fst ?ps)" using ok handles_fst [OF ps(1)] by simp
  then show ?thesis
    by (rule wp_mono [OF sound_gathering [OF snd, where E = "\<lambda>_. False", unfolded ps(1)]]) (rule step | assumption)+
qed

text \<open>One step, whatever happens in it, is a step of the specification.\<close>

lemma step_followed:
  assumes st: "step t u C e C'" and u: "unicode_ok u" and W: "stands_for t C W"
  shows "followed t u C W e C'"
  using st
proof cases
  case (created src s r s' V)
  from source_followed [OF W [unfolded created(1)] created(4)] created show ?thesis by (simp add: wp_Ret)
next
  case (create_rejected src s s' V)
  from source_followed [OF W [unfolded create_rejected(1)] create_rejected(4)] create_rejected show ?thesis
    by (simp add: wp_Ret)
next
  case (create_failed src s s' V)
  from source_followed [OF W [unfolded create_failed(1)] create_failed(4)] create_failed show ?thesis
    by (simp add: wp_def)
next
  case (create_panicked src s s' V)
  from source_followed [OF W [unfolded create_panicked(1)] create_panicked(4)] create_panicked show ?thesis
    by (simp add: wp_def)
next
  case (create_faulted src s V)
  from source_followed [OF W [unfolded create_faulted(1)] create_faulted(4)] create_faulted show ?thesis
    by (simp add: wp_def)
next
  case (returned V1 V2 c v s a vs s')
  from exec_followed [OF u W [unfolded returned(1)] returned(4)] returned show ?thesis by (simp add: wp_Ret)
next
  case (failed V1 V2 c v s s')
  from exec_followed [OF u W [unfolded failed(1)] failed(4)] failed show ?thesis by (simp add: wp_def)
next
  case (panicked V1 V2 c v s s')
  from exec_followed [OF u W [unfolded panicked(1)] panicked(4)] panicked show ?thesis by (simp add: wp_def)
next
  case (faulted V1 V2 c v s)
  from exec_followed [OF u W [unfolded faulted(1)] faulted(4)] faulted show ?thesis by (simp add: wp_def)
next
  case (gathered js V g s a vs s')
  from gathering_followed [OF W [unfolded gathered(1)] gathered(4,5)] gathered show ?thesis by (simp add: wp_Ret)
next
  case (gather_failed js V g s s')
  from gathering_followed [OF W [unfolded gather_failed(1)] gather_failed(4,5)] gather_failed show ?thesis
    by (simp add: wp_def)
next
  case (gather_panicked js V g s s')
  from gathering_followed [OF W [unfolded gather_panicked(1)] gather_panicked(4,5)] gather_panicked show ?thesis
    by (simp add: wp_def)
next
  case (gather_faulted js V g s)
  from gathering_followed [OF W [unfolded gather_faulted(1)] gather_faulted(4,5)] gather_faulted show ?thesis
    by (simp add: wp_def)
qed

lemma reachable_stands_for:
  assumes "reachable t u C" "unicode_ok u"
  shows "\<exists>W. stands_for t C W \<and> spec_reachable t u W"
  using assms(1)
proof induction
  case (start s)
  then show ?case using stands_for_blank spec_start by blast
next
  case (more C e C')
  then show ?case using step_followed [OF _ assms(2)] spec_more unfolding followed_def by blast
qed

section \<open>Consequences\<close>

lemma reachable_owners:
  assumes "reachable t u (Running V s)" "unicode_ok u"
  obtains ws where "map handle_of ws = V" "sound t (mset ws) s"
  using reachable_stands_for [OF assms] by auto

text \<open>What the values of a configuration say they are when they are read.\<close>

definition reads :: "target \<Rightarrow> config \<Rightarrow> nat \<Rightarrow> byte list \<Rightarrow> bool" where
  "reads t C i xs \<longleftrightarrow> (case C of
     Running V s \<Rightarrow> i < length V \<and> as_str t (fst (V ! i)) (snd (V ! i)) s = Ret xs s
   | Crashed \<Rightarrow> False)"

lemma stands_for_reads:
  assumes "stands_for t C W"
  shows "reads t C i xs \<longleftrightarrow> i < length W \<and> snd (W ! i) = xs"
proof -
  from assms obtain V s ws where C: "C = Running V s" "map handle_of ws = V" "map meaning_of ws = W"
    "sound t (mset ws) s" by (cases C) auto
  then have len: "length V = length W" by auto
  show ?thesis
  proof (cases "i < length W")
    case True
    with C len have i: "i < length ws" by auto
    obtain h r ys where w: "ws ! i = (h, r, ys)" by (cases "ws ! i")
    then have "(h, r, ys) \<in># mset ws" using nth_mem_mset [OF i] by simp
    from sound_as_str [OF C(4) this, of "\<lambda>x s'. x = ys \<and> s' = s" "\<lambda>_. False" "\<lambda>_. False"]
    have "as_str t h r s = Ret ys s" by (simp add: wp_Ret_iff)
    with True C i w show ?thesis by (auto simp: reads_def)
  next
    case False
    with C len show ?thesis by (simp add: reads_def)
  qed
qed

text \<open>A method on one value leaves the text of every other value alone, also when they share a
  buffer. The values behind the operand move up when it is replaced by more than one value.\<close>

lemma others_unchanged:
  assumes st: "step t u (Running V s) (Call i c e) (Running V' s')" and r: "reachable t u (Running V s)"
    and u: "unicode_ok u" and j: "j \<noteq> i" and x: "reads t (Running V s) j xs"
  shows "reads t (Running V' s') (if j < i then j else j + length V' - length V) xs"
proof -
  from reachable_stands_for [OF r u] obtain W where W: "stands_for t (Running V s) W" by blast
  from step_followed [OF st u W] obtain W' where
    W': "spec_step t u (starved t (Running V s) (Running V' s')) W (Call i c e) W'"
    "stands_for t (Running V' s') W'" unfolding followed_def by blast
  from W'(1) obtain W1 w W2 ws where d: "W = W1 @ w # W2" "i = length W1" "W' = W1 @ ws @ W2"
    by (rule spec_step_CallE)
  have len: "length V = length W" "length V' = length W'" using W W'(2) by auto
  show ?thesis
  proof (cases "j < i")
    case True
    with x d show ?thesis by (simp add: stands_for_reads [OF W] stands_for_reads [OF W'(2)] nth_append)
  next
    case False
    with j d(2) obtain k where k: "j = Suc (length W1 + k)" by (metis less_iff_Suc_add linorder_neqE_nat)
    with x d(1) have "k < length W2" "snd (W2 ! k) = xs" by (simp_all add: stands_for_reads [OF W] nth_append)
    moreover have "j + length V' - length V = length W1 + length ws + k" using k d len by simp
    ultimately show ?thesis using False d(3) by (simp add: stands_for_reads [OF W'(2)] nth_append)
  qed
qed

section \<open>Progress\<close>

text \<open>A call the type checker permits always has an outcome, and it is not a fault.\<close>

lemma call_has_outcome:
  assumes r: "reachable t u (Running (V1 @ v # V2) s)" and u: "unicode_ok u"
    and ok: "permitted t (map fst (V1 @ V2)) c (fst v)"
  shows "\<exists>e C'. step t u (Running (V1 @ v # V2) s) (Call (length V1) c e) C'"
proof -
  from reachable_stands_for [OF r u] obtain W where W: "stands_for t (Running (V1 @ v # V2) s) W" by blast
  from exec_followed [OF u W ok] have "exec t u (V1 @ V2) c v s \<noteq> Undef" by (rule wp_not_Undef)
  then show ?thesis
  proof (cases "exec t u (V1 @ V2) c v s")
    case (Ret p s')
    with step.returned [OF ok, of u s "fst p" "snd p" s'] show ?thesis by auto
  qed (use step.failed [OF ok] step.panicked [OF ok] in blast)+
qed

text \<open>So has the creation of a value, and gathering.\<close>

lemma create_has_outcome:
  assumes r: "reachable t u (Running V s)" and u: "unicode_ok u" and ok: "source_ok t src"
  shows "\<exists>e C'. step t u (Running V s) (Create src e) C'"
proof -
  from reachable_stands_for [OF r u] obtain W where W: "stands_for t (Running V s) W" by blast
  have "run_source t src s \<noteq> Undef" using source_followed [OF W ok, of u] by (rule wp_not_Undef)
  then show ?thesis
  proof (cases "run_source t src s")
    case (Ret res s')
    then show ?thesis by (cases res) (use step.created [OF ok] step.create_rejected [OF ok] in blast)+
  qed (use step.create_failed [OF ok] step.create_panicked [OF ok] in blast)+
qed

lemma gather_has_outcome:
  assumes r: "reachable t u (Running V s)" and u: "unicode_ok u"
    and js: "can_pick js (length V)" "gathering_ok g (map fst (picked js V))"
  shows "\<exists>e C'. step t u (Running V s) (Gather g js e) C'"
proof -
  from reachable_stands_for [OF r u] obtain W where W: "stands_for t (Running V s) W" by blast
  have "run_gathering t g (picked js V) s \<noteq> Undef" using gathering_followed [OF W js, of u] by (rule wp_not_Undef)
  then show ?thesis
  proof (cases "run_gathering t g (picked js V) s")
    case (Ret p s')
    with step.gathered [OF js, of t s "fst p" "snd p" s' u] show ?thesis by auto
  qed (use step.gather_failed [OF js] step.gather_panicked [OF js] in blast)+
qed

text \<open>The only reasons not to complete: no memory, an argument out of range, a formatter that panics,
  too many values.\<close>

fun in_range_call :: "target \<Rightarrow> command \<Rightarrow> byte list \<Rightarrow> bool" where
  "in_range_call t (Mutate m) xs \<longleftrightarrow> fst (effect t m xs)"
| "in_range_call t (SplitOff n) xs \<longleftrightarrow> is_char_boundary xs n"
| "in_range_call t (WriteFmt args) xs \<longleftrightarrow> write_end args \<noteq> None \<and> \<not> unborrowable t args xs"
| "in_range_call t (OrPanic c) xs \<longleftrightarrow> in_range_call t c xs"
| "in_range_call t c xs \<longleftrightarrow> True"

fun call_demand :: "target \<Rightarrow> unicode \<Rightarrow> command \<Rightarrow> byte list \<Rightarrow> nat" where
  "call_demand t u (Mutate m) xs = demand t m (length xs)"
| "call_demand t u (Copy c) xs = copy_demand u c xs"
| "call_demand t u (ExtendStrs yss) xs = length xs + length (concat yss)"
| "call_demand t u (ExtendChars lower cs) xs = length xs + length (str_of cs)"
| "call_demand t u (WriteFmt args) xs = length xs + length (fmt_written args)"
| "call_demand t u (Add ys) xs = length xs + length ys"
| "call_demand t u (OrPanic c) xs = call_demand t u c xs"
| "call_demand t u c xs = length xs"

lemma promises_completed:
  assumes "promises t u sv others c (h, xs) e ws" "in_range_call t c xs" "\<not> sv (call_demand t u c xs)"
    "\<not> crowded t others"
  shows "\<exists>a. e = Completed a"
proof -
  have "\<not> errs t u sv c (h, xs) ws" using assms(3) by (cases c) simp_all
  moreover have "\<not> unwinds t u sv others c (h, xs) ws" using assms(2-4)
  proof (induction c)
    case (OrPanic c)
    moreover have "\<not> errs t u sv c (h, xs) ws" using OrPanic.prems by (cases c) simp_all
    ultimately show ?case by simp
  qed simp_all
  ultimately show ?thesis using assms(1) by (cases e) simp_all
qed

lemma step_completes:
  assumes st: "step t u (Running V s) (Call i c e) C'" and r: "reachable t u (Running V s)" and u: "unicode_ok u"
    and x: "reads t (Running V s) i xs" and rng: "in_range_call t c xs"
    and mem: "enough_memory t (call_demand t u c xs) s" and few: "length V \<le> ISIZE_MAX t"
  shows "\<exists>a. e = Completed a"
proof -
  from reachable_stands_for [OF r u] obtain W where W: "stands_for t (Running V s) W" by blast
  from step_followed [OF st u W] obtain W' where W': "spec_step t u (starved t (Running V s) C') W (Call i c e) W'"
    unfolding followed_def by blast
  then obtain W1 w W2 ws where d: "W = W1 @ w # W2" "i = length W1"
    "promises t u (starved t (Running V s) C') (W1 @ W2) c w e ws" by (rule spec_step_CallE)
  have len: "length V = length W" using W by auto
  have "snd w = xs" using x d(1,2) by (simp add: stands_for_reads [OF W] nth_append)
  then have p: "promises t u (starved t (Running V s) C') (W1 @ W2) c (fst w, xs) e ws" using d(3) by (cases w) simp
  show ?thesis
  proof (rule promises_completed [OF p rng])
    show "\<not> starved t (Running V s) C' (call_demand t u c xs)"
      using enough_memory_not_out [OF mem order_refl] by (cases C') (simp_all add: starved_def)
    show "\<not> crowded t (W1 @ W2)" using few len d(1) by (simp add: crowded_def)
  qed
qed

lemma create_completes:
  assumes r: "reachable t u (Running V s)" and u: "unicode_ok u" and ok: "source_ok t src"
    and fate: "source_fate src = Some True" "\<not> source_too_long t src"
    and mem: "enough_memory t (source_demand src) s"
  shows "\<exists>C'. step t u (Running V s) (Create src (Completed Done)) C'"
proof -
  from reachable_stands_for [OF r u] obtain W where W: "stands_for t (Running V s) W" by blast
  from create_has_outcome [OF r u ok] obtain e C' where st: "step t u (Running V s) (Create src e) C'" by blast
  from step_followed [OF st u W] obtain W' where
    "spec_step t u (starved t (Running V s) C') W (Create src e) W'" unfolding followed_def by blast
  then have "source_promises t (starved t (Running V s) C') src e" by cases auto
  moreover have "\<not> starved t (Running V s) C' (source_demand src)"
    using enough_memory_not_out [OF mem order_refl] by (cases C') (simp_all add: starved_def)
  ultimately have "e = Completed Done" using fate by (cases e) auto
  with st show ?thesis by blast
qed

lemma gather_completes:
  assumes r: "reachable t u (Running V s)" and u: "unicode_ok u" and W: "stands_for t (Running V s) W"
    and js: "can_pick js (length V)" "gathering_ok g (map fst (picked js V))"
    and mem: "enough_memory t (length (joined (picked js W))) s"
  shows "\<exists>a C'. step t u (Running V s) (Gather g js (Completed a)) C'"
proof -
  from gather_has_outcome [OF r u js] obtain e C' where st: "step t u (Running V s) (Gather g js e) C'" by blast
  from step_followed [OF st u W] obtain W' where
    "spec_step t u (starved t (Running V s) C') W (Gather g js e) W'" unfolding followed_def by blast
  then obtain us where "gathering_promises (starved t (Running V s) C') g (picked js W) e us" by cases auto
  moreover have "\<not> starved t (Running V s) C' (length (joined (picked js W)))"
    using enough_memory_not_out [OF mem order_refl] by (cases C') (simp_all add: starved_def)
  ultimately show ?thesis using st by (cases e) auto
qed

section \<open>Reference counts and leaks\<close>

definition sharing :: "handle list \<Rightarrow> nat \<Rightarrow> nat" where
  "sharing V b = length (filter (\<lambda>v. block_of (snd v) = Some b) V)"

lemma sharing_handles: "sharing (map handle_of ws) b = handles (mset ws) b"
  by (induction ws) (auto simp: sharing_def handles_def owner_of_def handle_of_def)

text \<open>An allocation is live if and only if a value points to it.\<close>

lemma live_iff_shared:
  assumes "reachable t u (Running V s)" "unicode_ok u"
  shows "blocks s b \<noteq> None \<longleftrightarrow> 0 < sharing V b"
proof -
  from reachable_owners [OF assms] obtain ws where ws: "map handle_of ws = V" "sound t (mset ws) s" .
  from ws(2) obtain H where H: "heap_rep t H s" "owns t H (mset ws)" by (rule soundE)
  show ?thesis
  proof (cases "H b")
    case None
    with owns_no_handles [OF H(2)] heap_rep_block [OF H(1), of b] ws(1) show ?thesis
      by (auto simp: sharing_handles)
  next
    case (Some v)
    with owns_count [OF H(2) Some] heap_rep_lookup [OF H(1) Some] ws(1) show ?thesis
      by (auto simp: sharing_handles)
  qed
qed

text \<open>The stored count is the number of values that share the buffer.\<close>

lemma count_is_sharing:
  assumes r: "reachable t u (Running V s)" "unicode_ok u" and v: "(h, r) \<in> set V" and b: "block_of r = Some b"
  shows "bind (as_heap_buffer t r) (count_load t h) s = Ret (sharing V b) s"
proof -
  from reachable_owners [OF r] obtain ws where ws: "map handle_of ws = V" "sound t (mset ws) s" .
  from ws(2) obtain H where H: "heap_rep t H s" "owns t H (mset ws)" by (rule soundE)
  from v ws(1) obtain xs where "(h, r, xs) \<in># mset ws" by (auto simp: handle_of_def)
  with H(2) have "denotes t H h r xs" by (rule owns_denotes)
  from this b obtain hb v where hb: "r = repr_of_heap t hb" "H b = Some v" "buf_holds t h hb b v xs"
    "heap_word t hb" by (rule denotes_block)
  have "wp (count_load t h hb) (\<lambda>n s'. n = sharing V b \<and> s' = s) (\<lambda>_. False) (\<lambda>_. False) s"
    using wp_count_load [OF live_intro [OF H(1) hb(2,3)]] owns_count(1) [OF H(2) hb(2)] ws(1)
    by (auto simp: sharing_handles)
  then show ?thesis using hb(1,4) by (simp add: wp_Ret_iff)
qed

text \<open>No allocation outlives the values.\<close>

lemma no_leak:
  assumes "reachable t u (Running [] s)" "unicode_ok u"
  shows "blocks s = Map.empty"
  using live_iff_shared [OF assms] by (auto simp: sharing_def fun_eq_iff)

end
