(* ===== verification/Instances.thy ===== *)
theory Instances
  imports Execution Traits Compare
begin

text \<open>
  Concrete inputs: a 64-bit little-endian target, a memory whose allocator never refuses, a Unicode
  table, a text that needs a heap buffer, a memory that holds it, and runs in which two values
  share it.
\<close>

definition x64 :: target where
  "x64 = \<lparr>pointer_width = P64, target_endian = LittleEndian, debug_assertions = True\<rparr>"

definition inline_repr :: "byte list \<Rightarrow> repr" where
  "inline_repr xs = repr_of_inline x64 (inline_bytes x64 xs)"

definition no_memory_used :: "repr st" where
  "no_memory_used = \<lparr>blocks = \<lambda>_. None, next_id = 0, oom = \<lambda>_. False, calls = 0, self = inline_repr []\<rparr>"

text \<open>A table with the ASCII mappings and one other character, the capital sigma.\<close>

definition small_lower :: "uchar \<Rightarrow> uchar list" where
  "small_lower c = (if c = CAPITAL_SIGMA then [0x3C3] else if c < 0x80 then [ascii_code Lower c] else [c])"

definition small_table :: unicode where
  "small_table = \<lparr>to_lower = small_lower, to_upper = \<lambda>c. if c < 0x80 then [ascii_code Upper c] else [c],
    str_lower = \<lambda>xs. str_of (concat (map small_lower (chars xs)))\<rparr>"

definition long_text :: "byte list" where
  "long_text = replicate 20 0x61"

definition heap_value :: repr where
  "heap_value = repr_of_heap x64 (new_buf x64 Mutable 20 long_text no_memory_used)"

definition heap_memory :: "repr st" where
  "heap_memory = add_view x64 (new_view x64 Mutable 20 long_text) no_memory_used"

text \<open>An allocator that always refuses, and a value whose \<^verbatim>\<open>Display\<close> writes the long text and
  passes on the result.\<close>

definition refusing_memory :: "repr st" where
  "refusing_memory = no_memory_used\<lparr>oom := \<lambda>_. True\<rparr>"

definition shown_long_text :: "unit source" where
  "shown_long_text = OfDisplay (FmtArguments None (Write long_text Finish))"

lemma x64_sel [simp]: "pointer_width x64 = P64" "target_endian x64 = LittleEndian" "debug_assertions x64"
  by (simp_all add: x64_def)

lemma no_memory_used_sel [simp]:
  "blocks no_memory_used b = None" "next_id no_memory_used = 0" "oom no_memory_used i = False"
  "calls no_memory_used = 0" "self no_memory_used = inline_repr []"
  by (simp_all add: no_memory_used_def)

lemma MAX_INLINE_x64 [simp]: "MAX_INLINE_SIZE x64 = 16"
  by (simp add: MAX_INLINE_SIZE_def USIZE_SIZE_def)

lemma ascii_code_scalar: "c < 0x80 \<Longrightarrow> scalar (ascii_code k c)"
proof -
  have "unat (ascii_case k (byte_of c)) < 0xD800" by (rule less_trans [OF unat_byte_less]) simp
  then show ?thesis by (simp add: ascii_code_def scalar_def)
qed

lemma small_lower_scalar: "scalar c \<Longrightarrow> list_all scalar (small_lower c)"
  by (auto simp: small_lower_def ascii_code_scalar) (simp add: scalar_def)

lemma unicode_ok_small: "unicode_ok small_table"
proof -
  have "map_char small_table k c = [ascii_code k c]" if "c < 0x80" for k c
    using that by (cases k) (simp_all add: map_char_def small_table_def small_lower_def CAPITAL_SIGMA_def)
  moreover have "list_all scalar (map_char small_table k c)" if "scalar c" for k c
    using that small_lower_scalar [OF that]
    by (cases k) (simp_all add: map_char_def small_table_def ascii_code_scalar)
  moreover have "to_lower small_table CAPITAL_SIGMA \<noteq> [CAPITAL_SIGMA]"
    by (simp add: small_table_def small_lower_def CAPITAL_SIGMA_def)
  moreover have "valid_utf8 (str_lower small_table xs)" if "valid_utf8 xs" for xs
    using chars_scalar [OF that] small_lower_scalar
    by (auto simp: small_table_def list_all_iff intro!: valid_utf8_str_of) blast
  ultimately show ?thesis by (simp add: unicode_ok_def small_table_def)
qed

lemma valid_long_text: "valid_utf8 long_text"
  by (rule valid_utf8_ascii) (simp add: long_text_def)

lemma length_long_text [simp]: "length long_text = 20"
  by (simp add: long_text_def)

lemma blank_no_memory_used: "blank no_memory_used"
  by (simp add: blank_def)

lemma sound_no_memory: "sound x64 {#} no_memory_used"
  using stands_for_blank [OF blank_no_memory_used, of x64] by simp

lemma blank_refusing_memory: "blank refusing_memory"
  by (simp add: blank_def refusing_memory_def)

lemma sound_refusing_memory: "sound x64 {#} refusing_memory"
  using stands_for_blank [OF blank_refusing_memory, of x64] by simp

lemma sound_inline: "valid_utf8 xs \<Longrightarrow> length xs \<le> 16 \<Longrightarrow> sound x64 {#(h, inline_repr xs, xs)#} no_memory_used"
  using sound_add_inline [OF sound_no_memory, of "inline_bytes x64 xs" xs h]
  by (simp add: inline_repr_def inline_holds_inline_bytes)

lemma holds_inline_text:
  "valid_utf8 xs \<Longrightarrow> length xs \<le> 16 \<Longrightarrow> holds x64 {#} xs (no_memory_used\<lparr>self := inline_repr xs\<rparr>)"
  by (simp add: holds_def sound_inline)

lemma fits_x64: "n \<le> 1000000 \<Longrightarrow> fits x64 h n"
  by (rule fits_64) (simp_all add: Capacity_MAX_numeral)

lemma sound_heap: "sound x64 {#(Mutable, heap_value, long_text)#} heap_memory"
  using sound_add_heap(1) [OF sound_no_memory, of Mutable 20 long_text] valid_long_text fits_x64
  by (simp add: heap_value_def heap_memory_def)

lemma heap_memory_sel [simp]: "oom heap_memory i = False" "self heap_memory = inline_repr []"
  by (simp_all add: heap_memory_def)

lemma block_of_heap_value [simp]: "block_of heap_value = Some 0"
  by (simp add: heap_value_def new_buf_def)

lemma enough_memory_x64: "n \<le> 1000 \<Longrightarrow> (\<And>i. \<not> oom s i) \<Longrightarrow> enough_memory x64 n s"
  using fits_x64 [of "n + n div 2"] by (simp add: enough_memory_def)

section \<open>Runs\<close>

lemma heap_value_word: "heap_word x64 (new_buf x64 Mutable 20 long_text no_memory_used)"
  by (rule buf_holds_word [OF buf_holds_new_view]) simp_all

lemma run_long_text: "run_source x64 (Text Mutable long_text) no_memory_used = Ret (Some heap_value) heap_memory"
proof -
  have "wp (run_source x64 (Text Mutable long_text)) (\<lambda>r s'. r = Some heap_value \<and> s' = heap_memory)
    (\<lambda>_. False) (\<lambda>_. False) no_memory_used"
    using fits_x64 [of 20 Mutable] heap_value_word
    by (simp add: lean_from_def from_str_def wp_heap_new heap_value_def heap_memory_def)
  then show ?thesis by (simp add: wp_Ret_iff)
qed

lemma reach_empty: "reachable x64 small_table (Running [] no_memory_used)"
  by (rule reachable.start) (rule blank_no_memory_used)

lemma step_long_text:
  "step x64 small_table (Running [] no_memory_used) (Create (Text Mutable long_text) (Completed Done))
    (Running [(Mutable, heap_value)] heap_memory)"
  using step.created [of x64 "Text Mutable long_text" no_memory_used heap_value heap_memory small_table "[]"]
    run_long_text valid_long_text by simp

lemma reach_heap: "reachable x64 small_table (Running [(Mutable, heap_value)] heap_memory)"
  using reach_empty step_long_text by (rule reachable.more)

text \<open>A clone: the same value twice, one allocation.\<close>

lemma step_shared:
  "\<exists>s. step x64 small_table (Running [(Mutable, heap_value)] heap_memory) (Call 0 (Copy Cloned) (Completed Done))
      (Running [(Mutable, heap_value), (Mutable, heap_value)] s) \<and> oom s = oom heap_memory \<and>
    sound x64 {#(Mutable, heap_value, long_text), (Mutable, heap_value, long_text)#} s"
proof -
  let ?R = "{#(Mutable, heap_value, long_text)#}"
  have "\<not> count_limit x64 ?R heap_value" by (auto simp: count_limit_def)
      (simp add: target_numbers_64)
  then have "wp (exec x64 small_table [] (Copy Cloned) (Mutable, heap_value))
    (\<lambda>p s'. p = (Done, [(Mutable, heap_value), (Mutable, heap_value)]) \<and> oom s' = oom heap_memory \<and>
      sound x64 (add_mset (Mutable, heap_value, long_text) ?R) s') (\<lambda>_. False) (\<lambda>_. False) heap_memory"
    by (simp, intro wp_mono [OF lean.clone [OF sound_heap]]) (auto simp: mem_only_def)
  then obtain s' where s': "exec x64 small_table [] (Copy Cloned) (Mutable, heap_value) heap_memory =
      Ret (Done, [(Mutable, heap_value), (Mutable, heap_value)]) s'" "oom s' = oom heap_memory"
    "sound x64 (add_mset (Mutable, heap_value, long_text) ?R) s'"
    unfolding wp_def by (auto split: outcome.splits)
  have "step x64 small_table (Running ([] @ (Mutable, heap_value) # []) heap_memory)
    (Call (length ([] :: handle list)) (Copy Cloned) (Completed Done))
    (Running ([] @ [(Mutable, heap_value), (Mutable, heap_value)] @ []) s')"
    by (rule step.returned) (use s'(1) in simp_all)
  with s'(2,3) show ?thesis by auto
qed

lemma reach_shared:
  "\<exists>s. reachable x64 small_table (Running [(Mutable, heap_value), (Mutable, heap_value)] s) \<and>
    oom s = oom heap_memory \<and> sound x64 {#(Mutable, heap_value, long_text), (Mutable, heap_value, long_text)#} s"
  using step_shared reachable.more [OF reach_heap] by blast

text \<open>The two values are two owners: editing one of them happens among the other.\<close>

lemma holds_shared:
  "\<exists>s. holds x64 {#(Mutable, heap_value, long_text)#} long_text s \<and> self s = heap_value \<and> (\<forall>i. \<not> oom s i)"
proof -
  from reach_shared obtain s :: "repr st" where "oom s = oom heap_memory"
    "sound x64 {#(Mutable, heap_value, long_text), (Mutable, heap_value, long_text)#} s" by blast
  then show ?thesis
    by (intro exI [of _ "s\<lparr>self := heap_value\<rparr>"]) (simp add: holds_def)
qed

lemma reads_heap: "reads x64 (Running [(Mutable, heap_value)] heap_memory) 0 long_text"
proof -
  have "stands_for x64 (Running [(Mutable, heap_value)] heap_memory) [(Mutable, long_text)]"
    unfolding stands_for.simps
    by (intro exI [of _ "[(Mutable, heap_value, long_text)]"]) (simp add: sound_heap)
  from stands_for_reads [OF this] show ?thesis by simp
qed

end
