(* ===== verification/Atomics.thy ===== *)
theory Atomics
  imports Effects
begin

text \<open>
  The memory model behind the reference count when several threads use one allocation: a
  view-based semantics of one atomic integer with relaxed, acquire and release accesses, and of the
  other accesses to the allocation, which must not race. Every access is an event, numbered in the
  order it happens; a thread knows the events that happen before its next one. All writes to the
  counter are read-modify-write operations, so its modification order is the order in which they
  run; a load may return any value the thread does not know to be overwritten. A release operation
  attaches what its thread knows to the value it writes, a relaxed one passes on what was attached
  before (the release sequence), and an acquire load or fence takes it over.
\<close>

section \<open>State\<close>

datatype memory_order = Relaxed | Acquire | Release

text \<open>An atomic operation on the counter, a non-atomic read or write of the buffer, and its
  deallocation.\<close>

datatype kind = Counting | Reading | Writing | Freeing

fun conflicts :: "kind \<Rightarrow> kind \<Rightarrow> bool" where
  "conflicts Freeing k \<longleftrightarrow> True"
| "conflicts k Freeing \<longleftrightarrow> True"
| "conflicts Writing k \<longleftrightarrow> k = Reading \<or> k = Writing"
| "conflicts Reading k \<longleftrightarrow> k = Writing"
| "conflicts Counting k \<longleftrightarrow> False"

record message =
  stored :: nat
  attached :: "nat set"

text \<open>What a thread knows: the events that happen before it, the newest value of the counter it has
  seen, and what was attached to the values it has read so far (a later fence takes that over).\<close>

record knowledge =
  happened :: "nat set"
  newest :: nat
  observed :: "nat set"

record arena =
  allocated :: bool
  events :: "kind list"
  modifications :: "message list"
  knows :: "nat \<Rightarrow> knowledge"

abbreviation latest :: "'a arena_scheme \<Rightarrow> message" where
  "latest s \<equiv> last (modifications s)"

section \<open>Operations\<close>

text \<open>An access by thread \<open>i\<close>. It is undefined after the deallocation, and when an earlier access
  conflicts with it and does not happen before it.\<close>

definition unordered :: "nat \<Rightarrow> kind \<Rightarrow> 'a arena_scheme \<Rightarrow> bool" where
  "unordered i k s \<longleftrightarrow>
    (\<exists>e\<in>{..<length (events s)}. conflicts k (events s ! e) \<and> e \<notin> happened (knows s i))"

definition recorded :: "nat \<Rightarrow> kind \<Rightarrow> 'a arena_scheme \<Rightarrow> 'a arena_scheme" where
  "recorded i k s = s\<lparr>events := events s @ [k],
     knows := (knows s)(i := (knows s i)\<lparr>happened := insert (length (events s)) (happened (knows s i))\<rparr>)\<rparr>"

definition touch :: "nat \<Rightarrow> kind \<Rightarrow> ('a arena_scheme, unit) prog" where
  "touch i k = (\<lambda>s. if allocated s \<and> \<not> unordered i k s then Ret () (recorded i k s) else Undef)"

text \<open>\<^verbatim>\<open>dealloc\<close>, or a \<^verbatim>\<open>realloc\<close> that moves the allocation.\<close>

definition free :: "nat \<Rightarrow> ('a arena_scheme, unit) prog" where
  "free i = bind (touch i Freeing) (\<lambda>_. modify (\<lambda>s. s\<lparr>allocated := False\<rparr>))"

text \<open>Thread \<open>i\<close> reads the \<open>n\<close>-th value of the counter.\<close>

definition readable :: "nat \<Rightarrow> nat \<Rightarrow> 'a arena_scheme \<Rightarrow> bool" where
  "readable i n s \<longleftrightarrow> newest (knows s i) \<le> n \<and> n < length (modifications s)"

definition observe :: "memory_order \<Rightarrow> nat \<Rightarrow> nat \<Rightarrow> 'a arena_scheme \<Rightarrow> 'a arena_scheme" where
  "observe ord i n s =
    (let k = knows s i; new = attached (modifications s ! n) in
     s\<lparr>knows := (knows s)(i := \<lparr>
       happened = (if ord = Acquire then happened k \<union> new else happened k),
       newest = n,
       observed = observed k \<union> new\<rparr>)\<rparr>)"

definition atomic_load :: "memory_order \<Rightarrow> nat \<Rightarrow> nat \<Rightarrow> ('a arena_scheme, nat) prog" where
  "atomic_load ord i n =
    bind (touch i Counting) (\<lambda>_.
    bind (gets (\<lambda>s. stored (modifications s ! n))) (\<lambda>x.
    bind (modify (observe ord i n)) (\<lambda>_.
    ret x)))"

text \<open>A read-modify-write operation reads the latest value.\<close>

definition store_next :: "memory_order \<Rightarrow> nat \<Rightarrow> nat \<Rightarrow> 'a arena_scheme \<Rightarrow> 'a arena_scheme" where
  "store_next ord i x s =
    (let k = knows s i; old = attached (latest s) in
     s\<lparr>modifications := modifications s @
         [\<lparr>stored = x, attached = (if ord = Release then old \<union> happened k else old)\<rparr>],
       knows := (knows s)(i := k\<lparr>newest := length (modifications s)\<rparr>)\<rparr>)"

definition fetch_update :: "memory_order \<Rightarrow> nat \<Rightarrow> (nat \<Rightarrow> nat) \<Rightarrow> ('a arena_scheme, nat) prog" where
  "fetch_update ord i f =
    bind (touch i Counting) (\<lambda>_.
    bind (gets (\<lambda>s. stored (latest s))) (\<lambda>old.
    bind (modify (\<lambda>s. observe ord i (length (modifications s) - 1) s)) (\<lambda>_.
    bind (modify (store_next ord i (f old))) (\<lambda>_.
    ret old))))"

definition fetch_add :: "target \<Rightarrow> memory_order \<Rightarrow> nat \<Rightarrow> nat \<Rightarrow> ('a arena_scheme, nat) prog" where
  "fetch_add t ord i x = fetch_update ord i (\<lambda>c. wrapping_add t c x)"

definition fetch_sub :: "target \<Rightarrow> memory_order \<Rightarrow> nat \<Rightarrow> nat \<Rightarrow> ('a arena_scheme, nat) prog" where
  "fetch_sub t ord i x = fetch_update ord i (\<lambda>c. wrapping_sub t c x)"

text \<open>\<^verbatim>\<open>fence(Acquire)\<close>.\<close>

definition acquire_all :: "nat \<Rightarrow> 'a arena_scheme \<Rightarrow> 'a arena_scheme" where
  "acquire_all i s =
    s\<lparr>knows := (knows s)(i := (knows s i)\<lparr>happened := happened (knows s i) \<union> observed (knows s i)\<rparr>)\<rparr>"

definition fence_acquire :: "nat \<Rightarrow> ('a arena_scheme, unit) prog" where
  "fence_acquire i = modify (acquire_all i)"

text \<open>What synchronises thread \<open>j\<close> with thread \<open>i\<close> outside of the crate: a spawn or a join, a
  channel, a lock.\<close>

definition synchronize :: "nat \<Rightarrow> nat \<Rightarrow> 'a arena_scheme \<Rightarrow> 'a arena_scheme" where
  "synchronize i j s =
    s\<lparr>knows := (knows s)(j := (knows s j)\<lparr>
       happened := happened (knows s j) \<union> happened (knows s i),
       newest := max (newest (knows s j)) (newest (knows s i))\<rparr>)\<rparr>"

section \<open>Rules\<close>

lemma wp_touch [simp]:
  "wp (touch i k) Q E P s = (allocated s \<and> \<not> unordered i k s \<and> Q () (recorded i k s))"
  by (simp add: touch_def wp_def)

lemma wp_free [simp]:
  "wp (free i) Q E P s =
    (allocated s \<and> \<not> unordered i Freeing s \<and> Q () ((recorded i Freeing s)\<lparr>allocated := False\<rparr>))"
  by (simp add: free_def)

lemma wp_fence_acquire [simp]: "wp (fence_acquire i) Q E P s = Q () (acquire_all i s)"
  by (simp add: fence_acquire_def)

lemma recorded_sel [simp]:
  "allocated (recorded i k s) = allocated s" "modifications (recorded i k s) = modifications s"
  "events (recorded i k s) = events s @ [k]"
  "newest (knows (recorded i k s) j) = newest (knows s j)"
  "observed (knows (recorded i k s) j) = observed (knows s j)"
  "happened (knows (recorded i k s) j) =
    (if j = i then insert (length (events s)) (happened (knows s i)) else happened (knows s j))"
  by (simp_all add: recorded_def)

lemma observe_sel [simp]:
  "allocated (observe ord i n s) = allocated s" "modifications (observe ord i n s) = modifications s"
  "events (observe ord i n s) = events s"
  "newest (knows (observe ord i n s) j) = (if j = i then n else newest (knows s j))"
  "observed (knows (observe ord i n s) j) =
    observed (knows s j) \<union> (if j = i then attached (modifications s ! n) else {})"
  "happened (knows (observe ord i n s) j) =
    happened (knows s j) \<union> (if j = i \<and> ord = Acquire then attached (modifications s ! n) else {})"
  by (simp_all add: observe_def Let_def)

lemma store_next_sel [simp]:
  "allocated (store_next ord i x s) = allocated s" "events (store_next ord i x s) = events s"
  "modifications (store_next ord i x s) = modifications s @
     [\<lparr>stored = x, attached = (if ord = Release then attached (latest s) \<union> happened (knows s i)
       else attached (latest s))\<rparr>]"
  "newest (knows (store_next ord i x s) j) = (if j = i then length (modifications s) else newest (knows s j))"
  "observed (knows (store_next ord i x s) j) = observed (knows s j)"
  "happened (knows (store_next ord i x s) j) = happened (knows s j)"
  by (simp_all add: store_next_def Let_def)

lemma acquire_all_sel [simp]:
  "allocated (acquire_all i s) = allocated s" "events (acquire_all i s) = events s"
  "modifications (acquire_all i s) = modifications s"
  "newest (knows (acquire_all i s) j) = newest (knows s j)"
  "observed (knows (acquire_all i s) j) = observed (knows s j)"
  "happened (knows (acquire_all i s) j) = happened (knows s j) \<union> (if j = i then observed (knows s j) else {})"
  by (simp_all add: acquire_all_def)

lemma synchronize_sel [simp]:
  "allocated (synchronize i j s) = allocated s" "events (synchronize i j s) = events s"
  "modifications (synchronize i j s) = modifications s"
  "newest (knows (synchronize i j s) l) =
    (if l = j then max (newest (knows s j)) (newest (knows s i)) else newest (knows s l))"
  "observed (knows (synchronize i j s) l) = observed (knows s l)"
  "happened (knows (synchronize i j s) l) =
    happened (knows s l) \<union> (if l = j then happened (knows s i) else {})"
  by (simp_all add: synchronize_def)

text \<open>What a thread knows only grows.\<close>

definition knows_more :: "'a arena_scheme \<Rightarrow> 'a arena_scheme \<Rightarrow> bool" where
  "knows_more s s' \<longleftrightarrow>
    allocated s' = allocated s \<and> events s' = events s \<and> modifications s' = modifications s \<and>
    (\<forall>i. happened (knows s i) \<subseteq> happened (knows s' i) \<and> newest (knows s i) \<le> newest (knows s' i) \<and>
      observed (knows s i) \<subseteq> observed (knows s' i))"

lemma knows_more_observe: "readable i n s \<Longrightarrow> knows_more s (observe ord i n s)"
  by (auto simp: knows_more_def readable_def)

lemma knows_more_acquire_all: "knows_more s (acquire_all i s)"
  by (auto simp: knows_more_def)

lemma knows_more_synchronize: "knows_more s (synchronize i j s)"
  by (auto simp: knows_more_def)

text \<open>The instant of a read-modify-write operation.\<close>

definition updated :: "memory_order \<Rightarrow> nat \<Rightarrow> (nat \<Rightarrow> nat) \<Rightarrow> 'a arena_scheme \<Rightarrow> 'a arena_scheme" where
  "updated ord i f s =
    store_next ord i (f (stored (latest s))) (observe ord i (length (modifications s) - 1) s)"

lemma wp_fetch_update:
  "wp (fetch_update ord i f) Q E P s = (allocated s \<and> \<not> unordered i Counting s \<and>
    Q (stored (latest s)) (updated ord i f (recorded i Counting s)))"
  by (simp add: fetch_update_def updated_def)

lemma wp_atomic_load:
  "wp (atomic_load ord i n) Q E P s = (allocated s \<and> \<not> unordered i Counting s \<and>
    Q (stored (modifications s ! n)) (observe ord i n (recorded i Counting s)))"
  by (simp add: atomic_load_def)

end
