(* ===== verification/Threads.thy ===== *)
theory Threads
  imports Atomics "HOL-Library.Multiset"
begin

text \<open>
  One heap buffer shared by values in several threads. A handle is a value that points to the
  buffer: it is held by one thread, which may lend it to others (\<^verbatim>\<open>&LeanString\<close> is
  \<^verbatim>\<open>Sync\<close>) or move it (\<^verbatim>\<open>Send\<close>). The actions are the pieces of the methods
  between which the scheduler may switch: the increment of \<^verbatim>\<open>make_shallow_clone\<close>, the
  load of \<^verbatim>\<open>is_unique\<close>, the accesses to the bytes, the decrement of
  \<^verbatim>\<open>release\<close>, and the deallocation that may follow it. The orderings are those of the
  code. Reads of other values and other allocations are left out; a handle that gets a buffer of its
  own leaves the model.
\<close>

section \<open>The atomic operations of the code\<close>

text \<open>\<^verbatim>\<open>HeapBuffer::is_unique\<close>, when the load returns the \<open>n\<close>-th value of the
  counter.\<close>

definition load_is_unique :: "nat \<Rightarrow> nat \<Rightarrow> ('a arena_scheme, bool) prog" where
  "load_is_unique i n = bind (atomic_load Acquire i n) (\<lambda>count. ret (count = 1))"

text \<open>The two steps of \<^verbatim>\<open>HeapBuffer::release\<close>.\<close>

definition release_reference :: "target \<Rightarrow> nat \<Rightarrow> ('a arena_scheme, bool) prog" where
  "release_reference t i = bind (fetch_sub t Release i 1) (\<lambda>old. ret (old = 1))"

definition on_last_reference :: "nat \<Rightarrow> ('a arena_scheme, unit) prog" where
  "on_last_reference i = bind (fence_acquire i) (\<lambda>_. free i)"

text \<open>The increment of \<^verbatim>\<open>Repr::make_shallow_clone\<close>, and whether
  \<^verbatim>\<open>ref_count_overflow\<close> has to give it back.\<close>

definition add_reference :: "target \<Rightarrow> nat \<Rightarrow> ('a arena_scheme, bool) prog" where
  "add_reference t i = bind (fetch_add t Relaxed i 1) (\<lambda>prev. ret (ISIZE_MAX t < prev))"

section \<open>Handles\<close>

text \<open>A handle is \<open>Sole\<close> from the moment \<^verbatim>\<open>is_unique\<close> returned true until the method ends,
  \<open>Surplus\<close> when its increment exceeded the limit and is about to be given back, and \<open>Last\<close> between
  the decrement to zero and the deallocation.\<close>

datatype stage = Usable | Sole | Surplus | Last

record share =
  holder :: nat
  lent_to :: "nat set"
  stage :: stage
  own_text :: "byte list"

record shared_buffer = arena +
  bytes_stored :: "byte list"
  forgotten :: nat

definition users :: "share \<Rightarrow> nat set" where
  "users h = insert (holder h) (lent_to h)"

abbreviation exclusive :: "nat \<Rightarrow> share \<Rightarrow> bool" where
  "exclusive i h \<equiv> holder h = i \<and> lent_to h = {}"

definition surplus_of :: "nat \<Rightarrow> share multiset \<Rightarrow> nat" where
  "surplus_of i H = size (filter_mset (\<lambda>h. stage h = Surplus \<and> holder h = i) H)"

definition fresh_buffer :: "nat \<Rightarrow> byte list \<Rightarrow> shared_buffer" where
  "fresh_buffer i bs = \<lparr>allocated = True, events = [Writing],
     modifications = [\<lparr>stored = 1, attached = {}\<rparr>],
     knows = (\<lambda>j. \<lparr>happened = (if j = i then {0} else {}), newest = 0, observed = {}\<rparr>),
     bytes_stored = bs, forgotten = 0\<rparr>"

definition fresh_handle :: "nat \<Rightarrow> byte list \<Rightarrow> share" where
  "fresh_handle i xs = \<lparr>holder = i, lent_to = {}, stage = Usable, own_text = xs\<rparr>"

lemma users_simps [simp]:
  "holder h \<in> users h"
  "users (h\<lparr>stage := g\<rparr>) = users h" "users (h\<lparr>own_text := xs\<rparr>) = users h"
  "exclusive i h \<Longrightarrow> users h = {i}"
  "users (fresh_handle i xs) = {i}"
  by (simp_all add: users_def fresh_handle_def)

section \<open>Actions\<close>

text \<open>\<open>Shorten\<close> is \<^verbatim>\<open>truncate\<close> of a value whose length is in its own two words: it does
  not touch the buffer. \<open>Replace\<close> is a reallocation, or the copy to a new allocation with the
  deallocation of this one. \<open>Forget\<close> is \<^verbatim>\<open>mem::forget\<close>. \<open>GiveBack\<close> ends a loan.\<close>

datatype action =
    CloneIt
  | Check nat
  | ReadBytes
  | Shorten nat
  | WriteBytes "byte list"
  | Replace
  | EndMethod
  | ReleaseIt
  | Deallocate
  | Forget
  | Move nat
  | Lend nat
  | GiveBack

fun perform :: "target \<Rightarrow> nat \<Rightarrow> share \<Rightarrow> action \<Rightarrow> (shared_buffer, share multiset) prog" where
  "perform t i h CloneIt = bind (add_reference t i) (\<lambda>exceeded.
     ret {#h, \<lparr>holder = i, lent_to = {}, stage = (if exceeded then Surplus else Usable), own_text = own_text h\<rparr>#})"
| "perform t i h (Check n) = bind (load_is_unique i n) (\<lambda>unique.
     ret {#h\<lparr>stage := (if unique then Sole else Usable)\<rparr>#})"
| "perform t i h ReadBytes = bind (touch i Reading) (\<lambda>_. ret {#h#})"
| "perform t i h (Shorten n) = ret {#h\<lparr>own_text := take n (own_text h)\<rparr>#}"
| "perform t i h (WriteBytes xs) = bind (touch i Writing) (\<lambda>_.
     bind (modify (\<lambda>s. s\<lparr>bytes_stored := overwrite (bytes_stored s) 0 xs\<rparr>)) (\<lambda>_.
     ret {#h\<lparr>own_text := xs\<rparr>#}))"
| "perform t i h Replace = bind (free i) (\<lambda>_. ret {#})"
| "perform t i h EndMethod = ret {#h\<lparr>stage := Usable\<rparr>#}"
| "perform t i h ReleaseIt = bind (release_reference t i) (\<lambda>last.
     ret (if last then {#h\<lparr>stage := Last\<rparr>#} else {#}))"
| "perform t i h Deallocate = bind (on_last_reference i) (\<lambda>_. ret {#})"
| "perform t i h Forget = bind (modify (\<lambda>s. s\<lparr>forgotten := Suc (forgotten s)\<rparr>)) (\<lambda>_. ret {#})"
| "perform t i h (Move j) = bind (modify (synchronize i j)) (\<lambda>_. ret {#h\<lparr>holder := j\<rparr>#})"
| "perform t i h (Lend j) = bind (modify (synchronize i j)) (\<lambda>_. ret {#h\<lparr>lent_to := insert j (lent_to h)\<rparr>#})"
| "perform t i h GiveBack = bind (modify (synchronize i (holder h))) (\<lambda>_.
     ret {#h\<lparr>lent_to := lent_to h - {i}\<rparr>#})"

text \<open>What the types permit, with \<open>N\<close> threads: a thread uses a handle it holds or has on loan, changes
  or drops one only if it is not lent, and writes only in a method that found the handle unique. A
  thread that has to give a surplus reference back does that before it clones again. \<open>H\<close> are the
  handles.\<close>

fun permits :: "nat \<Rightarrow> share multiset \<Rightarrow> shared_buffer \<Rightarrow> nat \<Rightarrow> share \<Rightarrow> action \<Rightarrow> bool" where
  "permits N H s i h CloneIt \<longleftrightarrow> i \<in> users h \<and> stage h = Usable \<and> surplus_of i H = 0"
| "permits N H s i h (Check n) \<longleftrightarrow> exclusive i h \<and> (stage h = Usable \<or> stage h = Sole) \<and> readable i n s"
| "permits N H s i h ReadBytes \<longleftrightarrow> i \<in> users h \<and> (stage h = Usable \<or> stage h = Sole)"
| "permits N H s i h (Shorten n) \<longleftrightarrow> exclusive i h \<and> (stage h = Usable \<or> stage h = Sole)"
| "permits N H s i h (WriteBytes xs) \<longleftrightarrow> exclusive i h \<and> stage h = Sole \<and> length xs \<le> length (bytes_stored s)"
| "permits N H s i h Replace \<longleftrightarrow> exclusive i h \<and> stage h = Sole"
| "permits N H s i h EndMethod \<longleftrightarrow> exclusive i h \<and> stage h = Sole"
| "permits N H s i h ReleaseIt \<longleftrightarrow> exclusive i h \<and> stage h \<noteq> Last"
| "permits N H s i h Deallocate \<longleftrightarrow> exclusive i h \<and> stage h = Last"
| "permits N H s i h Forget \<longleftrightarrow> exclusive i h \<and> stage h = Usable"
| "permits N H s i h (Move j) \<longleftrightarrow> exclusive i h \<and> stage h = Usable \<and> j < N"
| "permits N H s i h (Lend j) \<longleftrightarrow> i \<in> users h \<and> stage h = Usable \<and> j < N \<and> j \<noteq> holder h"
| "permits N H s i h GiveBack \<longleftrightarrow> i \<in> lent_to h \<and> i \<noteq> holder h \<and> stage h = Usable"

section \<open>Interleavings\<close>

datatype sharing_config = Sharing "share multiset" shared_buffer | Raced

inductive turn :: "target \<Rightarrow> nat \<Rightarrow> sharing_config \<Rightarrow> nat \<Rightarrow> sharing_config \<Rightarrow> bool"
  for t :: target and N :: nat
where
  acted: "permits N (add_mset h R) s i h a \<Longrightarrow> perform t i h a s = Ret hs s' \<Longrightarrow>
    turn t N (Sharing (add_mset h R) s) i (Sharing (hs + R) s')"
| raced: "permits N (add_mset h R) s i h a \<Longrightarrow> perform t i h a s = Undef \<Longrightarrow>
    turn t N (Sharing (add_mset h R) s) i Raced"
| synchronized: "i < N \<Longrightarrow> j < N \<Longrightarrow> turn t N (Sharing H s) i (Sharing H (synchronize j i s))"

inductive interleaved :: "target \<Rightarrow> nat \<Rightarrow> sharing_config \<Rightarrow> bool" for t :: target and N :: nat where
  initially: "i < N \<Longrightarrow> take (length xs) bs = xs \<Longrightarrow>
    interleaved t N (Sharing {#fresh_handle i xs#} (fresh_buffer i bs))"
| next_turn: "interleaved t N C \<Longrightarrow> turn t N C i C' \<Longrightarrow> interleaved t N C'"

inductive_simps turn_Raced [simp]: "turn t N Raced i C'"

end
