(* ===== verification/ThreadSafety.thy ===== *)
theory ThreadSafety
  imports Threads
begin

text \<open>
  The invariant of a shared buffer under every interleaving and every value a load may return, and
  what follows: no access is unordered or comes after the deallocation, the counter is exact and
  never wraps around, the buffer is freed once, by the last handle, and every handle keeps its text.
\<close>

section \<open>Counting handles\<close>

definition references :: "share multiset \<Rightarrow> nat" where
  "references H = size (filter_mset (\<lambda>h. stage h \<noteq> Last) H)"

definition surplus :: "share multiset \<Rightarrow> nat" where
  "surplus H = size (filter_mset (\<lambda>h. stage h = Surplus) H)"

lemma counting_simps [simp]:
  "references {#} = 0" "surplus {#} = 0" "surplus_of i {#} = 0"
  "references (add_mset h H) = references H + (if stage h = Last then 0 else 1)"
  "surplus (add_mset h H) = surplus H + (if stage h = Surplus then 1 else 0)"
  "surplus_of i (add_mset h H) = surplus_of i H + (if stage h = Surplus \<and> holder h = i then 1 else 0)"
  by (simp_all add: references_def surplus_def surplus_of_def)

text \<open>A thread has at most one surplus reference, so there are at most as many as threads.\<close>

lemma surplus_sum: "\<forall>h\<in>#H. holder h < N \<Longrightarrow> surplus H = (\<Sum>i<N. surplus_of i H)"
  proof (induction H)
  case (add h H)
  have "(\<Sum>i<N. surplus_of i (add_mset h H)) =
      (\<Sum>i<N. surplus_of i H) + (\<Sum>i<N. if i = holder h then (if stage h = Surplus then 1 else 0) else 0)"
    by (simp only: counting_simps sum.distrib) (auto intro!: sum.cong)
  with add show ?case by simp
qed simp

lemma surplus_bound:
  assumes "\<forall>h\<in>#H. holder h < N" "\<forall>i. surplus_of i H \<le> 1"
  shows "surplus H \<le> N"
proof -
  have "(\<Sum>i<N. surplus_of i H) \<le> (\<Sum>i<N. 1)" using assms(2) by (intro sum_mono) auto
  with surplus_sum [OF assms(1)] show ?thesis by simp
qed

lemma surplus_less:
  assumes "\<forall>h\<in>#H. holder h < N" "\<forall>i. surplus_of i H \<le> 1" "i < N" "surplus_of i H = 0"
  shows "surplus H < N"
proof -
  have "(\<Sum>i<N. surplus_of i H) < (\<Sum>i<N. 1)"
    using assms by (intro sum_strict_mono_ex1) auto
  with surplus_sum [OF assms(1)] show ?thesis by simp
qed

section \<open>The invariant\<close>

text \<open>The counter is the number of handles that have not given their reference back, forgotten ones
  included; it exceeds the limit at most by the surplus references.\<close>

definition exactly_counted :: "target \<Rightarrow> share multiset \<Rightarrow> shared_buffer \<Rightarrow> bool" where
  "exactly_counted t H s \<longleftrightarrow> modifications s \<noteq> [] \<and> stored (latest s) = references H + forgotten s \<and>
    stored (latest s) \<le> ISIZE_MAX t + 1 + surplus H \<and> 0 < size H + forgotten s"

definition in_threads :: "nat \<Rightarrow> share multiset \<Rightarrow> bool" where
  "in_threads N H \<longleftrightarrow> (\<forall>h\<in>#H. users h \<subseteq> {..<N} \<and> (stage h \<noteq> Usable \<longrightarrow> lent_to h = {})) \<and>
    (\<forall>i. surplus_of i H \<le> 1)"

text \<open>The users of a handle together know every change of the counter up to now that could have made
  it 1: a value they may still read that is not the latest is at least 2.\<close>

definition up_to_date :: "share multiset \<Rightarrow> shared_buffer \<Rightarrow> bool" where
  "up_to_date H s \<longleftrightarrow> (\<forall>i. newest (knows s i) < length (modifications s)) \<and>
    (\<forall>h\<in>#H. \<forall>n. (\<forall>i\<in>users h. newest (knows s i) \<le> n) \<longrightarrow> Suc n < length (modifications s) \<longrightarrow>
      2 \<le> stored (modifications s ! n))"

text \<open>Every user of a handle knows all writes.\<close>

definition writes_known :: "share multiset \<Rightarrow> shared_buffer \<Rightarrow> bool" where
  "writes_known H s \<longleftrightarrow> (\<forall>e<length (events s). events s ! e \<noteq> Freeing \<and>
    (events s ! e = Writing \<longrightarrow> (\<forall>h\<in>#H. \<forall>i\<in>users h. e \<in> happened (knows s i))))"

text \<open>Every event is known to a user of a handle or attached to the latest value of the counter,
  unless it was done through a forgotten handle.\<close>

definition known :: "share multiset \<Rightarrow> shared_buffer \<Rightarrow> nat \<Rightarrow> bool" where
  "known H s e \<longleftrightarrow> (\<exists>h\<in>#H. \<exists>i\<in>users h. e \<in> happened (knows s i))"

definition covered :: "share multiset \<Rightarrow> shared_buffer \<Rightarrow> bool" where
  "covered H s \<longleftrightarrow>
    (forgotten s = 0 \<longrightarrow> (\<forall>e<length (events s). e \<in> attached (latest s) \<or> known H s e))"

text \<open>A handle found unique, or the last one, is the only one, and knows all events.\<close>

definition isolated :: "share multiset \<Rightarrow> shared_buffer \<Rightarrow> bool" where
  "isolated H s \<longleftrightarrow>
    (\<forall>h\<in>#H. stage h = Sole \<longrightarrow> H = {#h#} \<and> forgotten s = 0 \<and>
      {..<length (events s)} \<subseteq> happened (knows s (holder h)) \<and>
      Suc (newest (knows s (holder h))) = length (modifications s)) \<and>
    (\<forall>h\<in>#H. stage h = Last \<longrightarrow> H = {#h#} \<and> forgotten s = 0 \<and>
      {..<length (events s)} \<subseteq> happened (knows s (holder h)) \<union> observed (knows s (holder h)))"

definition texts_stored :: "share multiset \<Rightarrow> shared_buffer \<Rightarrow> bool" where
  "texts_stored H s \<longleftrightarrow> (\<forall>h\<in>#H. take (length (own_text h)) (bytes_stored s) = own_text h)"

definition orderly :: "target \<Rightarrow> nat \<Rightarrow> share multiset \<Rightarrow> shared_buffer \<Rightarrow> bool" where
  "orderly t N H s \<longleftrightarrow>
    (if allocated s then exactly_counted t H s \<and> in_threads N H \<and> up_to_date H s \<and> writes_known H s \<and>
       covered H s \<and> isolated H s \<and> texts_stored H s
     else H = {#} \<and> forgotten s = 0)"

lemmas orderly_defs = exactly_counted_def in_threads_def up_to_date_def writes_known_def covered_def isolated_def
  texts_stored_def

text \<open>The invariant can be taken apart clause by clause, and put together.\<close>

lemma orderlyD:
  assumes "orderly t N H s" "h \<in># H"
  shows "allocated s" "exactly_counted t H s" "in_threads N H" "up_to_date H s" "writes_known H s" "covered H s"
    "isolated H s" "texts_stored H s"
  using assms by (auto simp: orderly_def split: if_splits)

lemma orderlyI:
  assumes "exactly_counted t H s" "in_threads N H" "up_to_date H s" "writes_known H s" "covered H s"
    "isolated H s" "texts_stored H s" "allocated s"
  shows "orderly t N H s"
  using assms by (simp add: orderly_def)

lemma writes_knownD:
  "writes_known H s \<Longrightarrow> e < length (events s) \<Longrightarrow> events s ! e \<noteq> Freeing"
  "writes_known H s \<Longrightarrow> e < length (events s) \<Longrightarrow> events s ! e = Writing \<Longrightarrow> h \<in># H \<Longrightarrow> i \<in> users h \<Longrightarrow>
    e \<in> happened (knows s i)"
  unfolding writes_known_def by blast+

lemma knownI: "h \<in># H \<Longrightarrow> i \<in> users h \<Longrightarrow> e \<in> happened (knows s i) \<Longrightarrow> known H s e"
  unfolding known_def by blast

lemma known_learn: "known H s e \<Longrightarrow> (\<And>i. happened (knows s i) \<subseteq> happened (knows s' i)) \<Longrightarrow> known H s' e"
  unfolding known_def by blast

lemma known_add [simp]:
  "known (add_mset h H) s e \<longleftrightarrow> (\<exists>i\<in>users h. e \<in> happened (knows s i)) \<or> known H s e"
  unfolding known_def by auto

lemma known_empty [simp]: "\<not> known {#} s e"
  by (simp add: known_def)

lemma buffer_sel [simp]:
  "bytes_stored (recorded i k s) = bytes_stored s" "forgotten (recorded i k s) = forgotten s"
  "bytes_stored (observe ord i n s) = bytes_stored s" "forgotten (observe ord i n s) = forgotten s"
  "bytes_stored (store_next ord i x s) = bytes_stored s" "forgotten (store_next ord i x s) = forgotten s"
  "bytes_stored (acquire_all i s) = bytes_stored s" "forgotten (acquire_all i s) = forgotten s"
  "bytes_stored (synchronize i j s) = bytes_stored s" "forgotten (synchronize i j s) = forgotten s"
  by (simp_all add: recorded_def observe_def store_next_def acquire_all_def synchronize_def Let_def)

lemma isolatedD:
  assumes "isolated H s" "h \<in># H"
  shows "stage h = Sole \<Longrightarrow> H = {#h#}" "stage h = Last \<Longrightarrow> H = {#h#}"
    "stage h = Sole \<Longrightarrow> forgotten s = 0" "stage h = Last \<Longrightarrow> forgotten s = 0"
    "stage h = Sole \<Longrightarrow> e < length (events s) \<Longrightarrow> e \<in> happened (knows s (holder h))"
    "stage h = Last \<Longrightarrow> e < length (events s) \<Longrightarrow>
      e \<in> happened (knows s (holder h)) \<or> e \<in> observed (knows s (holder h))"
    "stage h = Sole \<Longrightarrow> Suc (newest (knows s (holder h))) = length (modifications s)"
  using assms unfolding isolated_def by blast+

lemma isolatedI:
  assumes "\<And>h. h \<in># H \<Longrightarrow> stage h = Sole \<Longrightarrow> H = {#h#} \<and> forgotten s = 0 \<and>
      (\<forall>e<length (events s). e \<in> happened (knows s (holder h))) \<and>
      Suc (newest (knows s (holder h))) = length (modifications s)"
    and "\<And>h. h \<in># H \<Longrightarrow> stage h = Last \<Longrightarrow> H = {#h#} \<and> forgotten s = 0 \<and>
      (\<forall>e<length (events s). e \<in> happened (knows s (holder h)) \<or> e \<in> observed (knows s (holder h)))"
  shows "isolated H s"
  unfolding isolated_def subset_iff lessThan_iff Un_iff using assms by blast

lemma in_threadsD:
  assumes "in_threads N H"
  shows "h \<in># H \<Longrightarrow> i \<in> users h \<Longrightarrow> i < N" "h \<in># H \<Longrightarrow> stage h \<noteq> Usable \<Longrightarrow> users h = {holder h}"
    "h \<in># H \<Longrightarrow> holder h < N" "surplus_of i H \<le> 1"
  using assms unfolding in_threads_def users_def by blast+

lemma orderly_initially:
  assumes "i < N" "take (length xs) bs = xs"
  shows "orderly t N {#fresh_handle i xs#} (fresh_buffer i bs)"
  using assms by (auto simp: orderly_def orderly_defs) (auto simp: fresh_handle_def fresh_buffer_def)

section \<open>Threads learn\<close>

lemma orderly_learn:
  assumes inv: "orderly t N H s" and h: "h \<in># H" and more: "knows_more s s'"
    and newest: "\<forall>i. newest (knows s' i) < length (modifications s)"
    and same: "forgotten s' = forgotten s" "bytes_stored s' = bytes_stored s"
  shows "orderly t N H s'"
proof (rule orderlyI)
  note D = orderlyD [OF inv h]
  note M = more [unfolded knows_more_def]
  have hap: "e \<in> happened (knows s i) \<Longrightarrow> e \<in> happened (knows s' i)" for e i using M by blast
  have obs: "e \<in> observed (knows s i) \<Longrightarrow> e \<in> observed (knows s' i)" for e i using M by blast
  have new: "newest (knows s i) \<le> newest (knows s' i)" for i using M by blast
  show "exactly_counted t H s'" using D(2) M same by (simp add: exactly_counted_def)
  show "in_threads N H" by (rule D(3))
  show "up_to_date H s'" using D(4) M newest new unfolding up_to_date_def by (metis order_trans)
  show "writes_known H s'" using D(5) M hap unfolding writes_known_def by metis
  show "covered H s'" using D(6) M same known_learn [of H s _ s'] unfolding covered_def by auto
  have "Suc (newest (knows s' i)) = length (modifications s)" if "Suc (newest (knows s i)) = length (modifications s)" for i
    using that new [of i] newest [THEN spec, of i] by linarith
  note last = this
  show "isolated H s'"
  proof (rule isolatedI)
    fix g assume g: "g \<in># H"
    note A = isolatedD [OF D(7) g]
    show "stage g = Sole \<Longrightarrow> H = {#g#} \<and> forgotten s' = 0 \<and>
        (\<forall>e<length (events s'). e \<in> happened (knows s' (holder g))) \<and>
        Suc (newest (knows s' (holder g))) = length (modifications s')"
      using A(1,3,5) last [OF A(7)] M same hap by simp
    show "stage g = Last \<Longrightarrow> H = {#g#} \<and> forgotten s' = 0 \<and>
        (\<forall>e<length (events s'). e \<in> happened (knows s' (holder g)) \<or> e \<in> observed (knows s' (holder g)))"
      using A(2,4,6) M same hap obs by simp blast
  qed
  show "texts_stored H s'" using D(8) same by (simp add: texts_stored_def)
  show "allocated s'" using D(1) M by simp
qed

section \<open>Accesses\<close>

text \<open>A user of a handle may read and count at any time.\<close>

lemma orderly_touch:
  assumes inv: "orderly t N H s" and h: "h \<in># H" and i: "i \<in> users h" and k: "k = Counting \<or> k = Reading"
  shows "\<not> unordered i k s" "orderly t N H (recorded i k s)"
proof -
  note D = orderlyD [OF inv h]
  show "\<not> unordered i k s"
    using k writes_knownD [OF D(5)] h i unfolding unordered_def
    by (auto elim!: conflicts.elims)
  have only: "i = holder g" if "g \<in># H" "stage g = Sole \<or> stage g = Last" for g
    using that isolatedD(1,2) [OF D(7)] in_threadsD(2) [OF D(3)] h i by force
  show "orderly t N H (recorded i k s)"
  proof (rule orderlyI)
    show "exactly_counted t H (recorded i k s)" using D(2) by (simp add: exactly_counted_def recorded_def)
    show "up_to_date H (recorded i k s)" using D(4) by (simp add: up_to_date_def)
    show "writes_known H (recorded i k s)"
      using D(5) k unfolding writes_known_def by (auto simp: nth_append less_Suc_eq)
    have "known H (recorded i k s) e" if "e = length (events s) \<or> known H s e" for e
      using that knownI [OF h i, of e "recorded i k s"] known_learn [of H s e "recorded i k s"]
      by (elim disjE) (simp, fastforce)
    with D(6) show "covered H (recorded i k s)" unfolding covered_def by (auto simp: less_Suc_eq)
    show "isolated H (recorded i k s)" using D(7) only unfolding isolated_def
      by (auto simp: lessThan_Suc)
  qed (use D in \<open>simp_all add: texts_stored_def recorded_def\<close>)
qed

text \<open>While another handle is in use, none is \<open>Sole\<close> or \<open>Last\<close>.\<close>

lemma not_isolated:
  assumes "isolated (add_mset h R) s" "g \<in># R"
  shows "stage g \<noteq> Sole" "stage g \<noteq> Last" "stage h \<noteq> Sole" "stage h \<noteq> Last"
  using isolatedD(1,2) [OF assms(1), of g] isolatedD(1,2) [OF assms(1), of h] assms(2)
  by (auto simp: add_mset_eq_single)

lemma isolated_plain: "\<forall>h\<in>#H. stage h \<noteq> Sole \<and> stage h \<noteq> Last \<Longrightarrow> isolated H s"
  by (simp add: isolated_def)

lemma counted_all: "\<forall>g\<in>#H. stage g \<noteq> Last \<Longrightarrow> references H = size H"
  by (induction H) auto

text \<open>The only handle of a thread that knows everything.\<close>

definition knows_all :: "nat \<Rightarrow> shared_buffer \<Rightarrow> bool" where
  "knows_all i s \<longleftrightarrow> forgotten s = 0 \<and> (\<forall>e<length (events s). e \<in> happened (knows s i))"

lemma knows_all_ordered: "knows_all i s \<Longrightarrow> \<not> unordered i k s"
  by (simp add: knows_all_def unordered_def)

lemma orderly_write:
  assumes inv: "orderly t N {#h#} s" and h: "exclusive i h" and all: "knows_all i s"
    and len: "length xs \<le> length (bytes_stored s)"
  defines "s' \<equiv> (recorded i Writing s)\<lparr>bytes_stored := overwrite (bytes_stored s) 0 xs\<rparr>"
  shows "orderly t N {#h\<lparr>own_text := xs\<rparr>#} s'"
proof (rule orderlyI)
  note D = orderlyD [OF inv, of h, simplified]
  have s': "modifications s' = modifications s" "forgotten s' = forgotten s" "allocated s' = allocated s"
    "events s' = events s @ [Writing]" "\<And>j. newest (knows s' j) = newest (knows s j)"
    "\<And>j. observed (knows s' j) = observed (knows s j)"
    "happened (knows s' i) = insert (length (events s)) (happened (knows s i))"
    "bytes_stored s' = overwrite (bytes_stored s) 0 xs"
    by (simp_all add: s'_def recorded_def)
  have u: "users h = {i}" using h by simp
  have all': "\<forall>e<length (events s'). e \<in> happened (knows s' i)"
    using all by (auto simp: knows_all_def s' less_Suc_eq)
  show "exactly_counted t {#h\<lparr>own_text := xs\<rparr>#} s'" using D(2) by (simp add: exactly_counted_def s')
  show "in_threads N {#h\<lparr>own_text := xs\<rparr>#}" using D(3) by (simp add: in_threads_def)
  show "up_to_date {#h\<lparr>own_text := xs\<rparr>#} s'" using D(4) by (simp add: up_to_date_def s')
  show "writes_known {#h\<lparr>own_text := xs\<rparr>#} s'"
    using D(5) all' u by (auto simp: writes_known_def s' nth_append less_Suc_eq)
  show "covered {#h\<lparr>own_text := xs\<rparr>#} s'" using all' u by (simp add: covered_def)
  show "isolated {#h\<lparr>own_text := xs\<rparr>#} s'"
    using isolatedD(7) [OF D(7)] all all' h by (intro isolatedI) (auto simp: s' knows_all_def)
  show "texts_stored {#h\<lparr>own_text := xs\<rparr>#} s'" using len by (simp add: texts_stored_def s' overwrite_def)
  show "allocated s'" using D(1) s' by simp
qed

section \<open>Changing a handle\<close>

text \<open>A handle may be given to other users who know as much as its users did.\<close>

lemma orderly_pass:
  assumes inv: "orderly t N (add_mset h R) s" and st: "stage h = Usable" "stage h' = Usable"
    and said: "own_text h' = own_text h"
    and thr: "users h' \<subseteq> {..<N}"
    and know: "\<And>i. i \<in> users h' \<Longrightarrow> \<exists>j\<in>users h. happened (knows s j) \<subseteq> happened (knows s i)"
    and kept: "\<And>i. i \<in> users h \<Longrightarrow>
      \<exists>j\<in>users h'. happened (knows s i) \<subseteq> happened (knows s j) \<and> newest (knows s i) \<le> newest (knows s j)"
  shows "orderly t N (add_mset h' R) s"
proof (rule orderlyI)
  note D = orderlyD [OF inv, of h, simplified]
  show "exactly_counted t (add_mset h' R) s" using D(2) st by (simp add: exactly_counted_def)
  show "in_threads N (add_mset h' R)" using D(3) st thr by (simp add: in_threads_def)
  have "2 \<le> stored (modifications s ! n)"
    if n: "\<forall>i\<in>users h'. newest (knows s i) \<le> n" "Suc n < length (modifications s)" for n
  proof -
    from n(1) kept have "\<forall>i\<in>users h. newest (knows s i) \<le> n" by (meson order_trans)
    with D(4) n(2) show ?thesis by (simp add: up_to_date_def)
  qed
  with D(4) show "up_to_date (add_mset h' R) s" unfolding up_to_date_def by simp
  show "writes_known (add_mset h' R) s" using D(5) know unfolding writes_known_def by simp blast
  show "covered (add_mset h' R) s" using D(6) kept unfolding covered_def by simp blast
  show "isolated (add_mset h' R) s"
    using not_isolated(1,2) [OF D(7)] st by (intro isolated_plain) auto
qed (use orderlyD [OF inv, of h] said in \<open>simp_all add: texts_stored_def\<close>)

text \<open>A shorter text, and the end of a method.\<close>

lemma orderly_shorten:
  assumes inv: "orderly t N (add_mset h R) s" and st: "stage h = Usable \<or> stage h = Sole"
  shows "orderly t N (add_mset (h\<lparr>own_text := take n (own_text h)\<rparr>) R) s"
proof (rule orderlyI)
  let ?h = "h\<lparr>own_text := take n (own_text h)\<rparr>"
  note D = orderlyD [OF inv, of h, simplified]
  have "take (length (take n (own_text h))) (bytes_stored s) = take n (own_text h)"
    if "take (length (own_text h)) (bytes_stored s) = own_text h"
    using arg_cong [OF that, of "take n"] by (simp add: min.commute)
  then show "texts_stored (add_mset ?h R) s" using D(8) by (simp add: texts_stored_def)
  show "isolated (add_mset ?h R) s"
  proof (rule isolatedI)
    fix g assume g: "g \<in># add_mset ?h R"
    note A = isolatedD [OF D(7)]
    have sole: "R = {#}" if "stage g = Sole" using A(1) [of h] A(1) [of g] that g st by (auto simp: add_mset_eq_single)
    show "stage g = Sole \<Longrightarrow> add_mset ?h R = {#g#} \<and> forgotten s = 0 \<and>
        (\<forall>e<length (events s). e \<in> happened (knows s (holder g))) \<and>
        Suc (newest (knows s (holder g))) = length (modifications s)"
      using sole g A(3,5,7) [of h] by auto
    show "stage g = Last \<Longrightarrow> add_mset ?h R = {#g#} \<and> forgotten s = 0 \<and>
        (\<forall>e<length (events s). e \<in> happened (knows s (holder g)) \<or> e \<in> observed (knows s (holder g)))"
      using g st A(2) [of g] by (auto simp: add_mset_eq_single)
  qed
qed (use orderlyD [OF inv, of h] in \<open>simp_all add: exactly_counted_def in_threads_def up_to_date_def writes_known_def covered_def\<close>)

lemma orderly_restage:
  assumes inv: "orderly t N (add_mset h R) s" and st: "stage h = Usable \<or> stage h = Sole"
    and g: "g = Usable \<or> g = Sole \<and> lent_to h = {}" and al: "isolated (add_mset (h\<lparr>stage := g\<rparr>) R) s"
  shows "orderly t N (add_mset (h\<lparr>stage := g\<rparr>) R) s"
proof (rule orderlyI)
  note D = orderlyD [OF inv, of h, simplified]
  have plain: "stage h \<noteq> Last" "stage h \<noteq> Surplus" "g \<noteq> Last" "g \<noteq> Surplus" using st g by auto
  show "exactly_counted t (add_mset (h\<lparr>stage := g\<rparr>) R) s" using D(2) plain by (simp add: exactly_counted_def)
  show "in_threads N (add_mset (h\<lparr>stage := g\<rparr>) R)" using D(3) plain g by (auto simp: in_threads_def)
  show "covered (add_mset (h\<lparr>stage := g\<rparr>) R) s" using D(6) by (simp add: covered_def)
  show "up_to_date (add_mset (h\<lparr>stage := g\<rparr>) R) s" using D(4) by (simp add: up_to_date_def)
  show "writes_known (add_mset (h\<lparr>stage := g\<rparr>) R) s" using D(5) by (simp add: writes_known_def)
qed (use al orderlyD [OF inv, of h] in \<open>simp_all add: texts_stored_def\<close>)

lemma orderly_usable:
  assumes inv: "orderly t N (add_mset h R) s" and st: "stage h = Usable \<or> stage h = Sole"
  shows "orderly t N (add_mset (h\<lparr>stage := Usable\<rparr>) R) s"
  using not_isolated(1,2) [OF orderlyD(7) [OF inv, of h, simplified]]
  by (intro orderly_restage [OF inv st] isolated_plain) auto

section \<open>Counting\<close>

text \<open>What a read-modify-write operation needs of the clauses.\<close>

lemma up_to_date_store:
  assumes "up_to_date H s" "modifications s \<noteq> []"
    and "\<And>g. g \<in># H' \<Longrightarrow> i \<notin> users g \<Longrightarrow> g \<in># H \<and> 2 \<le> stored (latest s)"
  shows "up_to_date H' (store_next ord i x s)"
proof -
  have "2 \<le> stored (modifications (store_next ord i x s) ! n)"
    if g: "g \<in># H'" and n: "\<forall>j\<in>users g. newest (knows (store_next ord i x s) j) \<le> n"
      "Suc n < length (modifications (store_next ord i x s))" for g n
  proof -
    from n have i: "i \<notin> users g" by auto
    from assms(3) [OF g i] have old: "g \<in># H" "2 \<le> stored (latest s)" by simp_all
    from n i have "\<forall>j\<in>users g. newest (knows s j) \<le> n" by (simp split: if_splits) blast
    with assms(1) old(1) n(2) have "2 \<le> stored (modifications s ! n)" if "n \<noteq> length (modifications s) - 1"
      using that by (simp add: up_to_date_def)
    with assms(2) old(2) n(2) show ?thesis
      by (cases "n = length (modifications s) - 1") (simp_all add: nth_append last_conv_nth)
  qed
  moreover have "newest (knows (store_next ord i x s) j) < length (modifications (store_next ord i x s))" for j
    using assms(1) by (simp add: up_to_date_def less_SucI)
  ultimately show ?thesis unfolding up_to_date_def by blast
qed

lemma covered_store:
  assumes "covered H s" "forgotten s = 0 \<Longrightarrow> known H s e \<Longrightarrow> known H' s e \<or> ord = Release \<and> e \<in> happened (knows s i)"
  shows "forgotten s = 0 \<Longrightarrow> e < length (events s) \<Longrightarrow>
    e \<in> attached (latest (store_next ord i x s)) \<or> known H' (store_next ord i x s) e"
proof -
  have "known H' (store_next ord i x s) e = known H' s e" by (simp add: known_def)
  then show "forgotten s = 0 \<Longrightarrow> e < length (events s) \<Longrightarrow>
      e \<in> attached (latest (store_next ord i x s)) \<or> known H' (store_next ord i x s) e"
    using assms by (auto simp: covered_def)
qed

text \<open>A clone by a user of \<open>h\<close>.\<close>

lemma orderly_clone:
  assumes inv: "orderly t N (add_mset h R) s" and i: "i \<in> users h" and st: "stage h = Usable"
    and one: "surplus_of i (add_mset h R) = 0" and few: "N \<le> ISIZE_MAX t"
    and new: "newest (knows s i) = length (modifications s) - 1"
  defines "g \<equiv> \<lparr>holder = i, lent_to = {}, stage = (if ISIZE_MAX t < stored (latest s) then Surplus else Usable),
    own_text = own_text h\<rparr>"
  shows "orderly t N (add_mset h (add_mset g R)) (store_next Relaxed i (wrapping_add t (stored (latest s)) 1) s)"
    (is "orderly t N ?H (store_next Relaxed i ?x s)")
proof (rule orderlyI)
  note D = orderlyD [OF inv, of h, simplified]
  have iN: "i < N" by (rule in_threadsD(1) [OF D(3) _ i]) simp
  have g: "users g = {i}" "holder g = i" "own_text g = own_text h" "stage g \<noteq> Sole" "stage g \<noteq> Last"
    "stage g = Surplus \<longleftrightarrow> ISIZE_MAX t < stored (latest s)"
    by (simp_all add: g_def users_def)
  have "surplus (add_mset h R) < N"
    using in_threadsD(3,4) [OF D(3)] iN one by (intro surplus_less) auto
  then have bound: "stored (latest s) + 1 \<le> ISIZE_MAX t + 1 + N" using D(2) by (simp add: exactly_counted_def)
  then have "stored (latest s) + 1 \<le> USIZE_MAX t" using few ISIZE_MAX_USIZE_MAX [of t] by linarith
  then have x: "?x = stored (latest s) + 1" by (simp add: wrapping_add_def USIZE_MAX_less_power)
  show "exactly_counted t ?H (store_next Relaxed i ?x s)" unfolding x using D(2) g st by (auto simp: exactly_counted_def)
  have "surplus_of j ?H \<le> 1" for j
    using in_threadsD(4) [OF D(3), of j] one g(2) by (cases "j = i") simp_all
  then show "in_threads N ?H" using D(3) g iN by (simp add: in_threads_def g_def)
  have "2 \<le> stored (latest s)" if "f \<in># R" for f
    using that D(2) st not_isolated(2) [OF D(7) that] multi_member_split [OF that] by (auto simp: exactly_counted_def)
  then show "up_to_date ?H (store_next Relaxed i ?x s)"
    using D(2) i g by (intro up_to_date_store [OF D(4)]) (auto simp: exactly_counted_def)
  show "writes_known ?H (store_next Relaxed i ?x s)"
    using D(5) i g unfolding writes_known_def by auto
  have "known (add_mset h R) s e \<Longrightarrow> known ?H s e" for e by auto
  with covered_store [OF D(6)] show "covered ?H (store_next Relaxed i ?x s)"
    unfolding covered_def by (metis buffer_sel(6) store_next_sel(2))
  show "isolated ?H (store_next Relaxed i ?x s)"
    using not_isolated(1,2) [OF D(7)] st g by (intro isolated_plain) auto
qed (use orderlyD [OF inv, of h] in \<open>simp_all add: texts_stored_def g_def\<close>)

text \<open>The decrement of \<^verbatim>\<open>release\<close>: the last handle stays until the deallocation.\<close>

lemma exact_count:
  assumes "orderly t N H s" "h \<in># H" "N \<le> ISIZE_MAX t"
  shows "stored (latest s) \<le> USIZE_MAX t"
proof -
  note D = orderlyD [OF assms(1,2)]
  have "surplus H \<le> N" using in_threadsD(3,4) [OF D(3)] by (intro surplus_bound) auto
  with D(2) assms(3) ISIZE_MAX_USIZE_MAX [of t] show ?thesis unfolding exactly_counted_def by linarith
qed

lemma orderly_release:
  assumes inv: "orderly t N (add_mset h R) s" and h: "exclusive i h" and st: "stage h \<noteq> Last"
    and few: "N \<le> ISIZE_MAX t" and new: "attached (latest s) \<subseteq> observed (knows s i)"
  defines "H \<equiv> (if stored (latest s) = 1 then add_mset (h\<lparr>stage := Last\<rparr>) R else R)"
  shows "orderly t N H (store_next Release i (wrapping_sub t (stored (latest s)) 1) s)"
    (is "orderly t N H (store_next Release i ?x s)")
proof (rule orderlyI)
  note D = orderlyD [OF inv, of h, simplified]
  have u: "users h = {i}" "holder h = i" using h by simp_all
  have count: "stored (latest s) = Suc (references R + forgotten s)" using D(2) st by (simp add: exactly_counted_def)
  have x: "?x = stored (latest s) - 1"
    using exact_count [OF inv _ few, of h] count by (simp add: wrapping_sub_def USIZE_MAX_less_power)
  have more: "references R = size R" by (rule counted_all) (simp add: not_isolated(2) [OF D(7)])
  have last: "R = {#} \<and> forgotten s = 0" if "stored (latest s) = 1" using that count more by simp
  have "references H = references R" "surplus (add_mset h R) \<le> Suc (surplus R)" "surplus R \<le> surplus H" "0 < size H + forgotten s"
    using count more by (simp_all add: H_def) (auto simp: nonempty_has_size)
  moreover have "stored (latest s) \<le> ISIZE_MAX t + 1 + surplus (add_mset h R)" using D(2) by (simp add: exactly_counted_def)
  ultimately show "exactly_counted t H (store_next Release i ?x s)" unfolding x using count by (simp add: exactly_counted_def)
  have "in_threads N (add_mset (h\<lparr>stage := Last\<rparr>) R)" "in_threads N R"
  proof -
    have "surplus_of j R \<le> 1" for j using in_threadsD(4) [OF D(3), of j] by (simp split: if_splits)
    with D(3) st h show "in_threads N (add_mset (h\<lparr>stage := Last\<rparr>) R)" "in_threads N R" by (simp_all add: in_threads_def)
  qed
  then show "in_threads N H" by (simp add: H_def)
  have "2 \<le> stored (latest s)" if "f \<in># R" for f
    using that count more multi_member_split [OF that] by auto
  then show "up_to_date H (store_next Release i ?x s)"
    using D(2) u unfolding H_def by (intro up_to_date_store [OF D(4)]) (auto simp: exactly_counted_def split: if_splits)
  show "writes_known H (store_next Release i ?x s)"
    using D(5) unfolding writes_known_def H_def by auto
  have "known (add_mset h R) s e \<Longrightarrow> known H s e \<or> e \<in> happened (knows s i)" for e using u by (auto simp: H_def)
  with covered_store [OF D(6)] show "covered H (store_next Release i ?x s)"
    unfolding covered_def by (metis buffer_sel(6) store_next_sel(2))
  show "isolated H (store_next Release i ?x s)"
  proof (cases "stored (latest s) = 1")
    case True
    then have H: "H = {#h\<lparr>stage := Last\<rparr>#}" "R = {#}" "forgotten s = 0" using last by (simp_all add: H_def)
    have "e \<in> happened (knows s i) \<or> e \<in> observed (knows s i)" if "e < length (events s)" for e
      using that D(6) H u new by (auto simp: covered_def)
    with H u show ?thesis by (intro isolatedI) auto
  next
    case False
    with not_isolated(1,2) [OF D(7)] show ?thesis unfolding H_def by (intro isolated_plain) simp
  qed
  show "texts_stored H (store_next Release i ?x s)" using D(8) by (simp add: texts_stored_def H_def)
qed (use orderlyD [OF inv, of h] in simp)

text \<open>The load of \<^verbatim>\<open>is_unique\<close>. A value it may read is 1 only if it is the latest.\<close>

lemma readable_one:
  assumes "orderly t N (add_mset h R) s" "exclusive i h" "readable i n s" "stored (modifications s ! n) = 1"
  shows "Suc n = length (modifications s)" "modifications s ! n = latest s"
proof -
  note D = orderlyD [OF assms(1), of h, simplified]
  show n: "Suc n = length (modifications s)"
  proof (rule ccontr)
    assume "Suc n \<noteq> length (modifications s)"
    with assms(2,3) D(4) have "2 \<le> stored (modifications s ! n)" by (auto simp: up_to_date_def readable_def)
    with assms(4) show False by simp
  qed
  from n [symmetric] show "modifications s ! n = latest s" by (cases "modifications s" rule: rev_cases) auto
qed

lemma orderly_sole:
  assumes inv: "orderly t N (add_mset h R) s" and h: "exclusive i h" and st: "stage h = Usable \<or> stage h = Sole"
    and one: "stored (latest s) = 1" and new: "Suc (newest (knows s i)) = length (modifications s)"
    and acq: "attached (latest s) \<subseteq> happened (knows s i)"
  shows "orderly t N (add_mset (h\<lparr>stage := Sole\<rparr>) R) s"
proof (rule orderly_restage [OF inv st])
  note D = orderlyD [OF inv, of h, simplified]
  have u: "users h = {i}" "holder h = i" "lent_to h = {}" using h by simp_all
  have more: "references R = size R" by (rule counted_all) (simp add: not_isolated(2) [OF D(7)])
  have "stored (latest s) = Suc (references R + forgotten s)" using D(2) st by (auto simp: exactly_counted_def)
  with one more have R: "R = {#}" "forgotten s = 0" by simp_all
  have "e \<in> happened (knows s i)" if "e < length (events s)" for e
    using that D(6) R u acq by (auto simp: covered_def)
  with R u new show "isolated (add_mset (h\<lparr>stage := Sole\<rparr>) R) s" by (intro isolatedI) auto
  show "Sole = Usable \<or> Sole = Sole \<and> lent_to h = {}" using u by simp
qed

text \<open>A method that found its handle unique finds it unique again.\<close>

lemma sole_stays:
  assumes "orderly t N (add_mset h R) s" "stage h = Sole" "readable (holder h) n s"
  shows "stored (modifications s ! n) = 1"
proof -
  note D = orderlyD [OF assms(1), of h, simplified]
  note A = isolatedD(1,3,7) [OF D(7) _ assms(2)]
  from A(1,2) assms(2) D(2) have "stored (latest s) = 1" by (simp add: exactly_counted_def)
  moreover from A(3) assms(3) have "Suc n = length (modifications s)" by (auto simp: readable_def)
  then have "modifications s ! n = latest s" by (cases "modifications s" rule: rev_cases) auto
  ultimately show ?thesis by simp
qed

lemma orderly_forget:
  assumes inv: "orderly t N (add_mset h R) s" and st: "stage h = Usable"
  shows "orderly t N R (s\<lparr>forgotten := Suc (forgotten s)\<rparr>)"
proof (rule orderlyI)
  note D = orderlyD [OF inv, of h, simplified]
  show "isolated R (s\<lparr>forgotten := Suc (forgotten s)\<rparr>)"
    using not_isolated(1,2) [OF D(7)] by (intro isolated_plain) simp
qed (use orderlyD [OF inv, of h] st in
    \<open>auto simp: exactly_counted_def in_threads_def up_to_date_def writes_known_def covered_def texts_stored_def\<close>)

section \<open>Every action\<close>

lemma in_own: "h \<in># add_mset h R"
  by simp

abbreviation keeps_order :: "target \<Rightarrow> nat \<Rightarrow> share multiset \<Rightarrow> shared_buffer \<Rightarrow> (shared_buffer, share multiset) prog \<Rightarrow> bool"
where
  "keeps_order t N R s m \<equiv> wp m (\<lambda>hs s'. orderly t N (hs + R) s') (\<lambda>_. False) (\<lambda>_. False) s"

text \<open>After its access, a read-modify-write operation has observed the latest value.\<close>

lemma orderly_observe:
  assumes inv: "orderly t N H s" and h: "h \<in># H" and r: "readable i n s"
  shows "orderly t N H (observe ord i n s)"
proof (rule orderly_learn [OF inv h knows_more_observe [OF r]])
  show "\<forall>j. newest (knows (observe ord i n s) j) < length (modifications s)"
    using orderlyD(4) [OF inv h] r by (simp add: up_to_date_def readable_def)
qed simp_all

lemma readable_latest:
  assumes "orderly t N H s" "h \<in># H"
  shows "readable i (length (modifications s) - 1) s" "modifications s ! (length (modifications s) - 1) = latest s"
proof -
  have "newest (knows s i) < length (modifications s)"
    using orderlyD(4) [OF assms] by (simp add: up_to_date_def)
  then show "readable i (length (modifications s) - 1) s" unfolding readable_def by linarith
  show "modifications s ! (length (modifications s) - 1) = latest s"
    using orderlyD(2) [OF assms] by (simp add: exactly_counted_def last_conv_nth)
qed

lemma keeps_clone:
  assumes inv: "orderly t N (add_mset h R) s" and ok: "permits N (add_mset h R) s i h CloneIt" and few: "N \<le> ISIZE_MAX t"
  shows "keeps_order t N R s (perform t i h CloneIt)"
proof -
  from ok have p: "i \<in> users h" "stage h = Usable" "surplus_of i (add_mset h R) = 0" by simp_all
  note T = orderly_touch [OF inv in_own p(1), of Counting, simplified]
  let ?s = "observe Relaxed i (length (modifications s) - 1) (recorded i Counting s)"
  note L = readable_latest [OF T(2) in_own, simplified]
  have "orderly t N (add_mset h R) ?s" using orderly_observe [OF T(2) _ L(1), of h] by simp
  from orderly_clone [OF this p few] orderlyD(1) [OF inv in_own] T(1) show ?thesis
    by (simp add: add_reference_def fetch_add_def wp_fetch_update updated_def add_mset_commute)
qed

lemma keeps_release:
  assumes inv: "orderly t N (add_mset h R) s" and ok: "permits N (add_mset h R) s i h ReleaseIt" and few: "N \<le> ISIZE_MAX t"
  shows "keeps_order t N R s (perform t i h ReleaseIt)"
proof -
  from ok have p: "exclusive i h" "stage h \<noteq> Last" "i \<in> users h" by auto
  note T = orderly_touch [OF inv in_own p(3), of Counting, simplified]
  let ?s = "observe Release i (length (modifications s) - 1) (recorded i Counting s)"
  note L = readable_latest [OF T(2) in_own, simplified]
  have "orderly t N (add_mset h R) ?s" using orderly_observe [OF T(2) _ L(1), of h] by simp
  from orderly_release [OF this p(1,2) few] orderlyD(1) [OF inv in_own] T(1) L(2) show ?thesis
    by (auto simp: release_reference_def fetch_sub_def wp_fetch_update updated_def split: if_splits)
qed

lemma keeps_check:
  assumes inv: "orderly t N (add_mset h R) s" and ok: "permits N (add_mset h R) s i h (Check n)"
  shows "keeps_order t N R s (perform t i h (Check n))"
proof -
  from ok have p: "exclusive i h" "stage h = Usable \<or> stage h = Sole" "i \<in> users h" and r: "readable i n s" by auto
  note T = orderly_touch [OF inv in_own p(3), of Counting, simplified]
  from r have r': "readable i n (recorded i Counting s)" by (simp add: readable_def)
  let ?s = "observe Acquire i n (recorded i Counting s)"
  have O: "orderly t N (add_mset h R) ?s" using orderly_observe [OF T(2) _ r', of h] by simp
  have "orderly t N (add_mset (h\<lparr>stage := (if stored (modifications s ! n) = 1 then Sole else Usable)\<rparr>) R) ?s"
  proof (cases "stored (modifications s ! n) = 1")
    case True
    from readable_one [OF inv p(1) r this] have n: "Suc n = length (modifications s)" "modifications s ! n = latest s" .
    with True have "orderly t N (add_mset (h\<lparr>stage := Sole\<rparr>) R) ?s"
      by (intro orderly_sole [OF O p(1,2)]) auto
    with True show ?thesis by simp
  next
    case False
    then show ?thesis using orderly_usable [OF O p(2)] by simp
  qed
  then show ?thesis using orderlyD(1) [OF inv in_own] T(1)
    by (simp add: load_is_unique_def wp_atomic_load)
qed

text \<open>A handle that is isolated knows all events, when it is the last one after the fence.\<close>

lemma sole_knows_all:
  assumes "orderly t N (add_mset h R) s" "exclusive i h" "stage h = Sole"
  shows "R = {#}" "knows_all i s"
  using isolatedD [OF orderlyD(7) [OF assms(1) in_own] in_own] assms(2,3) by (auto simp: knows_all_def)

lemma last_knows_all:
  assumes "orderly t N (add_mset h R) s" "exclusive i h" "stage h = Last"
  shows "R = {#}" "knows_all i (acquire_all i s)"
  using isolatedD [OF orderlyD(7) [OF assms(1) in_own] in_own] assms(2,3) by (auto simp: knows_all_def)

lemma keeps_free:
  assumes "allocated s" "knows_all i s"
  shows "keeps_order t N {#} s (bind (free i) (\<lambda>_. ret {#}))"
  using assms knows_all_ordered [OF assms(2)] by (simp add: orderly_def knows_all_def)

lemma keeps_synchronized:
  assumes inv: "orderly t N H s" and h: "h \<in># H"
  shows "orderly t N H (synchronize i j s)"
proof (rule orderly_learn [OF inv h knows_more_synchronize])
  show "\<forall>l. newest (knows (synchronize i j s) l) < length (modifications s)"
    using orderlyD(4) [OF inv h] by (simp add: up_to_date_def)
qed simp_all

lemma keeps_move:
  assumes inv: "orderly t N (add_mset h R) s" and ok: "permits N (add_mset h R) s i h (Move j)"
  shows "keeps_order t N R s (perform t i h (Move j))"
proof -
  from ok have p: "exclusive i h" "stage h = Usable" "j < N" by simp_all
  have "orderly t N (add_mset (h\<lparr>holder := j\<rparr>) R) (synchronize i j s)"
    using p by (intro orderly_pass [OF keeps_synchronized [OF inv in_own]]) (auto simp: users_def)
  then show ?thesis by simp
qed

lemma keeps_lend:
  assumes inv: "orderly t N (add_mset h R) s" and ok: "permits N (add_mset h R) s i h (Lend j)"
  shows "keeps_order t N R s (perform t i h (Lend j))"
proof -
  from ok have p: "i \<in> users h" "stage h = Usable" "j < N" by simp_all
  have thr: "users h \<subseteq> {..<N}"
    using in_threadsD(1) [OF orderlyD(3) [OF inv in_own] in_own] by blast
  have "users (h\<lparr>lent_to := insert j (lent_to h)\<rparr>) = insert j (users h)" by (auto simp: users_def)
  then have "orderly t N (add_mset (h\<lparr>lent_to := insert j (lent_to h)\<rparr>) R) (synchronize i j s)"
    using p thr by (intro orderly_pass [OF keeps_synchronized [OF inv in_own]]) auto
  then show ?thesis by simp
qed

lemma keeps_give_back:
  assumes inv: "orderly t N (add_mset h R) s" and ok: "permits N (add_mset h R) s i h GiveBack"
  shows "keeps_order t N R s (perform t i h GiveBack)"
proof -
  from ok have p: "i \<in> users h" "stage h = Usable" "i \<noteq> holder h" by (simp_all add: users_def)
  let ?h = "h\<lparr>lent_to := lent_to h - {i}\<rparr>" and ?s = "synchronize i (holder h) s"
  have thr: "users h \<subseteq> {..<N}"
    using in_threadsD(1) [OF orderlyD(3) [OF inv in_own] in_own] by blast
  have u: "users ?h = users h - {i}" using p by (auto simp: users_def)
  have "\<exists>j\<in>users ?h. happened (knows ?s l) \<subseteq> happened (knows ?s j) \<and> newest (knows ?s l) \<le> newest (knows ?s j)"
    if l: "l \<in> users h" for l
  proof (cases "l = i")
    case True
    then show ?thesis using u p by (intro bexI [of _ "holder h"]) auto
  next
    case False
    with l u show ?thesis by (intro bexI [of _ l]) auto
  qed
  then have "orderly t N (add_mset ?h R) ?s"
    using p thr u by (intro orderly_pass [OF keeps_synchronized [OF inv in_own]]) auto
  then show ?thesis by simp
qed

theorem perform_keeps_order:
  assumes inv: "orderly t N (add_mset h R) s" and ok: "permits N (add_mset h R) s i h a" and few: "N \<le> ISIZE_MAX t"
  shows "keeps_order t N R s (perform t i h a)"
proof -
  note al = orderlyD(1) [OF inv in_own]
  show ?thesis
  proof (cases a)
    case CloneIt with keeps_clone [OF inv _ few] ok show ?thesis by metis
  next
    case (Check n) with keeps_check [OF inv] ok show ?thesis by metis
  next
    case ReadBytes
    with ok have "i \<in> users h" by simp
    from orderly_touch [OF inv in_own this, of Reading] al ReadBytes show ?thesis by simp
  next
    case (Shorten n) with orderly_shorten [OF inv] ok show ?thesis by simp
  next
    case (WriteBytes xs)
    with ok have p: "exclusive i h" "stage h = Sole" "length xs \<le> length (bytes_stored s)" by simp_all
    note S = sole_knows_all [OF inv p(1,2)]
    from orderly_write [OF inv [unfolded S(1)] p(1) S(2) p(3)] knows_all_ordered [OF S(2)] al S(1) WriteBytes
    show ?thesis by simp
  next
    case Replace
    with ok have p: "exclusive i h" "stage h = Sole" by simp_all
    from keeps_free [OF al sole_knows_all(2) [OF inv p]] sole_knows_all(1) [OF inv p] Replace show ?thesis
      by (simp only: perform.simps)
  next
    case EndMethod with orderly_usable [OF inv] ok show ?thesis by simp
  next
    case ReleaseIt with keeps_release [OF inv _ few] ok show ?thesis by metis
  next
    case Deallocate
    with ok have p: "exclusive i h" "stage h = Last" by simp_all
    from keeps_free [OF _ last_knows_all(2) [OF inv p]] al last_knows_all(1) [OF inv p] Deallocate show ?thesis
      by (simp add: on_last_reference_def)
  next
    case Forget with orderly_forget [OF inv] ok show ?thesis by simp
  next
    case (Move j) with keeps_move [OF inv] ok show ?thesis by metis
  next
    case (Lend j) with keeps_lend [OF inv] ok show ?thesis by metis
  next
    case GiveBack with keeps_give_back [OF inv] ok show ?thesis by metis
  qed
qed

section \<open>Every interleaving\<close>

fun orderly_config :: "target \<Rightarrow> nat \<Rightarrow> sharing_config \<Rightarrow> bool" where
  "orderly_config t N (Sharing H s) \<longleftrightarrow> orderly t N H s"
| "orderly_config t N Raced \<longleftrightarrow> False"

lemma turn_keeps_order:
  assumes "turn t N C i C'" "orderly_config t N C" "N \<le> ISIZE_MAX t"
  shows "orderly_config t N C'"
  using assms(1)
proof cases
  case (acted h R s a hs s')
  with perform_keeps_order [of t N h R s i a] assms(2,3) show ?thesis by (simp add: wp_Ret)
next
  case (raced h R s a)
  with perform_keeps_order [of t N h R s i a] assms(2,3) show ?thesis by (simp add: wp_def)
next
  case (synchronized j H s)
  with assms(2) have "orderly t N H s" by simp
  then have "orderly t N H (synchronize j i s)"
  proof (cases "H = {#}")
    case True
    then show ?thesis using \<open>orderly t N H s\<close>
      by (auto simp: orderly_def orderly_defs synchronize_def knows_more_def split: if_splits)
  next
    case False
    then obtain h where "h \<in># H" by blast
    with keeps_synchronized \<open>orderly t N H s\<close> show ?thesis by blast
  qed
  with synchronized show ?thesis by simp
qed

lemma interleaved_orderly:
  assumes "interleaved t N C" "N \<le> ISIZE_MAX t"
  shows "orderly_config t N C"
  using assms(1)
proof induction
  case (initially i xs bs)
  then show ?case using orderly_initially by simp
next
  case (next_turn C i C')
  then show ?case using turn_keeps_order assms(2) by blast
qed

text \<open>No thread is ever stuck: an action the types permit has a result.\<close>

lemma permitted_turn:
  assumes "interleaved t N (Sharing (add_mset h R) s)" "N \<le> ISIZE_MAX t" "permits N (add_mset h R) s i h a"
  obtains hs s' where "perform t i h a s = Ret hs s'" "turn t N (Sharing (add_mset h R) s) i (Sharing (hs + R) s')"
proof -
  from interleaved_orderly [OF assms(1,2)] have "orderly t N (add_mset h R) s" by simp
  from perform_keeps_order [OF this assms(3,2)] obtain hs s' where r: "perform t i h a s = Ret hs s'"
    by (cases "perform t i h a s") (auto simp: wp_def)
  with turn.acted [OF assms(3)] that show ?thesis by blast
qed

lemma counter_is_exact:
  assumes "interleaved t N (Sharing H s)" "N \<le> ISIZE_MAX t" "allocated s"
  shows "stored (latest s) = references H + forgotten s" "stored (latest s) \<le> USIZE_MAX t"
proof -
  from interleaved_orderly [OF assms(1,2)] assms(3) have inv: "orderly t N H s" "exactly_counted t H s" "in_threads N H"
    by (simp_all add: orderly_def)
  then show "stored (latest s) = references H + forgotten s" by (simp add: exactly_counted_def)
  have "surplus H \<le> N" using in_threadsD(3,4) [OF inv(3)] by (intro surplus_bound) auto
  with inv(2) assms(2) ISIZE_MAX_USIZE_MAX [of t] show "stored (latest s) \<le> USIZE_MAX t"
    unfolding exactly_counted_def by linarith
qed

lemma allocated_iff_used:
  assumes "interleaved t N (Sharing H s)" "N \<le> ISIZE_MAX t"
  shows "allocated s \<longleftrightarrow> H \<noteq> {#} \<or> 0 < forgotten s"
  using interleaved_orderly [OF assms] by (auto simp: orderly_def exactly_counted_def split: if_splits)

lemma reads_own_text:
  assumes "interleaved t N (Sharing H s)" "N \<le> ISIZE_MAX t" "h \<in># H"
  shows "take (length (own_text h)) (bytes_stored s) = own_text h"
  using orderlyD(8) [of t N H s h] interleaved_orderly [OF assms(1,2)] assms(3) by (simp add: texts_stored_def)

lemma sole_is_only:
  assumes "interleaved t N (Sharing H s)" "N \<le> ISIZE_MAX t" "h \<in># H" "stage h = Sole"
  shows "H = {#h#}"
  using isolatedD(1) [OF orderlyD(7) [OF _ assms(3)] assms(3,4)] interleaved_orderly [OF assms(1,2)] by simp

text \<open>Another thread cannot touch a handle it does not have on loan, nor the buffer of one that was
  found unique.\<close>

lemma permits_user: "permits N H s i h a \<Longrightarrow> i \<in> users h"
  by (cases a) (auto simp: users_def)

lemma others_keep_handle:
  assumes "turn t N (Sharing (add_mset h R) s) j (Sharing H' s')" "exclusive i h" "j \<noteq> i"
  shows "h \<in># H'"
  using assms(1)
proof cases
  case (acted g R' a hs)
  then have "j \<in> users g" using permits_user by blast
  with assms(2,3) have "g \<noteq> h" by auto
  with acted(1) have "h \<in># R'" by (metis insert_noteq_member)
  with acted show ?thesis by simp
next
  case (synchronized j)
  then show ?thesis by simp
qed

lemma others_keep_sole:
  assumes r: "interleaved t N (Sharing H s)" "N \<le> ISIZE_MAX t" and h: "h \<in># H" "stage h = Sole"
    and turn: "turn t N (Sharing H s) j (Sharing H' s')" and j: "j \<noteq> holder h"
  shows "H' = H \<and> bytes_stored s' = bytes_stored s \<and> modifications s' = modifications s \<and> events s' = events s"
  using turn
proof cases
  case (acted g R a hs)
  from sole_is_only [OF r h] acted(1) have "g = h" by (metis add_mset_eq_single)
  moreover have "users h = {holder h}"
    using in_threadsD(2) [OF orderlyD(3) [OF _ h(1)] h(1)] interleaved_orderly [OF r] h(2) by simp
  ultimately show ?thesis using permits_user [OF acted(3)] j by simp
next
  case (synchronized j)
  then show ?thesis by simp
qed

end
