(* ===== verification/SharedRun.thy ===== *)
theory SharedRun
  imports ThreadSafety Instances
begin

text \<open>
  A concrete interleaving: thread 0 clones a value and moves the clone to thread 1, which drops it;
  thread 0 finds its value unique and changes it in place.
\<close>

definition first_share :: share where
  "first_share = fresh_handle 0 long_text"

definition after_clone :: shared_buffer where
  "after_clone = updated Relaxed 0 (\<lambda>c. wrapping_add x64 c 1) (recorded 0 Counting (fresh_buffer 0 long_text))"

definition after_move :: shared_buffer where
  "after_move = synchronize 0 1 after_clone"

definition after_drop :: shared_buffer where
  "after_drop = updated Release 1 (\<lambda>c. wrapping_sub x64 c 1) (recorded 1 Counting after_move)"

definition after_check :: shared_buffer where
  "after_check = observe Acquire 0 2 (recorded 0 Counting after_drop)"

definition after_write :: "byte list \<Rightarrow> shared_buffer" where
  "after_write xs = (recorded 0 Writing after_check)
     \<lparr>bytes_stored := overwrite (bytes_stored after_check) 0 xs\<rparr>"

lemma x64_wrapping:
  "wrapping_add x64 (Suc 0) (Suc 0) = 2" "wrapping_sub x64 2 (Suc 0) = Suc 0" "ISIZE_MAX x64 = 9223372036854775807"
  by (simp_all add: wrapping_add_def wrapping_sub_def USIZE_BITS_def ISIZE_MAX_def USIZE_SIZE_def)

lemma fresh_sel [simp]:
  "allocated (fresh_buffer i bs)" "events (fresh_buffer i bs) = [Writing]"
  "modifications (fresh_buffer i bs) = [\<lparr>stored = 1, attached = {}\<rparr>]"
  "newest (knows (fresh_buffer i bs) j) = 0" "observed (knows (fresh_buffer i bs) j) = {}"
  "happened (knows (fresh_buffer i bs) j) = (if j = i then {0} else {})"
  "bytes_stored (fresh_buffer i bs) = bs" "forgotten (fresh_buffer i bs) = 0"
  by (simp_all add: fresh_buffer_def)

lemma updated_sel [simp]:
  "allocated (updated ord i f s) = allocated s" "events (updated ord i f s) = events s"
  "stored (latest (updated ord i f s)) = f (stored (latest s))"
  "length (modifications (updated ord i f s)) = Suc (length (modifications s))"
  by (simp_all add: updated_def)

lemma run_start: "interleaved x64 2 (Sharing {#first_share#} (fresh_buffer 0 long_text))"
  unfolding first_share_def by (rule initially) simp_all

lemmas run_ops = add_reference_def fetch_add_def release_reference_def fetch_sub_def fetch_update_def
  load_is_unique_def atomic_load_def touch_def bind_def unordered_def run_simps

lemma turnI:
  assumes "perform t i h a s = Ret hs s'" "permits N (add_mset h R) s i h a" "H' = hs + R"
  shows "turn t N (Sharing (add_mset h R) s) i (Sharing H' s')"
  using acted [OF assms(2,1)] assms(3) by simp

lemma shares_sel [simp]:
  "holder first_share = 0" "lent_to first_share = {}" "stage first_share = Usable" "own_text first_share = long_text"
  "users first_share = {0}"
  by (simp_all add: first_share_def) (simp_all add: fresh_handle_def)

text \<open>The counter has been 1, 2 and 1 again; the events are the initial write, the increment and the
  decrement.\<close>

lemma clone_sel:
  "allocated after_clone" "events after_clone = [Writing, Counting]"
  "modifications after_clone = [\<lparr>stored = 1, attached = {}\<rparr>, \<lparr>stored = 2, attached = {}\<rparr>]"
  "newest (knows after_clone j) = (if j = 0 then 1 else 0)"
  "happened (knows after_clone j) = (if j = 0 then {0, 1} else {})"
  "bytes_stored after_clone = long_text"
  by (auto simp: after_clone_def updated_def x64_wrapping)

lemma drop_sel:
  "allocated after_drop" "events after_drop = [Writing, Counting, Counting]"
  "modifications after_drop = [\<lparr>stored = 1, attached = {}\<rparr>, \<lparr>stored = 2, attached = {}\<rparr>,
     \<lparr>stored = 1, attached = {0, 1, 2}\<rparr>]"
  "newest (knows after_drop 0) = 1" "happened (knows after_drop 0) = {0, 1}"
  "bytes_stored after_drop = long_text"
  by (auto simp: after_drop_def after_move_def updated_def x64_wrapping clone_sel)

lemma check_sel:
  "allocated after_check" "events after_check = [Writing, Counting, Counting, Counting]"
  "happened (knows after_check 0) = {0, 1, 2, 3}" "bytes_stored after_check = long_text"
  by (auto simp: after_check_def drop_sel)

lemma run_clone: "turn x64 2 (Sharing {#first_share#} (fresh_buffer 0 long_text)) 0
    (Sharing {#first_share, first_share#} after_clone)"
  by (rule turnI [where a = CloneIt])
    (simp_all add: run_ops after_clone_def updated_def x64_wrapping first_share_def fresh_handle_def)

lemma run_move: "turn x64 2 (Sharing {#first_share, first_share#} after_clone) 0
    (Sharing {#first_share\<lparr>holder := 1\<rparr>, first_share#} after_move)"
  by (rule turnI [where a = "Move 1"]) (simp_all add: run_ops after_move_def)

lemma run_drop: "turn x64 2 (Sharing {#first_share\<lparr>holder := 1\<rparr>, first_share#} after_move) 1
    (Sharing {#first_share#} after_drop)"
  by (rule turnI [where a = ReleaseIt])
    (auto simp: run_ops after_drop_def after_move_def updated_def clone_sel less_Suc_eq)

lemma run_check: "turn x64 2 (Sharing {#first_share#} after_drop) 0
    (Sharing {#first_share\<lparr>stage := Sole\<rparr>#} after_check)"
  by (rule turnI [where a = "Check 2"])
    (auto simp: run_ops after_check_def drop_sel readable_def less_Suc_eq)

lemma run_write: "length xs \<le> 20 \<Longrightarrow> turn x64 2 (Sharing {#first_share\<lparr>stage := Sole\<rparr>#} after_check) 0
    (Sharing {#first_share\<lparr>stage := Sole, own_text := xs\<rparr>#} (after_write xs))"
  by (rule turnI [where a = "WriteBytes xs"])
    (auto simp: run_ops after_write_def check_sel less_Suc_eq long_text_def)

lemmas run_shared = next_turn [OF next_turn [OF run_start run_clone] run_move]

lemma reach_dropped: "interleaved x64 2 (Sharing {#first_share#} after_drop)"
  by (rule next_turn [OF run_shared run_drop])

lemma reach_written:
  "length xs \<le> 20 \<Longrightarrow> interleaved x64 2 (Sharing {#first_share\<lparr>stage := Sole, own_text := xs\<rparr>#} (after_write xs))"
  by (rule next_turn [OF next_turn [OF reach_dropped run_check] run_write])

end
