(* ===== verification/Spec2Isabelle.thy ===== *)
theory Spec2Isabelle
  imports Instances SharedRun
begin

text \<open>
  A verification development for the crate \<^verbatim>\<open>lean_string\<close>: the two string types
  \<^verbatim>\<open>LeanString\<close> (mutable, copy on write) and \<^verbatim>\<open>LeanStr\<close> (immutable), each two
  machine words that hold a short text inline, point to a reference-counted heap buffer, or point to
  static memory.

  \<^bold>\<open>The program and its model.\<close> A method is a function from a state to one of four outcomes
  (\<open>Effects\<close>): it returns a value, returns an allocation error, panics, or does something the language
  leaves undefined. The state (\<open>Memory\<close>) has the blocks of the allocator with their possibly
  uninitialised bytes, an oracle that says which calls of the allocator fail, and the variable behind
  \<^verbatim>\<open>&mut self\<close>. The target is a parameter: pointer width, byte order, and whether debug
  assertions are on, so every theorem holds for 32 and 64 bits, both byte orders, debug and release.
  A machine integer is a \<open>nat\<close> with the wrap-around and the overflow check written out, bytes are
  \<open>8 word\<close>. Where the code takes a \<^verbatim>\<open>usize\<close> the theorems hold for every natural number. A text is a list of bytes; \<open>Utf8\<close> defines when it is valid and what its characters are.

  \<^item> \<open>Prelude\<close>: targets, byte order, lists of bytes that are overwritten in part.
  \<^item> \<open>TextLen\<close>: \<^verbatim>\<open>src/src/repr/last_byte.rs\<close> and the length and capacity words of
    \<^verbatim>\<open>heap_buffer.rs\<close>.
  \<^item> \<open>HeapBuffer\<close> (definitions of \<^verbatim>\<open>heap_buffer.rs\<close>), \<open>HeapView\<close> (the abstract view of an
    allocation), \<open>HeapOps\<close>, \<open>HeapAlloc\<close>, \<open>HeapMove\<close> (reading, counting, releasing; allocating;
    reallocating and the conversion of headers, each shown to act on the view).
  \<^item> \<open>InlineBuffer\<close>, \<open>StaticBuffer\<close>: \<^verbatim>\<open>inline_buffer.rs\<close>, \<^verbatim>\<open>static_buffer.rs\<close>.
  \<^item> \<open>Repr\<close>, \<open>ReprMut\<close>: the definitions of \<^verbatim>\<open>src/src/repr.rs\<close>. \<open>ReprVariants\<close>: the three
    variants and what a value denotes. \<open>Owners\<close>: the invariant. \<open>ReprCore\<close>, \<open>ReprGrow\<close>, \<open>ReprEdit\<close>,
    \<open>ReprAppend\<close>, \<open>ReprRemove\<close>, \<open>ReprRetain\<close>, \<open>ReprConv\<close>: the specification of every method.
  \<^item> \<open>CaseScan\<close>, \<open>ReprCase\<close>: \<^verbatim>\<open>src/src/case.rs\<close> and the case conversions of
    \<^verbatim>\<open>repr.rs\<close>. \<open>NumToRepr\<close>: \<^verbatim>\<open>num_to_repr.rs\<close>.
  \<^item> \<open>Sinks\<close>: panicking variants, local variables, and the locales \<open>text_sink\<close>, \<open>char_sink\<close>,
    \<open>str_sink\<close> for everything text is pushed into piece by piece.
  \<^item> \<open>LeanString\<close>: the methods of the two types in \<^verbatim>\<open>src/src/lib.rs\<close>. \<open>Contracts\<close>: the
    locales \<open>string_type\<close>, \<open>conversion\<close> and \<open>round_trip\<close>, interpreted on both types. \<open>Decoding\<close>: the
    decoders of the standard library the crate uses. \<open>FromEncoded\<close>: the constructors from UTF-8 and
    UTF-16. \<open>Collect\<close>: collecting, extending and \<^verbatim>\<open>fmt::Write\<close>. \<open>Compare\<close>: equality, order
    and hash. \<open>Traits\<close>: the conversions of \<^verbatim>\<open>lib.rs\<close>, \<^verbatim>\<open>traits.rs\<close>,
    \<^verbatim>\<open>src/src/errors\<close> and \<^verbatim>\<open>src/src/features\<close>.
  \<^item> \<open>Mutations\<close>: the editing methods and the copying methods as two families, one theorem for each,
    with what they return. \<open>Reading\<close>: the methods that read one value or compare two. \<open>Creating\<close>: all ways
    to make a value from something that is none: constructors, checked and lossy decoders,
    \<^verbatim>\<open>Display\<close>, serde, \<^verbatim>\<open>arbitrary\<close>. \<open>Gathering\<close>: collecting and extending, which consume
    several values.
  \<^item> \<open>System\<close>, \<open>Execution\<close>: programs that use the crate, as a step relation next to a specification
    without memory. An event is a call with its arguments and how it ended: with an answer, an error,
    a rejection of the input, or a panic. They create values in all these ways, read, compare, copy,
    edit, extend, write to, split, convert, gather and drop them, with the methods that return errors
    and with those that panic. \<open>Instances\<close>: concrete inputs.

  \<^bold>\<open>What is shown.\<close> The invariant \<open>sound t R s\<close> relates the multiset \<open>R\<close> of live values, each with its
  text, to the memory: every value denotes its text, which is valid UTF-8, and every reference count is
  exactly the number of values that point to the allocation. Each method has one specification under
  an arbitrary rest \<open>R\<close> of owners, stated with \<open>wp\<close>, a total-correctness predicate with one
  postcondition for each way to end and none for undefined behaviour. So each specification also says
  that the method terminates, is memory-safe, and changes no other value. An allocation error is
  always traced to its reason: a size that no allocation can have, or a call of the allocator that
  failed in between (\<open>refused\<close>, \<open>out_of_memory\<close>). From these follow the theorems of this file: safety,
  refinement of the specification without memory, exact counts, no leak, isolation of values that
  share a buffer, progress, and the functional behaviour of every group of methods. The locales state
  the interfaces between the layers; each is interpreted on the model's own definitions.

  \<^bold>\<open>Loops.\<close> Loops are recursive functions, structural or with a measure (the loop of
  \<^verbatim>\<open>retain\<close> counts the bytes that are left); the doubling loop of \<^verbatim>\<open>repeat\<close> is a partial
  function, shown to end. There is no fuel. The calls of the allocator are
  numbered, so the oracle can let any of them fail.

  \<^bold>\<open>Parameters.\<close> The Unicode case tables are a record \<open>unicode\<close> with the documented laws \<open>unicode_ok\<close>
  (the ASCII mappings, scalar values to scalar values, the special case of the capital sigma);
  \<open>Instances\<close> has a table that satisfies them. The text of floats and 128-bit integers, the data
  format behind serde, the source of \<^verbatim>\<open>arbitrary\<close>, and a predicate of \<^verbatim>\<open>retain\<close> (which may
  panic at any character) are arguments. A \<^verbatim>\<open>Display\<close> implementation is a tree of the writes it
  makes, which may look at the result of each and may fail or panic.

  \<^bold>\<open>Threads.\<close> In the state above methods run one after the other. \<open>Atomics\<close>, \<open>Threads\<close> and
  \<open>ThreadSafety\<close> model one heap buffer that values in several threads share: the atomic operations of
  \<^verbatim>\<open>heap_buffer.rs\<close> and \<^verbatim>\<open>make_shallow_clone\<close> with the orderings the code gives them,
  between which any other thread may run, on a memory model in which a load may return an old value
  and an access that no synchronisation orders after a conflicting one is undefined. Values may be
  moved (\<^verbatim>\<open>Send\<close>) and lent (\<^verbatim>\<open>Sync\<close>) to other threads. The invariant \<open>orderly\<close>
  gives freedom from data races, uses after free and double frees, exact counts without wrap-around
  for up to \<^verbatim>\<open>isize::MAX\<close> threads, and that all handles keep their text (\<open>SharedRun\<close> has a
  concrete interleaving). The model forbids cycles of program order and reads-from, so it has no load
  buffering; the in-place writes of one method count as one event, and a value that gets a buffer
  of its own leaves the model.

  \<^bold>\<open>Not modelled.\<close> Provenance beyond block and
  offset, the cost of operations, \<^verbatim>\<open>const\<close> evaluation, the compile-time assertions about the
  layout of the types, the tests and the benchmarks.
\<close>

section \<open>A program that uses the crate\<close>

text \<open>C1. No program that uses the values of the crate through their methods does anything
  undefined: no configuration that can be reached is \<open>Crashed\<close>. This covers dangling and
  out-of-bounds accesses, reads of uninitialised bytes, wrong layouts at a deallocation, reached
  \<^verbatim>\<open>unreachable_unchecked\<close>s and broken \<^verbatim>\<open>unsafe\<close> preconditions, on every target and
  for every behaviour of the allocator. The methods are those of \<open>command\<close>, \<open>origin\<close> and \<open>gathering\<close>:
  the constructors, reading, comparing, editing, copying, converting, collecting and dropping.\<close>

theorem no_undefined_behaviour:
  assumes "reachable t u C" "unicode_ok u"
  shows "C \<noteq> Crashed"
  using reachable_stands_for [OF assms] by auto

theorem no_undefined_behaviour_witness:
  "Running [(Mutable, heap_value)] heap_memory \<noteq> Crashed"
  by (rule no_undefined_behaviour [OF reach_heap unicode_ok_small])

text \<open>C2. Refinement. A value stands for its type and its text. Whatever a call does in memory and
  however it ends, the specification, which knows no memory, can take a step with the same event,
  with the same answer if it returns one, and the new values stand for what it leads to. So the
  answers of the methods, the errors and the panics are those the texts alone determine.\<close>

theorem calls_refine_specification:
  assumes "step t u C e C'" "unicode_ok u" "stands_for t C W"
  shows "\<exists>W'. spec_step t u (starved t C C') W e W' \<and> stands_for t C' W'"
  using step_followed [OF assms] by (simp add: followed_def)

theorem calls_refine_specification_witness:
  "\<exists>W'. spec_step x64 small_table
      (starved x64 (Running [] no_memory_used) (Running [(Mutable, heap_value)] heap_memory))
      [] (Create (Text Mutable long_text) (Completed Done)) W' \<and>
    stands_for x64 (Running [(Mutable, heap_value)] heap_memory) W'"
  by (rule calls_refine_specification [OF step_long_text unicode_ok_small
        stands_for_blank [OF blank_no_memory_used]])

text \<open>C3. The reference count stored in a buffer is the number of values that share it.\<close>

theorem reference_count_exact:
  assumes "reachable t u (Running V s)" "unicode_ok u" "(h, r) \<in> set V" "block_of r = Some b"
  shows "bind (as_heap_buffer t r) (count_load t h) s = Ret (sharing V b) s"
  using assms by (rule count_is_sharing)

theorem reference_count_exact_witness:
  "\<exists>s :: repr st. bind (as_heap_buffer x64 heap_value) (count_load x64 Mutable) s = Ret 2 s"
proof -
  from reach_shared obtain s where
    "reachable x64 small_table (Running [(Mutable, heap_value), (Mutable, heap_value)] s)" by blast
  from reference_count_exact [OF this unicode_ok_small, of Mutable heap_value 0] show ?thesis
    by (auto simp: sharing_def numeral_2_eq_2)
qed

text \<open>C4. An allocation is live if and only if a value points to it: a buffer is neither freed while
  it is used nor leaked. When no value is left, no allocation is.\<close>

theorem no_dangling_no_leak:
  assumes "reachable t u (Running V s)" "unicode_ok u"
  shows "(\<forall>b. blocks s b \<noteq> None \<longleftrightarrow> (\<exists>v \<in> set V. block_of (snd v) = Some b)) \<and>
    (V = [] \<longrightarrow> blocks s = Map.empty)"
  using live_iff_shared [OF assms] by (auto simp: sharing_def filter_empty_conv fun_eq_iff)

theorem no_dangling_no_leak_witness:
  "blocks heap_memory 0 \<noteq> None \<and> blocks heap_memory 1 = None"
proof -
  have "\<forall>b. blocks heap_memory b \<noteq> None \<longleftrightarrow> (\<exists>v \<in> set [(Mutable, heap_value)]. block_of (snd v) = Some b)"
    using no_dangling_no_leak [OF reach_heap unicode_ok_small] by blast
  from this [rule_format, of 0] this [rule_format, of 1] show ?thesis by simp
qed

text \<open>C5. Copy on write: a call on one value, whether it returns, fails or panics, leaves the text of
  every other value as it was, also of those that share the buffer of its operand.\<close>

theorem others_keep_their_text:
  assumes "step t u (Running V s) (Call i c e) (Running V' s')" "reachable t u (Running V s)" "unicode_ok u"
    and "j \<noteq> i" "reads t (Running V s) j xs"
  shows "reads t (Running V' s') (if j < i then j else j + length V' - length V) xs"
  using assms by (rule others_unchanged)

theorem others_keep_their_text_witness:
  "\<exists>s V' s' e. step x64 small_table (Running [(Mutable, heap_value), (Mutable, heap_value)] s)
      (Call 0 (Mutate (Truncate 3)) e) (Running V' s') \<and>
    reads x64 (Running V' s') (1 + length V' - 2) long_text"
proof -
  from reach_shared obtain s :: "repr st" where r:
    "reachable x64 small_table (Running [(Mutable, heap_value), (Mutable, heap_value)] s)"
    "sound x64 {#(Mutable, heap_value, long_text), (Mutable, heap_value, long_text)#} s" by blast
  let ?C = "Running [(Mutable, heap_value), (Mutable, heap_value)] s"
  have "stands_for x64 ?C [(Mutable, long_text), (Mutable, long_text)]"
    unfolding stands_for.simps
    by (intro exI [of _ "[(Mutable, heap_value, long_text), (Mutable, heap_value, long_text)]"]) (simp add: r(2))
  then have x: "reads x64 ?C 1 long_text" by (simp add: stands_for_reads)
  from call_has_outcome [of x64 small_table "[]" "(Mutable, heap_value)" "[(Mutable, heap_value)]" s
      "Mutate (Truncate 3)"] r(1) unicode_ok_small
  obtain e C' where st: "step x64 small_table ?C (Call 0 (Mutate (Truncate 3)) e) C'" by auto
  moreover from reachable.more [OF r(1) st] unicode_ok_small have "C' \<noteq> Crashed"
    using reachable_stands_for by fastforce
  then obtain V' s' where "C' = Running V' s'" by (cases C') auto
  ultimately show ?thesis
    using others_keep_their_text [of x64 small_table "[(Mutable, heap_value), (Mutable, heap_value)]" s 0
      "Mutate (Truncate 3)" e V' s' 1 long_text] r(1) unicode_ok_small x by auto
qed

text \<open>C6. Every live value reads as well-formed UTF-8.\<close>

theorem values_are_utf8:
  assumes "reachable t u (Running V s)" "unicode_ok u" "i < length V"
  shows "\<exists>xs. reads t (Running V s) i xs \<and> valid_utf8 xs"
proof -
  from reachable_owners [OF assms(1,2)] obtain ws where ws: "map handle_of ws = V" "sound t (mset ws) s" .
  then have st: "stands_for t (Running V s) (map meaning_of ws)" by auto
  from ws(1) assms(3) have i: "i < length ws" by auto
  obtain h r xs where w: "ws ! i = (h, r, xs)" by (cases "ws ! i")
  with nth_mem_mset [OF i] have "(h, r, xs) \<in># mset ws" by simp
  with sound_valid [OF ws(2)] stands_for_reads [OF st, of i xs] i w show ?thesis by auto
qed

theorem values_are_utf8_witness:
  "\<exists>xs. reads x64 (Running [(Mutable, heap_value)] heap_memory) 0 xs \<and> valid_utf8 xs"
  by (rule values_are_utf8 [OF reach_heap unicode_ok_small]) simp

text \<open>C7. Progress. Whatever the type checker permits completes when there is memory for the result:
  a call whose argument is in range, while there are no more values than a count can hold; the
  creation of a value from a source that is accepted and not too long to be borrowed; collecting
  and extending.\<close>

theorem calls_complete:
  assumes "reachable t u (Running V s)" "unicode_ok u" "stands_for t (Running V s) W"
  shows "(V = V1 @ v # V2 \<and> permitted t (map fst (V1 @ V2)) c (fst v) \<and> reads t (Running V s) (length V1) xs \<and>
        in_range_call t c xs \<and> enough_memory t (call_demand t u c xs) s \<and> length V \<le> ISIZE_MAX t \<longrightarrow>
      (\<exists>a C'. step t u (Running V s) (Call (length V1) c (Completed a)) C')) \<and>
    (source_ok t src \<and> source_fate src = Some True \<and> \<not> source_too_long t src \<and>
        enough_memory t (source_demand src) s \<longrightarrow>
      (\<exists>C'. step t u (Running V s) (Create src (Completed Done)) C')) \<and>
    (can_pick js (length V) \<and> gathering_ok g (map fst (picked js V)) \<and>
        enough_memory t (length (joined (picked js W))) s \<longrightarrow>
      (\<exists>a C'. step t u (Running V s) (Gather g js (Completed a)) C'))"
proof (intro conjI impI; elim conjE)
  assume V: "V = V1 @ v # V2" and ok: "permitted t (map fst (V1 @ V2)) c (fst v)"
    and rest: "reads t (Running V s) (length V1) xs" "in_range_call t c xs"
      "enough_memory t (call_demand t u c xs) s" "length V \<le> ISIZE_MAX t"
  from call_has_outcome [OF assms(1) [unfolded V] assms(2) ok] obtain e C' where
    st: "step t u (Running V s) (Call (length V1) c e) C'" unfolding V by blast
  with step_completes [OF st assms(1,2) rest]
  show "\<exists>a C'. step t u (Running V s) (Call (length V1) c (Completed a)) C'" by blast
qed (use create_completes [OF assms(1,2)] gather_completes [OF assms] in blast)+

theorem calls_complete_witness:
  "(\<exists>a C'. step x64 small_table (Running [(Mutable, heap_value)] heap_memory)
      (Call 0 (Mutate (Push 0x3BB)) (Completed a)) C') \<and>
    (\<exists>C'. step x64 small_table (Running [(Mutable, heap_value)] heap_memory)
      (Create (Text Immutable long_text) (Completed Done)) C') \<and>
    (\<exists>a C'. step x64 small_table (Running [(Mutable, heap_value)] heap_memory)
      (Gather (IntoValue Mutable Immutable) [0] (Completed a)) C')"
proof -
  let ?C = "Running [(Mutable, heap_value)] heap_memory"
  have "stands_for x64 ?C [(Mutable, long_text)]"
    unfolding stands_for.simps by (intro exI [of _ "[(Mutable, heap_value, long_text)]"]) (simp add: sound_heap)
  from calls_complete [OF reach_heap unicode_ok_small this, of "[]" "(Mutable, heap_value)" "[]"
      "Mutate (Push 0x3BB)" long_text "Text Immutable long_text" "[0]" "IntoValue Mutable Immutable"]
  show ?thesis
    using reads_heap valid_long_text
    by (simp add: scalar_def len_utf8_def enough_memory_x64 target_numbers_64 can_pick_def picked_def joined_def)
qed

section \<open>Methods\<close>

text \<open>C8. Editing. Among any other owners, an editing method either returns what it should with
  exactly its effect on the text, or fails or panics as \<open>failed\<close> and \<open>panicked\<close> say; all other owners keep their
  texts. A predicate of \<^verbatim>\<open>retain\<close> that panics before it has rejected anything leaves the text as it
  was, and one that panics later leaves the characters kept so far.\<close>

theorem editing_has_its_effect:
  assumes "holds t R xs s" "mutation_ok t m"
  shows "wp (run_mutation t m) (returned t R m xs s) (failed t R m xs s) (panicked t R m xs s) s"
  using assms by (rule mutation_sound)

theorem editing_has_its_effect_witness:
  "\<exists>s. holds x64 {#(Mutable, heap_value, long_text)#} long_text s \<and>
    wp (run_mutation x64 (Insert 5 0x3BB)) (returned x64 {#(Mutable, heap_value, long_text)#} (Insert 5 0x3BB) long_text s)
      (failed x64 {#(Mutable, heap_value, long_text)#} (Insert 5 0x3BB) long_text s)
      (panicked x64 {#(Mutable, heap_value, long_text)#} (Insert 5 0x3BB) long_text s) s"
proof -
  from holds_shared obtain s where h: "holds x64 {#(Mutable, heap_value, long_text)#} long_text s" by blast
  from editing_has_its_effect [OF h, of "Insert 5 0x3BB"] h show ?thesis by (auto simp: scalar_def)
qed

text \<open>C9. Failure is atomic: an editing method that returns an error leaves the value itself and its
  text untouched, and there was not enough memory.\<close>

theorem failed_editing_changes_nothing:
  assumes "holds t R xs s" "mutation_ok t m" "run_mutation t m s = Fail s'"
  shows "self s' = self s \<and> holds t R xs s' \<and> \<not> enough_memory t (demand t m (length xs)) s"
proof -
  from mutation_sound [OF assms(1,2)] assms(3) have f: "failed t R m xs s s'" by (simp add: wp_def)
  then have "\<not> enough_memory t (demand t m (length xs)) s"
    using enough_memory_not_out [of t "demand t m (length xs)" s "demand t m (length xs)" s']
    by (auto simp: failed_def)
  with f show ?thesis by (simp add: failed_def)
qed

theorem failed_editing_changes_nothing_witness:
  "\<exists>s s'. run_mutation x64 (ReserveExact (2 ^ 64 - 1)) s = Fail s' \<and> self s' = self s \<and> holds x64 {#} [0x61] s'"
proof -
  let ?s = "no_memory_used\<lparr>self := inline_repr [0x61]\<rparr>" and ?m = "ReserveExact (2 ^ 64 - 1)"
  have h: "holds x64 {#} [0x61] ?s" by (rule holds_inline_text) (simp_all add: valid_utf8_ascii)
  obtain c where c: "has_capacity x64 ?s c" "length [0x61 :: byte] \<le> c" using h by (rule holds_capacityE)
  have "c = 16"
    using has_capacity_unique [OF c(1) capacity_inline [of x64 "inline_bytes x64 [0x61]"]]
      inline_word_inline_bytes [of "[0x61]" x64] by (simp add: inline_repr_def valid_utf8_ascii)
  with c(1) have "must_grow x64 (2 ^ 64 - 1) ?s = Ret True ?s"
    unfolding wp_Ret_iff [symmetric] by (simp add: wp_must_grow [OF h c(1)])
  moreover have "repr_len x64 Mutable (inline_repr [0x61]) ?s = Ret 1 ?s"
    using holds_repr_len [OF h] unfolding wp_Ret_iff [symmetric] by simp
  ultimately have "run_mutation x64 ?m ?s = Fail ?s"
    by (simp add: silently_def answering_def try_reserve_exact_def reserve_exact_def grow_exact_def bind_def gets_def
        checked_add_def ok_or_def fail_def target_numbers_64)
  from failed_editing_changes_nothing [OF h _ this] this show ?thesis by auto
qed

text \<open>C10. A method that makes a new value of the same type (\<^verbatim>\<open>clone\<close>, \<^verbatim>\<open>repeat\<close>, the ASCII and
  Unicode case conversions, of both types) gives a value with the text it should have and keeps
  every old one. It gives up only when memory is refused or the reference count is full.\<close>

theorem copying_has_its_text:
  assumes "unicode_ok u" "sound t R s" "(h, r, xs) \<in># R"
  shows "wp (run_copying t u c h r)
    (\<lambda>r' s'. sound t (add_mset (h, r', copied u c xs) R) s' \<and> mem_only s s')
    (gave_up t R (copy_demand u c xs) s)
    (\<lambda>s'. gave_up t R (copy_demand u c xs) s s' \<or> (s' = s \<and> count_limit t R r)) s"
  using assms by (rule copying_sound)

theorem copying_has_its_text_witness:
  "wp (run_copying x64 small_table (Cased Upper) Mutable heap_value)
    (\<lambda>r' s'. sound x64 {#(Mutable, r', copied small_table (Cased Upper) long_text), (Mutable, heap_value, long_text)#} s' \<and>
      mem_only heap_memory s')
    (gave_up x64 {#(Mutable, heap_value, long_text)#} (copy_demand small_table (Cased Upper) long_text) heap_memory)
    (\<lambda>s'. gave_up x64 {#(Mutable, heap_value, long_text)#} (copy_demand small_table (Cased Upper) long_text) heap_memory s' \<or>
      (s' = heap_memory \<and> count_limit x64 {#(Mutable, heap_value, long_text)#} heap_value)) heap_memory"
  by (rule copying_has_its_text [OF unicode_ok_small sound_heap]) simp

text \<open>C11. A clone is the same two words, adds one owner and asks the allocator for nothing; it panics
  only when \<^verbatim>\<open>isize::MAX\<close> would be exceeded, and then changes nothing.\<close>

theorem clone_shares:
  assumes "sound t R s" "(h, r, xs) \<in># R"
  shows "wp (make_shallow_clone t h r)
    (\<lambda>r' s'. r' = r \<and> sound t (add_mset (h, r, xs) R) s' \<and> calls s' = calls s)
    (\<lambda>_. False) (\<lambda>s'. s' = s \<and> ISIZE_MAX t < size R) s"
proof (rule wp_mono [OF sound_make_shallow_clone [OF assms, where E = "\<lambda>_. False"]])
  fix s' assume "s' = s \<and> count_limit t R r"
  then show "s' = s \<and> ISIZE_MAX t < size R"
    using handles_le_size le_less_trans order_less_le_trans by (fastforce simp: count_limit_def)
qed simp_all

theorem clone_shares_witness:
  "wp (make_shallow_clone x64 Mutable heap_value)
    (\<lambda>r' s'. r' = heap_value \<and> sound x64 {#(Mutable, heap_value, long_text), (Mutable, heap_value, long_text)#} s' \<and>
      calls s' = calls heap_memory)
    (\<lambda>_. False) (\<lambda>s'. s' = heap_memory \<and> ISIZE_MAX x64 < size {#(Mutable, heap_value, long_text)#}) heap_memory"
  by (rule clone_shares [OF sound_heap]) simp

text \<open>C12. Splitting at a boundary and pushing the second half back gives the old text; the temporary
  value is gone.\<close>

theorem split_off_rejoin:
  assumes h: "holds t R xs s" and b: "is_char_boundary xs n"
  shows "wp (split_and_rejoin t n) (\<lambda>_ s'. holds t R xs s') (\<lambda>_. True) (\<lambda>_. False) s"
proof -
  let ?Q = "\<lambda>_ s'. holds t R xs s'" and ?E = "\<lambda>_ :: repr st. True" and ?P = "\<lambda>_ :: repr st. False"
  have "wp (try_split_off t n) (\<lambda>r. wp (lean_as_str t r)
      (\<lambda>text. wp (try_push_str t text) (\<lambda>_. wp (lean_drop t r) ?Q ?E ?P) ?E ?P) ?E ?P) ?E ?P s"
  proof (rule wp_mono [OF holds_split_off [OF h]])
    fix r s1
    assume "is_char_boundary xs n \<and> holds t (add_mset (Mutable, r, drop n xs) R) (take n xs) s1 \<and> later s s1"
    then have s1: "holds t (add_mset (Mutable, r, drop n xs) R) (take n xs) s1"
      and o: "(Mutable, r, drop n xs) \<in># add_mset (Mutable, self s1, take n xs) (add_mset (Mutable, r, drop n xs) R)"
      by auto
    have v: "valid_utf8 (drop n xs)" using holds_valid [OF h] b by (rule valid_utf8_drop)
    have "wp (try_push_str t (drop n xs)) (\<lambda>_. wp (lean_drop t r) ?Q ?E ?P) ?E ?P s1"
      unfolding try_push_str_def
    proof (rule wp_mono [OF holds_push_str [OF s1 v]])
      fix x s2 assume "edited t (add_mset (Mutable, r, drop n xs) R) (take n xs @ drop n xs) s1 s2"
      then have "sound t (add_mset (Mutable, r, drop n xs) (add_mset (Mutable, self s2, xs) R)) s2"
        by (simp add: edited_def holds_def add_mset_commute)
      from sound_drop_in [OF this] show "wp (lean_drop t r) ?Q ?E ?P s2"
        unfolding lean_drop_def by (rule wp_mono) (auto simp: holds_def mem_only_def)
    qed simp_all
    with s1 show "wp (lean_as_str t r) (\<lambda>text. wp (try_push_str t text) (\<lambda>_. wp (lean_drop t r) ?Q ?E ?P) ?E ?P) ?E ?P s1"
      by (simp add: lean_as_str_def holds_def sound_as_str [OF _ o])
  qed (use b in simp_all)
  then show ?thesis by (simp add: split_and_rejoin_def)
qed

theorem split_off_rejoin_witness:
  "\<exists>s. self s = heap_value \<and>
    wp (split_and_rejoin x64 20) (\<lambda>_ s'. holds x64 {#(Mutable, heap_value, long_text)#} long_text s') (\<lambda>_. True) (\<lambda>_. False) s"
proof -
  from holds_shared obtain s where "holds x64 {#(Mutable, heap_value, long_text)#} long_text s" "self s = heap_value" by blast
  with split_off_rejoin [OF this(1), of 20] show ?thesis
    using is_char_boundary_ends [of long_text] by auto
qed

text \<open>C13. Converting to the other type and back keeps the text, from either type; when memory is
  refused on the way the value is released, not leaked.\<close>

theorem conversion_round_trip:
  assumes "sound t (add_mset (h, r, xs) R) s"
  shows "wp (if h = Mutable then bind (try_into_lean_str t r) (try_into_lean_string t)
      else bind (try_into_lean_string t r) (try_into_lean_str t))
    (\<lambda>r' s'. sound t (add_mset (h, r', xs) R) s' \<and> mem_only s s')
    (gave_up t R (length xs) s) (\<lambda>_. False) s"
  using assms lean_lstr.there_and_back [of t r xs R s] lstr_lean.there_and_back [of t r xs R s] by (cases h) simp_all

theorem conversion_round_trip_witness:
  "wp (bind (try_into_lean_str x64 heap_value) (try_into_lean_string x64))
    (\<lambda>r' s'. sound x64 {#(Mutable, r', long_text)#} s' \<and> mem_only heap_memory s')
    (gave_up x64 {#} 20 heap_memory) (\<lambda>_. False) heap_memory"
  using conversion_round_trip [OF sound_heap] by simp

text \<open>C14. Reading. Whatever variant a value is, on every target, its length, its bytes and its string
  are those of its text, and reading changes nothing.\<close>

theorem reading_gives_the_text:
  assumes "sound t R s" "(h, r, xs) \<in># R"
  shows "repr_len t h r s = Ret (length xs) s \<and> as_bytes t h r s = Ret xs s \<and> as_str t h r s = Ret xs s \<and>
    is_empty t h r s = Ret (xs = []) s"
proof -
  have "repr_len t h r s = Ret (length xs) s" "as_bytes t h r s = Ret xs s" "as_str t h r s = Ret xs s"
    unfolding wp_Ret_iff [symmetric]
    by (simp_all add: sound_repr_len [OF assms] sound_as_bytes [OF assms] sound_as_str [OF assms])
  then show ?thesis by (simp add: is_empty_def bind_def run_simps)
qed

theorem reading_gives_the_text_witness:
  "repr_len x64 Mutable heap_value heap_memory = Ret 20 heap_memory"
  using reading_gives_the_text [OF sound_heap] by simp

text \<open>C15. \<^verbatim>\<open>reserve\<close> gives room for as many bytes as were asked for in a buffer the value alone
  may write, or fails with the value untouched.\<close>

theorem reserve_gives_room:
  assumes "holds t R xs s" "n \<noteq> 0"
  shows "wp (reserve t n)
    (\<lambda>_ s'. holds t R xs s' \<and> modifiable R (self s') \<and> (\<exists>c. has_capacity t s' c \<and> length xs + n \<le> c))
    (\<lambda>s'. holds t R xs s' \<and> self s' = self s \<and> out_of_memory t (length xs + n) s s') (\<lambda>_. False) s"
  by (rule wp_mono [OF holds_reserve [OF assms]])
    (auto simp: roomy_def rejected_out_of_memory [OF _ amortized_le] rejected_def)

theorem reserve_gives_room_witness:
  "\<exists>s. wp (reserve x64 7)
    (\<lambda>_ s'. holds x64 {#(Mutable, heap_value, long_text)#} long_text s' \<and>
      modifiable {#(Mutable, heap_value, long_text)#} (self s') \<and> (\<exists>c. has_capacity x64 s' c \<and> 27 \<le> c))
    (\<lambda>s'. holds x64 {#(Mutable, heap_value, long_text)#} long_text s' \<and> self s' = self s \<and> out_of_memory x64 27 s s')
    (\<lambda>_. False) s"
proof -
  from holds_shared obtain s where "holds x64 {#(Mutable, heap_value, long_text)#} long_text s" by blast
  from reserve_gives_room [OF this, of 7] show ?thesis by auto
qed

text \<open>C16. Growth. A buffer that must grow for \<open>n\<close> more bytes gets exactly the larger of the bytes
  needed and one and a half times its length, and never less than what fits inline; so a sequence
  of pushes reallocates a logarithmic number of times.\<close>

theorem growth_is_amortized:
  assumes "holds t R xs s"
  shows "wp (grow_amortized t n)
    (\<lambda>_ s'. holds t R xs s' \<and> has_capacity t s' (max (MAX_INLINE_SIZE t)
        (if length xs + n \<le> MAX_INLINE_SIZE t then length xs + n
         else max (length xs + n) (length xs + length xs div 2))))
    (\<lambda>s'. holds t R xs s' \<and> self s' = self s) (\<lambda>_. False) s"
  by (rule wp_mono [OF holds_grow_amortized [OF assms]]) (simp_all add: grown_def rejected_def amortized_def max.commute)

theorem growth_is_amortized_witness:
  "\<exists>s. wp (grow_amortized x64 1)
    (\<lambda>_ s'. holds x64 {#(Mutable, heap_value, long_text)#} long_text s' \<and> has_capacity x64 s' 30)
    (\<lambda>s'. holds x64 {#(Mutable, heap_value, long_text)#} long_text s' \<and> self s' = self s) (\<lambda>_. False) s"
proof -
  from holds_shared obtain s where "holds x64 {#(Mutable, heap_value, long_text)#} long_text s" by blast
  from growth_is_amortized [OF this, of 1] show ?thesis by auto
qed

text \<open>C17. \<^verbatim>\<open>shrink_to\<close> leaves a value without a heap buffer, or one that is small enough, as it is,
  and otherwise makes the capacity exactly the larger of the length and the minimum, or moves the
  text inline.\<close>

theorem shrinking_is_exact:
  assumes "holds t R xs s" "has_capacity t s c"
  shows "wp (shrink_to t m)
    (\<lambda>_ s'. if block_of (self s) = None \<or> c \<le> max (length xs) m then s' = s
      else holds t R xs s' \<and> has_capacity t s' (max (max (length xs) m) (MAX_INLINE_SIZE t)))
    (\<lambda>s'. holds t R xs s' \<and> self s' = self s \<and> max (length xs) m < c) (\<lambda>_. False) s"
  by (rule wp_mono [OF holds_shrink_to [OF assms]]) (auto simp: grown_def rejected_def split: if_splits)

theorem shrinking_is_exact_witness:
  "\<exists>s c. has_capacity x64 s c \<and> wp (shrink_to x64 0)
    (\<lambda>_ s'. if block_of (self s) = None \<or> c \<le> 20 then s' = s
      else holds x64 {#(Mutable, heap_value, long_text)#} long_text s' \<and> has_capacity x64 s' 20)
    (\<lambda>s'. holds x64 {#(Mutable, heap_value, long_text)#} long_text s' \<and> self s' = self s \<and> 20 < c) (\<lambda>_. False) s"
proof -
  from holds_shared obtain s where h: "holds x64 {#(Mutable, heap_value, long_text)#} long_text s" by blast
  then obtain c where c: "has_capacity x64 s c" by (rule holds_capacityE)
  have nums: "max (length long_text) 0 = 20" "max 20 (MAX_INLINE_SIZE x64) = 20" by simp_all
  from shrinking_is_exact [OF h c, of 0, unfolded nums] c show ?thesis by blast
qed

section \<open>Representations\<close>

text \<open>C18. The 64-bit little-endian constructor of an inline buffer, which assembles two words from
  overlapping loads, and the portable one, which makes overlapping copies, both write the text,
  zeros, and the tagged length; neither reads outside the text.\<close>

theorem inline_constructors_agree:
  assumes "length text \<le> MAX_INLINE_SIZE t"
  shows "inline_new t text = ret (inline_bytes t text)"
  using assms by (rule inline_new_eq)

theorem inline_constructors_agree_witness:
  "inline_new x64 [0x61, 0x62, 0x63] = ret (inline_bytes x64 [0x61, 0x62, 0x63])"
  by (rule inline_constructors_agree) simp

text \<open>C19. The branch-free constructor from a character computes the UTF-8 bytes and the length tag of
  every Unicode scalar value, on every target.\<close>

theorem inline_char_is_utf8:
  assumes "scalar c"
  shows "inline_from_char t c = inline_bytes t (encode_utf8 c)"
  using assms by (rule inline_from_char_eq)

theorem inline_char_is_utf8_witness: "inline_from_char x64 0x1F600 = inline_bytes x64 [0xF0, 0x9F, 0x98, 0x80]"
proof -
  have e: "encode_utf8 0x1F600 = [0xF0, 0x9F, 0x98, 0x80]" by (simp add: encode_utf8_def byte_of_def)
  show ?thesis unfolding e [symmetric] by (rule inline_char_is_utf8) (simp add: scalar_def)
qed

text \<open>C20. The length word. A length that fits is stored with its tag and read back, and a length too long for the word is refused on 64-bit targets and stored in
  the allocation on 32-bit ones.\<close>

theorem length_word_round_trip:
  shows "(n \<le> MAX_LEN t \<longrightarrow> (\<exists>w. TextLen_new t n = Inr w \<and> TextLen_as_usize t w = n \<and> \<not> TextLen_is_heap t w)) \<and>
    (MAX_LEN t < n \<longrightarrow> TextLen_new t n =
      (case pointer_width t of P64 \<Rightarrow> Inl ReserveError | P32 \<Rightarrow> Inr (ON_THE_HEAP t)))"
  using TextLen_as_usize_new [of n t] TextLen_inline_not_heap [of n t] by (simp add: TextLen_new_def)

theorem length_word_round_trip_witness:
  "\<exists>w. TextLen_new x64 77 = Inr w \<and> TextLen_as_usize x64 w = 77 \<and> \<not> TextLen_is_heap x64 w"
  using length_word_round_trip [of 77 x64] by (simp add: MAX_LEN_numeral)

text \<open>C21. The two words of a value determine its variant: the last byte is at most \<open>0xCF\<close> for an
  inline text, and one of two markers for the others, so the three reinterpretations never mix.\<close>

theorem variants_are_disjoint:
  assumes "sound t R s" "(h, r, xs) \<in># R"
  shows "is_heap_buffer t r s = Ret (block_of r \<noteq> None) s \<and> is_static_buffer t r s = Ret (static_repr r) s \<and>
    \<not> (block_of r \<noteq> None \<and> static_repr r) \<and>
    (block_of r = None \<and> \<not> static_repr r \<longrightarrow> is_inline_buffer t r s = Ret True s \<and> length xs \<le> MAX_INLINE_SIZE t)"
proof -
  from assms(1) obtain H where "owns t H R" by (rule soundE)
  with assms(2) have "denotes t H h r xs" by (simp add: owns_denotes)
  then show ?thesis
  proof (cases rule: denotes_cases)
    case (inline B)
    then show ?thesis by (simp add: run_simps inline_holds_def)
  next
    case (static sb)
    then obtain ys where "sptr sb = StaticPtr ys" by (auto simp: static_holds_def)
    with static show ?thesis by (simp add: run_simps)
  next
    case (heap hb b v)
    then have "hptr hb = HeapPtr b (data_off t v)" by (simp add: buf_holds_def)
    with heap show ?thesis by (simp add: run_simps)
  qed
qed

theorem variants_are_disjoint_witness:
  "is_heap_buffer x64 heap_value heap_memory = Ret True heap_memory"
  using variants_are_disjoint [OF sound_heap, of Mutable heap_value long_text] by auto

text \<open>C22. A static text is taken over without an allocation, and handed out again as the same static
  text; a text too long for the length word is refused.\<close>

theorem static_text_is_borrowed:
  assumes "sound t R s" "valid_utf8 xs"
  shows "wp (from_static_str t xs)
    (\<lambda>r s'. s' = s \<and> sound t (add_mset (h, r, xs) R) s \<and> block_of r = None \<and>
      as_static_str t r s = Ret (if static_repr r then Some xs else None) s)
    (\<lambda>s'. s' = s \<and> Static_MAX_LENGTH t < length xs) (\<lambda>_. False) s"
proof (rule wp_mono [OF sound_from_static_str [OF assms, where h = h and P = "\<lambda>_. False"]])
  fix r s' assume r: "s' = s \<and> sound t (add_mset (h, r, xs) R) s \<and> block_of r = None"
  then have "sound t (add_mset (h, r, xs) R) s" by blast
  then have "as_static_str t r s = Ret (if static_repr r then Some xs else None) s"
    unfolding wp_Ret_iff [symmetric] by (simp add: sound_as_static_str)
  with r show "s' = s \<and> sound t (add_mset (h, r, xs) R) s \<and> block_of r = None \<and>
      as_static_str t r s = Ret (if static_repr r then Some xs else None) s" by simp
qed simp_all

theorem static_text_is_borrowed_witness:
  "wp (from_static_str x64 long_text)
    (\<lambda>r s'. s' = heap_memory \<and>
      sound x64 {#(Immutable, r, long_text), (Mutable, heap_value, long_text)#} heap_memory \<and> block_of r = None \<and>
      as_static_str x64 r heap_memory = Ret (if static_repr r then Some long_text else None) heap_memory)
    (\<lambda>s'. s' = heap_memory \<and> Static_MAX_LENGTH x64 < length long_text) (\<lambda>_. False) heap_memory"
  by (rule static_text_is_borrowed [OF sound_heap valid_long_text])

section \<open>Loops\<close>

text \<open>C23. The scan in chunks of \<^verbatim>\<open>case.rs\<close>, which adds up the answers of a chunk in one byte,
  finds the length of the longest prefix that satisfies the predicate.\<close>

theorem chunked_scan_is_prefix:
  shows "prefix_len_while bytes pred = length (takeWhile pred bytes)"
  by (rule prefix_len_while_eq)

text \<open>C24. The search for the first character that a case conversion changes: none is found if and only
  if no character changes, and otherwise the text is cut at a character boundary right before the
  first that does.\<close>

theorem first_change_is_found:
  assumes "unicode_ok u" "valid_utf8 xs"
  shows "case split_at_first_change u xs c of
      None \<Rightarrow> \<forall>ch \<in> set (chars xs). \<not> char_changes u ch c
    | Some (ys, zs) \<Rightarrow> xs = ys @ zs \<and> valid_utf8 ys \<and> (\<forall>ch \<in> set (chars ys). \<not> char_changes u ch c) \<and>
        (\<exists>ch cs. chars zs = ch # cs \<and> char_changes u ch c)"
proof (cases "split_at_first_change u xs c")
  case None
  with split_at_first_change_None [OF assms, of c] show ?thesis by simp
next
  case (Some p)
  obtain ys zs where p: "p = (ys, zs)" by (cases p)
  from split_at_first_change_Some [OF assms Some [unfolded p]] obtain as ch bs where
    d: "chars xs = as @ ch # bs" "char_changes u ch c" "\<forall>a \<in> set as. \<not> char_changes u a c"
      "ys = str_of as" "zs = str_of (ch # bs)" by blast
  have sc: "\<forall>a \<in> set (as @ ch # bs). scalar a" using chars_scalar [OF assms(2)] d(1) by auto
  have "xs = str_of (as @ ch # bs)" using str_of_chars [OF assms(2)] d(1) by simp
  with d sc have "xs = ys @ zs" "valid_utf8 ys" "chars ys = as" "chars zs = ch # bs"
    by (auto simp: chars_str_of)
  with d Some p show ?thesis by auto
qed

theorem first_change_is_found_witness:
  "case split_at_first_change small_table long_text Upper of
      None \<Rightarrow> \<forall>ch \<in> set (chars long_text). \<not> char_changes small_table ch Upper
    | Some (ys, zs) \<Rightarrow> long_text = ys @ zs \<and> valid_utf8 ys \<and> (\<forall>ch \<in> set (chars ys). \<not> char_changes small_table ch Upper) \<and>
        (\<exists>ch cs. chars zs = ch # cs \<and> char_changes small_table ch Upper)"
  by (rule first_change_is_found [OF unicode_ok_small valid_long_text])

text \<open>C25. Termination. The loop of \<^verbatim>\<open>repeat\<close>, which doubles what it has already written, ends
  for every text and every count with which it is entered, that is, a text that is not empty and a
  count that is not zero, with exactly that many copies.\<close>

theorem repeat_loop_ends:
  assumes "length dst = length xs * n" "xs \<noteq> []" "n \<noteq> 0"
  shows "repeat_fill (length xs * n) (overwrite dst 0 (map Some xs)) (length xs) = Some (map Some (concat (replicate n xs)))"
proof -
  have "(repeat_init xs (length xs * n) dst :: (unit, byte option list) prog) = ret (map Some (concat (replicate n xs)))"
    by (rule repeat_init_eq [OF assms(1)])
  moreover have "length xs \<le> length dst" using assms by (cases n) simp_all
  ultimately show ?thesis
    by (simp add: repeat_init_def fun_eq_iff run_simps split: option.splits)
qed

theorem repeat_loop_ends_witness:
  "repeat_fill 6 (overwrite (replicate 6 None) 0 (map Some [0x61, 0x62])) 2 =
    Some (map Some [0x61, 0x62, 0x61, 0x62, 0x61, 0x62])"
proof -
  have three: "replicate 3 x = [x, x, x]" for x :: "byte list" by (simp add: numeral_3_eq_3)
  show ?thesis using repeat_loop_ends [of "replicate 6 None" "[0x61, 0x62]" 3] by (simp add: three numeral_2_eq_2)
qed

section \<open>Numbers\<close>

text \<open>C26. The decimal text of every integer of every type: the digits that the table-driven loop
  writes from the right are the decimal notation, which read back is the number.\<close>

theorem number_text_is_decimal:
  assumes "sound t R s" "in_range t ty x"
  shows "wp (num_into_repr t wasm h ty x)
    (\<lambda>r s'. \<exists>xs. as_str t h r s' = Ret xs s' \<and> xs = decimal x \<and> read_decimal xs = x \<and>
      sound t (add_mset (h, r, xs) R) s')
    (gave_up t R (length (decimal x)) s) (\<lambda>_. False) s"
proof (rule wp_mono [OF sound_num_into_repr [OF assms]])
  fix r s' assume "sound t (add_mset (h, r, decimal x) R) s' \<and> mem_only s s' \<and> modifiable R r"
  then have s': "sound t (add_mset (h, r, decimal x) R) s'" by blast
  have "as_str t h r s' = Ret (decimal x) s'"
    unfolding wp_Ret_iff [symmetric] by (simp add: sound_as_str [OF s', of h r "decimal x"])
  with s' show "\<exists>xs. as_str t h r s' = Ret xs s' \<and> xs = decimal x \<and> read_decimal xs = x \<and>
      sound t (add_mset (h, r, xs) R) s'" by simp
qed (auto intro: gave_upI)

theorem number_text_is_decimal_witness:
  "wp (num_into_repr x64 False Mutable I16 (-32768))
    (\<lambda>r s'. \<exists>xs. as_str x64 Mutable r s' = Ret xs s' \<and> xs = decimal (-32768) \<and> read_decimal xs = -32768 \<and>
      sound x64 {#(Mutable, r, xs), (Mutable, heap_value, long_text)#} s')
    (gave_up x64 {#(Mutable, heap_value, long_text)#} (length (decimal (-32768))) heap_memory) (\<lambda>_. False) heap_memory"
  by (rule number_text_is_decimal [OF sound_heap]) (simp add: in_range_def)

text \<open>C27. The digit counts, comparisons with powers of ten, are exact for every type, so the buffer
  is filled to the last byte and never overrun; no number needs more than 20 bytes.\<close>

theorem digit_count_exact:
  assumes "in_range t ty x"
  shows "digit_count t ty x = length (decimal x) \<and> digit_count t ty x \<le> 20"
proof -
  have len: "length (digits n) \<le> k" if "n < 10 ^ k" "0 < k" for n k
  proof (rule ccontr)
    assume long: "\<not> length (digits n) \<le> k"
    then have k: "k \<le> length (digits n) - 1" by simp
    have "n \<noteq> 0" using long that(2) by (cases "n = 0") (simp_all add: digits_small)
    with digits_bounds [of n] have "10 ^ (length (digits n) - 1) \<le> n" by blast
    moreover have "(10 :: nat) ^ k \<le> 10 ^ (length (digits n) - 1)" using k by (rule power_increasing) simp
    ultimately show False using that(1) by linarith
  qed
  have "length (decimal x) \<le> 20"
  proof (cases "x < 0")
    case True
    with assms have "nat (- x) < 10 ^ 19"
      by (cases ty; cases "pointer_width t")
        (simp_all add: in_range_def target_numbers_32 target_numbers_64 split: if_splits)
    with True len [of "nat (- x)" 19] show ?thesis by (simp add: decimal_def)
  next
    case False
    with assms have "nat x < 10 ^ 20"
      by (cases ty; cases "pointer_width t")
        (simp_all add: in_range_def target_numbers_32 target_numbers_64 split: if_splits)
    with False len [of "nat x" 20] show ?thesis by (simp add: decimal_def)
  qed
  with digit_count_eq [OF assms] show ?thesis by simp
qed

theorem digit_count_exact_witness:
  "digit_count x64 U64 18446744073709551615 = length (decimal 18446744073709551615) \<and>
    digit_count x64 U64 18446744073709551615 \<le> 20"
  by (rule digit_count_exact) (simp add: in_range_def)

section \<open>Encoded input\<close>

text \<open>C28. The lossy constructor from bytes always gives well-formed text, and gives the input itself
  when that is well-formed.\<close>

theorem lossy_text_is_valid:
  assumes "sound t R s"
  shows "valid_utf8 (lossy_text buf) \<and> (valid_utf8 buf \<longrightarrow> lossy_text buf = buf) \<and>
    wp (lean_from_utf8_lossy t buf) (\<lambda>r s'. sound t (add_mset (Mutable, r, lossy_text buf) R) s') (\<lambda>_. False)
      (gave_up t R (max (length buf) (length (lossy_text buf))) s) s"
proof -
  have "wp (lean_from_utf8_lossy t buf) (\<lambda>r s'. sound t (add_mset (Mutable, r, lossy_text buf) R) s') (\<lambda>_. False)
      (gave_up t R (max (length buf) (length (lossy_text buf))) s) s"
    by (rule wp_mono [OF sound_from_utf8_lossy [OF assms]]) simp_all
  then show ?thesis by (simp add: valid_lossy_text lossy_text_of_valid)
qed

theorem lossy_text_is_valid_witness:
  "valid_utf8 (lossy_text [0x61, 0xFF]) \<and>
    wp (lean_from_utf8_lossy x64 [0x61, 0xFF])
      (\<lambda>r s'. sound x64 {#(Mutable, r, lossy_text [0x61, 0xFF])#} s') (\<lambda>_. False)
      (gave_up x64 {#} (max 2 (length (lossy_text [0x61, 0xFF]))) no_memory_used) no_memory_used"
proof -
  have "length [0x61, 0xFF :: byte] = 2" by simp
  with lossy_text_is_valid [OF sound_no_memory, of "[0x61, 0xFF]"] show ?thesis by metis
qed

text \<open>C29. The checked constructor from bytes accepts exactly the well-formed inputs, with that text,
  and makes no value of any other.\<close>

theorem from_utf8_checks:
  assumes "sound t R s"
  shows "wp (lean_from_utf8 t buf)
    (\<lambda>res s'. case res of
        Inr r \<Rightarrow> valid_utf8 buf \<and> sound t (add_mset (Mutable, r, buf) R) s'
      | Inl e \<Rightarrow> \<not> valid_utf8 buf \<and> sound t R s')
    (\<lambda>_. False) (gave_up t R (length buf) s) s"
  by (rule wp_mono [OF sound_from_utf8 [OF assms, where E = "\<lambda>_. False"]]) simp_all

theorem from_utf8_checks_witness:
  "wp (lean_from_utf8 x64 [0xC3, 0x28])
    (\<lambda>res s'. case res of
        Inr r \<Rightarrow> valid_utf8 [0xC3, 0x28] \<and> sound x64 {#(Mutable, r, [0xC3, 0x28])#} s'
      | Inl e \<Rightarrow> \<not> valid_utf8 [0xC3, 0x28] \<and> sound x64 {#} s')
    (\<lambda>_. False) (gave_up x64 {#} (length [0xC3, 0x28 :: byte]) no_memory_used) no_memory_used"
  by (rule from_utf8_checks [OF sound_no_memory])

text \<open>C30. Every text survives UTF-16: decoding the encoded characters gives their UTF-8.\<close>

theorem utf16_round_trip:
  assumes "sound t R s" "\<forall>c \<in> set cs. scalar c"
  shows "wp (lean_from_utf16 t (concat (map encode_utf16 cs)))
    (\<lambda>res s'. \<exists>r. res = Inr r \<and> sound t (add_mset (Mutable, r, str_of cs) R) s')
    (\<lambda>_. False) (gave_up t R (utf16_size (concat (map encode_utf16 cs))) s) s"
  by (rule wp_mono [OF sound_from_utf16 [OF assms(1), where E = "\<lambda>_. False"]])
    (auto simp: utf16_result_def utf16_text_encode [OF assms(2)] split: sum.splits)

theorem utf16_round_trip_witness:
  "wp (lean_from_utf16 x64 (concat (map encode_utf16 [0x61, 0x1F600])))
    (\<lambda>res s'. \<exists>r. res = Inr r \<and> sound x64 {#(Mutable, r, str_of [0x61, 0x1F600])#} s')
    (\<lambda>_. False) (gave_up x64 {#} (utf16_size (concat (map encode_utf16 [0x61, 0x1F600]))) no_memory_used) no_memory_used"
  by (rule utf16_round_trip [OF sound_no_memory]) (simp add: scalar_def)

text \<open>C31. UTF-16 in bytes of either order: an odd length and a lone surrogate are errors of their own
  kind and leave no value behind, everything else is decoded.\<close>

theorem utf16_bytes_checks:
  assumes "sound t R s"
  shows "wp (lean_from_utf16le t aligned buf) (bytes16_result t R Mutable unit_from_le_bytes buf s) (\<lambda>_. False)
      (gave_up t R (utf16_size (units_of unit_from_le_bytes buf)) s) s \<and>
    wp (lean_from_utf16be t aligned buf) (bytes16_result t R Mutable unit_from_be_bytes buf s) (\<lambda>_. False)
      (gave_up t R (utf16_size (units_of unit_from_be_bytes buf)) s) s"
  using sound_from_utf16_bytes [OF assms] by blast

theorem utf16_bytes_checks_witness:
  "wp (lean_from_utf16le x64 True [0x00, 0xD8, 0x61]) (bytes16_result x64 {#} Mutable unit_from_le_bytes [0x00, 0xD8, 0x61] no_memory_used)
    (\<lambda>_. False) (gave_up x64 {#} (utf16_size (units_of unit_from_le_bytes [0x00, 0xD8, 0x61])) no_memory_used) no_memory_used"
  using utf16_bytes_checks [OF sound_no_memory] by blast

text \<open>C32. The fast path that reads the units in place when the bytes are aligned and the byte orders
  agree is equivalent to the one that assembles every unit.\<close>

theorem utf16_paths_agree:
  shows "lean_from_utf16le t True buf = lean_from_utf16le t False buf \<and>
    lean_from_utf16be t True buf = lean_from_utf16be t False buf \<and>
    lean_from_utf16le_lossy t True buf = lean_from_utf16le_lossy t False buf \<and>
    lean_from_utf16be_lossy t True buf = lean_from_utf16be_lossy t False buf"
  by (simp add: from_utf16le_eq from_utf16be_eq from_utf16le_lossy_eq from_utf16be_lossy_eq)

section \<open>Traits\<close>

text \<open>C33. Collecting values into one concatenates their texts and releases every value that was
  collected, also when memory runs out half-way.\<close>

theorem collecting_releases_the_pieces:
  assumes "sound t (live_values Mutable ws + R) s"
  shows "wp (from_iter_lean_strings t (map fst ws))
    (\<lambda>r s'. sound t (add_mset (Mutable, r, concat (map snd ws)) R) s') (\<lambda>_. False)
    (\<lambda>s'. sound t R s' \<and> out_of_memory t (length (concat (map snd ws))) s s') s"
  by (rule wp_mono [OF sound_from_iter_lean_strings [OF assms]]) (simp_all add: gave_up_def)

theorem collecting_releases_the_pieces_witness:
  "\<exists>s. wp (from_iter_lean_strings x64 [heap_value, heap_value])
    (\<lambda>r s'. sound x64 {#(Mutable, r, long_text @ long_text)#} s') (\<lambda>_. False)
    (\<lambda>s'. sound x64 {#} s' \<and> out_of_memory x64 40 s s') s"
proof -
  from reach_shared obtain s :: "repr st" where
    "sound x64 {#(Mutable, heap_value, long_text), (Mutable, heap_value, long_text)#} s" by blast
  then have "sound x64 (live_values Mutable [(heap_value, long_text), (heap_value, long_text)] + {#}) s"
    by (simp add: live_values_def)
  from collecting_releases_the_pieces [OF this] show ?thesis by auto
qed

text \<open>C34. \<^verbatim>\<open>try_to_lean_string\<close> gives the text of its argument, for every kind of argument. It
  returns an allocation error only after memory was refused and a formatting error only if the
  argument's own formatter fails. It panics only if a count is full, a literal is too long, or that
  formatter itself panics, in any case or on seeing a failed write. A \<^verbatim>\<open>Display\<close> implementation that
  does not panic itself, whether it passes on the error of a write or ignores it, gets the
  allocation error as a value.\<close>

theorem to_lean_string_gives_the_text:
  fixes format :: "'n \<Rightarrow> byte list"
  assumes "sound t R s" "source_is t format R v xs"
  shows "wp (try_to_lean_string t wasm format v) (sourced t R Mutable v xs StringReserve StringFmt s) (\<lambda>_. False)
    (source_panics t R v xs s) s"
  using assms by (rule sound_try_to_lean_string)

theorem to_lean_string_gives_the_text_witness:
  "wp (try_to_lean_string x64 False (\<lambda>_. []) shown_long_text)
    (sourced x64 {#} Mutable shown_long_text long_text StringReserve StringFmt refusing_memory)
    (\<lambda>_. False) (\<lambda>_. False) refusing_memory"
proof -
  have "source_is x64 (\<lambda>_. []) {#} shown_long_text long_text"
    by (simp add: source_is_def shown_long_text_def valid_long_text)
  from to_lean_string_gives_the_text [OF sound_refusing_memory this, of False] show ?thesis
    by (rule wp_mono) (simp_all add: source_panics_def shown_long_text_def)
qed

text \<open>C35. Serialization and back: a value serialized as a string and deserialized is a new value with
  the same text, and bytes that are not UTF-8 are refused with the error of the format.\<close>

theorem serde_round_trip:
  assumes "sound t R s" "(h, r, xs) \<in># R"
  shows "wp (bind (value_serialize t VisitStr h r) (lean_deserialize t invalid_value))
      (\<lambda>res s'. \<exists>r'. res = Inr r' \<and> sound t (add_mset (Mutable, r', xs) R) s') (\<lambda>_. False)
      (gave_up t R (length xs) s) s \<and>
    (\<forall>bs. \<not> valid_utf8 bs \<longrightarrow>
      lean_deserialize t invalid_value (VisitBytes bs) s = Ret (Inl (invalid_value bs)) s)"
proof -
  have "wp (lean_deserialize t invalid_value (VisitStr xs))
      (\<lambda>res s'. \<exists>r'. res = Inr r' \<and> sound t (add_mset (Mutable, r', xs) R) s') (\<lambda>_. False) (gave_up t R (length xs) s) s"
    by (rule wp_mono [OF sound_lean_deserialize [OF assms(1), of "VisitStr xs" xs]])
      (auto simp: hands_back_def sound_valid [OF assms])
  moreover have "lean_deserialize t invalid_value (VisitBytes bs) s = Ret (Inl (invalid_value bs)) s"
    if "\<not> valid_utf8 bs" for bs
    using lean_deserialize_invalid [OF assms(1) that, of "VisitBytes bs" invalid_value]
    unfolding wp_Ret_iff [symmetric] by simp
  ultimately show ?thesis by (simp add: value_serialize_def sound_as_str [OF assms])
qed

theorem serde_round_trip_witness:
  "lean_deserialize x64 (\<lambda>bs. length bs) (VisitBytes [0xFF]) heap_memory = Ret (Inl 1) heap_memory"
proof -
  have "\<not> valid_utf8 [0xFF]" by code_simp
  with serde_round_trip [OF sound_heap, of Mutable heap_value long_text "\<lambda>bs. length bs"] show ?thesis by simp
qed

text \<open>C36. The order of values, which compares bytes, is the order of their characters' code points.\<close>

theorem order_is_code_point_order:
  assumes "sound t R s" "(h, r, xs) \<in># R" "(h, q, ys) \<in># R"
  shows "value_cmp t h r q s = Ret (chars_cmp (chars xs) (chars ys)) s"
proof -
  have v: "valid_utf8 xs" "valid_utf8 ys" using sound_valid [OF assms(1)] assms(2,3) by blast+
  then have "str_cmp xs ys = chars_cmp (chars xs) (chars ys)"
    using str_cmp_chars [of "chars xs" "chars ys"] chars_scalar by (simp add: str_of_chars)
  then show ?thesis
    unfolding wp_Ret_iff [symmetric]
    by (simp add: value_cmp_def sound_as_str [OF assms(1,2)] sound_as_str [OF assms(1,3)])
qed

theorem order_is_code_point_order_witness:
  "value_cmp x64 Mutable heap_value heap_value heap_memory = Ret (chars_cmp (chars long_text) (chars long_text)) heap_memory"
  by (rule order_is_code_point_order [OF sound_heap]) simp_all

text \<open>C37. Equality compares texts, whatever the variants and the types of the two values, and equal
  values hash alike; the hash is that of the text, as \<^verbatim>\<open>Borrow<str>\<close> requires.\<close>

theorem equality_and_hash_are_of_the_text:
  assumes "sound t R s" "(h, r, xs) \<in># R" "(h', q, ys) \<in># R"
  shows "value_eq t h r h' q s = Ret (xs = ys) s \<and>
    value_hash t write h r state s = Ret (str_hash write xs state) s"
  unfolding wp_Ret_iff [symmetric]
  by (simp add: value_eq_def value_hash_def sound_as_str [OF assms(1,2)] sound_as_str [OF assms(1,3)])

theorem equality_and_hash_are_of_the_text_witness:
  "value_eq x64 Mutable heap_value Mutable heap_value heap_memory = Ret True heap_memory"
  using equality_and_hash_are_of_the_text [OF sound_heap, of Mutable heap_value long_text Mutable heap_value long_text
      "\<lambda>st bs. st @ bs" "[]"] by simp

section \<open>Threads\<close>

text \<open>C38. What another thread does leaves an exclusively held handle and its text alone, although they
  share the buffer; and while a method has found the handle unique, no other thread even reads the
  buffer or the counter.\<close>

theorem other_threads_do_not_interfere:
  assumes "interleaved t N (Sharing (add_mset h R) s)" "N \<le> ISIZE_MAX t"
    and "turn t N (Sharing (add_mset h R) s) j (Sharing H' s')" "exclusive i h" "j \<noteq> i"
  shows "h \<in># H' \<and> take (length (own_text h)) (bytes_stored s') = own_text h \<and>
    (stage h = Sole \<longrightarrow> H' = {#h#} \<and> bytes_stored s' = bytes_stored s \<and> modifications s' = modifications s \<and>
      events s' = events s)"
proof -
  have h: "h \<in># H'" by (rule others_keep_handle [OF assms(3,4,5)])
  moreover have "take (length (own_text h)) (bytes_stored s') = own_text h"
    by (rule reads_own_text [OF next_turn [OF assms(1,3)] assms(2) h])
  ultimately show ?thesis
    using others_keep_sole [OF assms(1,2) _ _ assms(3)] sole_is_only [OF assms(1,2), of h] assms(4,5) by auto
qed

theorem other_threads_do_not_interfere_witness:
  "take 20 (bytes_stored after_drop) = long_text"
proof -
  have "interleaved x64 2 (Sharing (add_mset first_share {#first_share\<lparr>holder := 1\<rparr>#}) after_move)"
    and turn: "turn x64 2 (Sharing (add_mset first_share {#first_share\<lparr>holder := 1\<rparr>#}) after_move) 1
      (Sharing {#first_share#} after_drop)"
    using run_shared run_drop by (simp_all add: add_mset_commute)
  from other_threads_do_not_interfere [OF this(1) _ turn, of 0] show ?thesis by (simp add: x64_wrapping long_text_def)
qed

text \<open>C39. No interleaving of the threads that share a buffer, and no value the loads of the counter
  may return, leads to a data race, an access after the deallocation or a second deallocation; and
  every action the types permit can be carried out.\<close>

theorem shared_buffer_is_race_free:
  assumes "interleaved t N C" "N \<le> ISIZE_MAX t"
  shows "C \<noteq> Raced \<and> (\<forall>h R s i a. C = Sharing (add_mset h R) s \<longrightarrow> permits N (add_mset h R) s i h a \<longrightarrow>
    (\<exists>hs s'. perform t i h a s = Ret hs s'))"
  using interleaved_orderly [OF assms] permitted_turn assms by (cases C) (auto, metis)

theorem shared_buffer_is_race_free_witness:
  "\<exists>hs s'. perform x64 0 first_share (Check 1) after_drop = Ret hs s'"
proof -
  have "permits 2 {#first_share#} after_drop 0 first_share (Check 1)" by (simp add: readable_def drop_sel)
  with shared_buffer_is_race_free [OF reach_dropped] show ?thesis by (simp add: x64_wrapping del: permits.simps perform.simps)
qed

text \<open>C40. Across threads, the buffer is allocated exactly as long as a handle to it exists; the
  counter is the number of references and never wraps around; a handle that a method found unique is
  the only one; and the buffer has the text of every handle.\<close>

theorem shared_count_is_exact:
  assumes "interleaved t N (Sharing H s)" "N \<le> ISIZE_MAX t"
  shows "(allocated s \<longleftrightarrow> H \<noteq> {#} \<or> 0 < forgotten s) \<and>
    (allocated s \<longrightarrow> stored (latest s) = references H + forgotten s \<and> stored (latest s) \<le> USIZE_MAX t) \<and>
    (\<forall>h\<in>#H. (stage h = Sole \<longrightarrow> H = {#h#}) \<and> take (length (own_text h)) (bytes_stored s) = own_text h)"
  using allocated_iff_used [OF assms] counter_is_exact [OF assms] reads_own_text [OF assms] sole_is_only [OF assms]
  by blast

theorem shared_count_is_exact_witness:
  "take 1 (bytes_stored (after_write [0x62])) = [0x62]"
  using shared_count_is_exact [OF reach_written [of "[0x62]"]] by (simp add: x64_wrapping)

end
